(* ===== verification/Prelude.thy ===== *)
theory Prelude
  imports Main "HOL-Library.Word"
begin

text \<open>
  The vocabulary every component shares: Go's error values with the chain semantics of
  \<^verbatim>\<open>errors.Is\<close> and \<^verbatim>\<open>errors.Join\<close>, the outcome of a function that may panic, durations,
  contexts, the named collections of simplification rules, and the generic lemmas on lists and
  words the component proofs use.
\<close>

named_theorems go_simps \<open>equations of the Go vocabulary: errors, outcomes, durations\<close>
named_theorems inv_intros \<open>one preservation rule per operation and invariant\<close>

subsection \<open>Durations and contexts\<close>

text \<open>\<^verbatim>\<open>time.Duration\<close> counts nanoseconds. No component adds durations near the bounds of
  \<^verbatim>\<open>int64\<close>, so a duration is an \<open>int\<close>.\<close>

type_synonym duration = int

abbreviation (input) Millisecond :: duration where "Millisecond \<equiv> 1000000"
abbreviation (input) Second :: duration where "Second \<equiv> 1000000000"
abbreviation (input) Minute :: duration where "Minute \<equiv> 60000000000"

text \<open>Go divides integers towards zero.\<close>

definition go_quot :: "int \<Rightarrow> int \<Rightarrow> int" where
  "go_quot a b =
     (if (a < 0) = (b < 0) then \<bar>a\<bar> div \<bar>b\<bar> else - (\<bar>a\<bar> div \<bar>b\<bar>))"

text \<open>A context is an address; nil is \<open>None\<close> where the code tests for it.\<close>

type_synonym ctx = nat
type_synonym pid = nat
type_synonym fd = nat

subsection \<open>Errors\<close>

text \<open>The error variables of the standard library that the code compares with.\<close>

datatype std_error =
    OsErrPermission | OsErrNotExist | ExecErrNotFound
  | CtxCanceled | CtxDeadlineExceeded | IoEOF

datatype fmt_arg = ArgInt int | ArgDur duration | ArgStr string | ArgStrs "string list"

text \<open>
  \<open>Sentinel\<close> is a value of \<^verbatim>\<open>sentinel.Error\<close> (compared by its string), \<open>Std\<close> an error
  variable of the standard library, \<open>Errorf\<close> an error with no wrapped cause
  (\<^verbatim>\<open>errors.New\<close>, or \<^verbatim>\<open>fmt.Errorf\<close> without \<^verbatim>\<open>%w\<close>), \<open>Wrapf\<close> one with a wrapped cause and
  \<open>Joined\<close> the value of \<^verbatim>\<open>errors.Join\<close>. Formats are the source's, with their arguments.
\<close>

datatype go_error =
    Sentinel string
  | Std std_error
  | Errorf string "fmt_arg list"
  | Wrapf string "fmt_arg list" go_error
  | Joined "go_error list"

abbreviation errors_New :: "string \<Rightarrow> go_error" where
  "errors_New m \<equiv> Errorf m []"

text \<open>\<^verbatim>\<open>errors.Is\<close> for targets that are comparable values (sentinels and standard variables).\<close>

fun errors_Is :: "go_error \<Rightarrow> go_error \<Rightarrow> bool" where
  "errors_Is (Wrapf f as e) t = errors_Is e t"
| "errors_Is (Joined es) t = list_ex (\<lambda>e. errors_Is e t) es"
| "errors_Is (Sentinel m) t = (t = Sentinel m)"
| "errors_Is (Std v) t = (t = Std v)"
| "errors_Is (Errorf f as) t = False"

text \<open>\<^verbatim>\<open>errors.Join\<close> drops nil errors and is nil when nothing is left.\<close>

definition errors_Join :: "go_error option list \<Rightarrow> go_error option" where
  "errors_Join es = (case List.map_filter id es of [] \<Rightarrow> None | xs \<Rightarrow> Some (Joined xs))"

lemma errors_Join_None_iff [go_simps]: "errors_Join es = None \<longleftrightarrow> (\<forall>e \<in> set es. e = None)"
  by (induction es) (auto simp: errors_Join_def List.map_filter_def split: list.splits)

lemma errors_Join_Nil [simp]: "errors_Join [] = None"
  by (simp add: errors_Join_def List.map_filter_def)

lemma map_filter_id_map_Some [simp]: "List.map_filter id (map Some xs) = xs"
  by (induction xs) (auto simp: List.map_filter_def)

lemma errors_Join_map_Some:
  "errors_Join (map Some xs) = (if xs = [] then None else Some (Joined xs))"
  by (simp add: errors_Join_def split: list.splits)

text \<open>
  The idiom of the \<^verbatim>\<open>validate\<close> methods: append an error for each violated condition, then join
  what was collected.
\<close>

definition err_if :: "bool \<Rightarrow> go_error \<Rightarrow> go_error list" where
  "err_if b e = (if b then [e] else [])"

definition join_errs :: "go_error list \<Rightarrow> go_error option" where
  "join_errs es = errors_Join (map Some es)"

lemma err_if_simps [simp]: "err_if True e = [e]" "err_if False e = []"
  by (simp_all add: err_if_def)

lemma err_if_Nil_iff [simp]: "err_if b e = [] \<longleftrightarrow> \<not> b"
  by (simp add: err_if_def)

lemma set_err_if [simp]: "x \<in> set (err_if b e) \<longleftrightarrow> b \<and> x = e"
  by (auto simp: err_if_def)

lemma join_errs_None_iff [simp]: "join_errs es = None \<longleftrightarrow> es = []"
  by (simp add: join_errs_def errors_Join_map_Some)

lemma join_errs_Some_iff [simp]: "join_errs es = Some e \<longleftrightarrow> es \<noteq> [] \<and> e = Joined es"
  by (auto simp: join_errs_def errors_Join_map_Some)

lemma errors_Is_Join:
  "errors_Join es = Some e \<Longrightarrow> errors_Is e t \<longleftrightarrow> (\<exists>x. Some x \<in> set es \<and> errors_Is x t)"
  by (auto simp: errors_Join_def list_ex_iff List.map_filter_def split: list.splits
      dest!: arg_cong [where f = set])
    (force simp: image_iff)+

subsection \<open>Outcomes\<close>

text \<open>A function that may panic returns \<open>Panic\<close> with the message.\<close>

datatype 'a outcome = Ret 'a | Panic string

fun out_map :: "('a \<Rightarrow> 'b) \<Rightarrow> 'a outcome \<Rightarrow> 'b outcome" where
  "out_map f (Ret x) = Ret (f x)"
| "out_map f (Panic m) = Panic m"

lemma out_map_Ret_iff [simp]: "out_map f r = Ret y \<longleftrightarrow> (\<exists>x. r = Ret x \<and> y = f x)"
  by (cases r) auto

lemma out_map_Panic_iff [simp]: "out_map f r = Panic m \<longleftrightarrow> r = Panic m"
  by (cases r) auto

lemma go_quot_half_bounds:
  assumes "0 < t"
  shows "0 \<le> go_quot t 2" and "2 * go_quot t 2 \<le> t" and "t \<le> 2 * go_quot t 2 + 1"
  using assms by (auto simp: go_quot_def)

lemma go_quot_half_nonpos: "t \<le> 0 \<Longrightarrow> go_quot t 2 \<le> 0"
  by (auto simp: go_quot_def)

subsection \<open>Decimal numbers, as \<^verbatim>\<open>%d\<close> prints them\<close>

definition digit_char :: "nat \<Rightarrow> char" where
  "digit_char d = char_of (48 + d)"

function show_nat :: "nat \<Rightarrow> string" where
  "show_nat n = (if n \<le> 9 then [digit_char n] else show_nat (n div 10) @ [digit_char (n mod 10)])"
  by pat_completeness auto
termination
  by (relation "measure id") auto

declare show_nat.simps [simp del]

definition show_int :: "int \<Rightarrow> string" where
  "show_int i = (if i < 0 then CHR ''-'' # show_nat (nat (- i)) else show_nat (nat i))"

fun read_nat :: "nat \<Rightarrow> string \<Rightarrow> nat" where
  "read_nat acc [] = acc"
| "read_nat acc (c # cs) = read_nat (10 * acc + (of_char c - 48)) cs"

lemma read_nat_append: "read_nat acc (xs @ ys) = read_nat (read_nat acc xs) ys"
  by (induction xs arbitrary: acc) auto

lemma of_digit_char: "d \<le> 9 \<Longrightarrow> of_char (digit_char d) = (48 + d :: nat)"
  by (simp add: digit_char_def)

lemma read_show_nat: "read_nat 0 (show_nat n) = n"
proof (induction n rule: show_nat.induct)
  case (1 n)
  show ?case
  proof (cases "n \<le> 9")
    case True
    then show ?thesis by (simp add: show_nat.simps [of n] of_digit_char)
  next
    case False
    then show ?thesis using "1.IH" by (simp add: show_nat.simps [of n] read_nat_append of_digit_char)
  qed
qed

lemma show_nat_inject [simp]: "show_nat m = show_nat n \<longleftrightarrow> m = n"
  by (metis read_show_nat)

lemma show_nat_digits: "c \<in> set (show_nat n) \<Longrightarrow> (48::nat) \<le> of_char c \<and> of_char c \<le> (57::nat)"
proof (induction n rule: show_nat.induct)
  case (1 n)
  have "n mod 10 \<le> 9" by simp
  from of_digit_char [OF this] 1 this show ?case
    by (cases "n \<le> 9") (auto simp: show_nat.simps [of n] of_digit_char)
qed

lemma show_nat_not_Nil [simp]: "show_nat n \<noteq> []"
  by (subst show_nat.simps) simp

end
