(* ===== verification/World.thy ===== *)
theory World
  imports Prelude
begin

text \<open>
  What the program calls outside its own sources: the kernel's sockets, files and processes,
  the context package's clock, and the Kubernetes and SQLite client libraries. Each is a field
  of the record \<open>os\<close>, a function of the state \<open>'w\<close> of the outside world that returns the
  answer and the next state. Every definition that calls out takes the record as an argument;
  what it relies on is stated as a named hypothesis where a theorem needs it.
\<close>

subsection \<open>Values the outside world exchanges with the program\<close>

datatype net_addr = TCPAddr int | OtherAddr string

text \<open>\<^verbatim>\<open>exec.Cmd\<close>: the fields the code sets, and the process once started.\<close>

record cmd =
  cmd_ctx :: ctx
  cmd_path :: string
  cmd_args :: "string list"
  cmd_dir :: string
  cmd_pdeathsig :: "int option"
  cmd_stdout :: "fd option"
  cmd_stderr :: "fd option"
  cmd_process :: "pid option"

text \<open>
  The error of \<^verbatim>\<open>cmd.Wait\<close>: an \<^verbatim>\<open>*exec.ExitError\<close> with its system status, or another error.
  \<open>WaitStatus s\<close> carries \<^verbatim>\<open>status.Signal()\<close>, which is -1 when the process was not signalled.
\<close>

datatype sys_status = WaitStatus int | OtherStatus

datatype wait_error = ExitError sys_status go_error | OtherWaitError go_error

primrec wait_error_value :: "wait_error \<Rightarrow> go_error" where
  "wait_error_value (ExitError st e) = e"
| "wait_error_value (OtherWaitError e) = e"

text \<open>\<^verbatim>\<open>*os.File\<close>: the descriptor and \<^verbatim>\<open>Name()\<close>.\<close>

type_synonym os_file = "fd \<times> string"

text \<open>\<^verbatim>\<open>clientcmdapi.Config\<close>: the entries of the three maps the code fills, and the current context.\<close>

record kubeconfig =
  kc_clusters :: "(string \<times> string \<times> bool) list"
  kc_contexts :: "(string \<times> string \<times> string) list"
  kc_authInfos :: "(string \<times> string) list"
  kc_currentContext :: string

text \<open>\<^verbatim>\<open>rest.Config\<close>: the two limits the code sets, and everything else of it. An argument of a SQL
  statement is an integer or a text.\<close>

record rest_config =
  rc_rest :: string
  rc_QPS :: int
  rc_Burst :: int

datatype sql_arg = SqlInt int | SqlText string

text \<open>\<^verbatim>\<open>context.Background()\<close>.\<close>

definition Background :: ctx where "Background = 0"

definition SIGTERM :: int where "SIGTERM = 15"
definition SIGKILL :: int where "SIGKILL = 9"

subsection \<open>The operations\<close>

text \<open>
  \<^item> \<open>os_ctx_err\<close> is \<^verbatim>\<open>ctx.Err()\<close>; \<open>os_ctx_remaining\<close> is the time to \<^verbatim>\<open>ctx.Deadline()\<close>.
  \<^item> \<open>os_recv_done pid d\<close> receives the result of \<^verbatim>\<open>cmd.Wait\<close> from the process's done channel,
    giving up after \<open>d\<close>; a non-positive \<open>d\<close> only looks.
  \<^item> \<open>os_kill_after\<close> is \<^verbatim>\<open>time.AfterFunc(grace, proc.Kill)\<close>, \<open>os_cancel_kill\<close> its \<^verbatim>\<open>Stop\<close>.
  \<^item> \<open>os_exited pid\<close> says that the broadcast channel of the wait goroutine is closed.
  \<^item> \<open>os_poll\<close> is \<^verbatim>\<open>wait.PollUntilContextTimeout\<close>: the condition is a closure over the attempt
    counter that the code increments. \<open>os_poll_cancel\<close> is \<^verbatim>\<open>wait.PollUntilContextCancel\<close>.
  \<^item> \<open>os_sql_exec\<close> runs a prepared statement; inside its result is that of \<^verbatim>\<open>RowsAffected\<close>.
    \<open>os_wait_timer c d\<close> waits for a timer of \<open>d\<close> or the end of the context; true means the timer.
\<close>

record 'w os =
  os_ctx_err :: "ctx \<Rightarrow> 'w \<Rightarrow> std_error option"
  os_ctx_remaining :: "ctx \<Rightarrow> 'w \<Rightarrow> duration option"
  os_ctx_with_cancel :: "ctx \<Rightarrow> 'w \<Rightarrow> ctx \<times> 'w"
  os_ctx_with_timeout :: "ctx \<Rightarrow> duration \<Rightarrow> 'w \<Rightarrow> ctx \<times> 'w"
  os_ctx_cancel :: "ctx \<Rightarrow> 'w \<Rightarrow> 'w"
  os_net_listen :: "'w \<Rightarrow> (go_error + net_addr) \<times> 'w"
  os_listener_close :: "net_addr \<Rightarrow> 'w \<Rightarrow> go_error option \<times> 'w"
  os_create_file :: "string \<Rightarrow> 'w \<Rightarrow> (go_error + fd) \<times> 'w"
  os_close_file :: "fd \<Rightarrow> 'w \<Rightarrow> go_error option \<times> 'w"
  os_cmd_start :: "cmd \<Rightarrow> 'w \<Rightarrow> (go_error + pid) \<times> 'w"
  os_signal :: "pid \<Rightarrow> int \<Rightarrow> 'w \<Rightarrow> go_error option \<times> 'w"
  os_kill_after :: "pid \<Rightarrow> duration \<Rightarrow> 'w \<Rightarrow> 'w"
  os_cancel_kill :: "pid \<Rightarrow> 'w \<Rightarrow> 'w"
  os_recv_done :: "pid \<Rightarrow> duration \<Rightarrow> 'w \<Rightarrow> wait_error option option \<times> 'w"
  os_exited :: "pid \<Rightarrow> 'w \<Rightarrow> bool"
  os_mkdir_all :: "string \<Rightarrow> nat \<Rightarrow> 'w \<Rightarrow> go_error option \<times> 'w"
  os_write_file :: "string \<Rightarrow> string \<Rightarrow> nat \<Rightarrow> 'w \<Rightarrow> go_error option \<times> 'w"
  os_open :: "string \<Rightarrow> 'w \<Rightarrow> (go_error + os_file) \<times> 'w"
  os_open_trunc :: "string \<Rightarrow> nat \<Rightarrow> 'w \<Rightarrow> (go_error + os_file) \<times> 'w"
  os_create_temp :: "string \<Rightarrow> string \<Rightarrow> 'w \<Rightarrow> (go_error + os_file) \<times> 'w"
  os_stat :: "string \<Rightarrow> 'w \<Rightarrow> go_error + nat"
  os_fstat :: "os_file \<Rightarrow> 'w \<Rightarrow> go_error + nat"
  os_chmod :: "os_file \<Rightarrow> nat \<Rightarrow> 'w \<Rightarrow> go_error option \<times> 'w"
  os_io_copy :: "os_file \<Rightarrow> os_file \<Rightarrow> 'w \<Rightarrow> go_error option \<times> 'w"
  os_sync :: "os_file \<Rightarrow> 'w \<Rightarrow> go_error option \<times> 'w"
  os_close :: "os_file \<Rightarrow> 'w \<Rightarrow> go_error option \<times> 'w"
  os_rename :: "string \<Rightarrow> string \<Rightarrow> 'w \<Rightarrow> go_error option \<times> 'w"
  os_remove :: "string \<Rightarrow> 'w \<Rightarrow> go_error option \<times> 'w"
  os_look_path :: "string \<Rightarrow> 'w \<Rightarrow> go_error option"
  os_dial :: "string \<Rightarrow> 'w \<Rightarrow> go_error option \<times> 'w"
  os_new_request :: "string \<Rightarrow> go_error option"
  os_http_get :: "string \<Rightarrow> 'w \<Rightarrow> (go_error + int) \<times> 'w"
  os_ecdsa_key :: "'w \<Rightarrow> (go_error + nat) \<times> 'w"
  os_x509_marshal :: "nat \<Rightarrow> go_error + string"
  os_pem_encode :: "string \<Rightarrow> string"
  os_write_kubeconfig :: "kubeconfig \<Rightarrow> string \<Rightarrow> 'w \<Rightarrow> go_error option \<times> 'w"
  os_poll :: "ctx \<Rightarrow> duration \<Rightarrow> duration \<Rightarrow> bool \<Rightarrow>
    (nat \<Rightarrow> 'w \<Rightarrow> (go_error + bool) \<times> nat \<times> 'w) \<Rightarrow> nat \<Rightarrow> 'w \<Rightarrow> go_error option \<times> nat \<times> 'w"
  os_poll_cancel :: "ctx \<Rightarrow> duration \<Rightarrow> bool \<Rightarrow>
    (ctx \<Rightarrow> 'w \<Rightarrow> (go_error + bool) \<times> 'w) \<Rightarrow> 'w \<Rightarrow> go_error option \<times> 'w"
  os_sql_open :: "string \<Rightarrow> string \<Rightarrow> 'w \<Rightarrow> (go_error + nat) \<times> 'w"
  os_sql_query_int :: "nat \<Rightarrow> string \<Rightarrow> 'w \<Rightarrow> (go_error + int) \<times> 'w"
  os_sql_prepare :: "nat \<Rightarrow> string \<Rightarrow> 'w \<Rightarrow> (go_error + nat) \<times> 'w"
  os_sql_exec :: "nat \<Rightarrow> ctx \<Rightarrow> sql_arg list \<Rightarrow> 'w \<Rightarrow> (go_error + (go_error + int)) \<times> 'w"
  os_stmt_close :: "nat \<Rightarrow> 'w \<Rightarrow> go_error option \<times> 'w"
  os_db_close :: "nat \<Rightarrow> 'w \<Rightarrow> go_error option \<times> 'w"
  os_wait_timer :: "ctx \<Rightarrow> duration \<Rightarrow> 'w \<Rightarrow> bool \<times> 'w"
  os_build_config :: "string \<Rightarrow> 'w \<Rightarrow> (go_error + rest_config) \<times> 'w"
  os_new_clientset :: "rest_config \<Rightarrow> go_error + nat"
  os_list_namespaces :: "nat \<Rightarrow> ctx \<Rightarrow> 'w \<Rightarrow> (go_error + string list) \<times> 'w"
  os_rand_uint32 :: "'w \<Rightarrow> nat \<times> 'w"

subsection \<open>A world in which everything succeeds\<close>

text \<open>
  A concrete record over any state, from which the witnesses build theirs: no context ends, every
  file operation and signal succeeds, a started process gets number 1 and exits at SIGTERM, and a
  poll evaluates its condition once.
\<close>

definition quiet_os :: "'w os" where
  "quiet_os = \<lparr>
     os_ctx_err = (\<lambda>c w. None), os_ctx_remaining = (\<lambda>c w. None),
     os_ctx_with_cancel = (\<lambda>c w. (Suc c, w)), os_ctx_with_timeout = (\<lambda>c d w. (Suc c, w)),
     os_ctx_cancel = (\<lambda>c w. w),
     os_net_listen = (\<lambda>w. (Inr (TCPAddr 40000), w)), os_listener_close = (\<lambda>a w. (None, w)),
     os_create_file = (\<lambda>p w. (Inr 3, w)), os_close_file = (\<lambda>f w. (None, w)),
     os_cmd_start = (\<lambda>c w. (Inr 1, w)), os_signal = (\<lambda>p s w. (None, w)),
     os_kill_after = (\<lambda>p d w. w), os_cancel_kill = (\<lambda>p w. w),
     os_recv_done = (\<lambda>p d w. (Some (Some (ExitError (WaitStatus SIGTERM) (errors_New ''signal: terminated''))), w)),
     os_exited = (\<lambda>p w. False),
     os_mkdir_all = (\<lambda>p m w. (None, w)), os_write_file = (\<lambda>p c m w. (None, w)),
     os_open = (\<lambda>p w. (Inr (3, p), w)), os_open_trunc = (\<lambda>p m w. (Inr (4, p), w)),
     os_create_temp = (\<lambda>d pat w. (Inr (4, d @ ''/.tmp-copy-1''), w)),
     os_stat = (\<lambda>p w. Inl (Std OsErrNotExist)), os_fstat = (\<lambda>f w. Inr 0),
     os_chmod = (\<lambda>f m w. (None, w)), os_io_copy = (\<lambda>d s w. (None, w)),
     os_sync = (\<lambda>f w. (None, w)), os_close = (\<lambda>f w. (None, w)),
     os_rename = (\<lambda>a b w. (None, w)), os_remove = (\<lambda>p w. (None, w)),
     os_look_path = (\<lambda>p w. None), os_dial = (\<lambda>a w. (None, w)),
     os_new_request = (\<lambda>u. None), os_http_get = (\<lambda>u w. (Inr 200, w)),
     os_ecdsa_key = (\<lambda>w. (Inr 0, w)), os_x509_marshal = (\<lambda>k. Inr ''der''),
     os_pem_encode = (\<lambda>b. b), os_write_kubeconfig = (\<lambda>k p w. (None, w)),
     os_poll = (\<lambda>c i t imm cond n w.
       (case cond n w of
          (Inl e, n1, w1) \<Rightarrow> (Some e, n1, w1)
        | (Inr True, n1, w1) \<Rightarrow> (None, n1, w1)
        | (Inr False, n1, w1) \<Rightarrow> (Some (Std CtxDeadlineExceeded), n1, w1))),
     os_poll_cancel = (\<lambda>c i imm cond w.
       (case cond c w of
          (Inl e, w1) \<Rightarrow> (Some e, w1)
        | (Inr True, w1) \<Rightarrow> (None, w1)
        | (Inr False, w1) \<Rightarrow> (Some (Std CtxCanceled), w1))),
     os_sql_open = (\<lambda>d s w. (Inr 1, w)), os_sql_query_int = (\<lambda>d q w. (Inr 0, w)),
     os_sql_prepare = (\<lambda>d q w. (Inr 1, w)), os_sql_exec = (\<lambda>s c as w. (Inr (Inr 0), w)),
     os_stmt_close = (\<lambda>s w. (None, w)), os_db_close = (\<lambda>d w. (None, w)),
     os_wait_timer = (\<lambda>c d w. (True, w)),
     os_build_config = (\<lambda>p w. (Inr \<lparr>rc_rest = p, rc_QPS = 5, rc_Burst = 10\<rparr>, w)),
     os_new_clientset = (\<lambda>c. Inr 1),
     os_list_namespaces = (\<lambda>cl c w.
       (Inr [''default'', ''kube-system'', ''kube-public'', ''kube-node-lease''], w)),
     os_rand_uint32 = (\<lambda>w. (0, w))\<rparr>"

end
