(* ===== verification/Netutil.thy ===== *)
theory Netutil
  imports World
begin

text \<open>
  \<^verbatim>\<open>internal/netutil/port.go\<close>: the registry of ports reserved by this process. The registry's
  mutex makes each of \<open>reserve\<close> and \<open>Release\<close> atomic; the map \<^verbatim>\<open>ports\<close> is its key set.
\<close>

subsection \<open>The registry and its operations\<close>

record port_registry = ports :: "int set"

definition maxPortRetries :: nat where "maxPortRetries = 20"

definition NewPortRegistry :: port_registry where
  "NewPortRegistry = \<lparr>ports = {}\<rparr>"

definition reserve :: "port_registry \<Rightarrow> int \<Rightarrow> bool \<times> port_registry" where
  "reserve r port =
     (if port \<in> ports r then (False, r) else (True, r\<lparr>ports := insert port (ports r)\<rparr>))"

definition Release :: "port_registry \<Rightarrow> int \<Rightarrow> port_registry" where
  "Release r port = (if port \<notin> ports r then r else r\<lparr>ports := ports r - {port}\<rparr>)"

text \<open>The three results of \<^verbatim>\<open>tryAllocate\<close>: a port, "retry" (\<open>ok = false\<close>), an error.\<close>

definition tryAllocate ::
  "'w os \<Rightarrow> port_registry \<Rightarrow> 'w \<Rightarrow> (go_error + int option) \<times> port_registry \<times> 'w" where
  "tryAllocate sys r w =
     (case os_net_listen sys w of
        (Inl e, w1) \<Rightarrow> (Inl (Wrapf ''listen on tcp address: %w'' [] e), r, w1)
      | (Inr addr, w1) \<Rightarrow>
          (case addr of
             OtherAddr ty \<Rightarrow>
               (Inl (Errorf ''unexpected address type from ListenTCP: %T'' [ArgStr ty]), r,
                snd (os_listener_close sys addr w1))
           | TCPAddr p \<Rightarrow>
               (case reserve r p of
                  (False, r1) \<Rightarrow> (Inr None, r1, snd (os_listener_close sys addr w1))
                | (True, r1) \<Rightarrow>
                    (case os_listener_close sys addr w1 of
                       (Some e, w2) \<Rightarrow>
                         (Inl (Wrapf ''close listener for port %d: %w'' [ArgInt p] e),
                          Release r1 p, w2)
                     | (None, w2) \<Rightarrow> (Inr (Some p), r1, w2)))))"

text \<open>The loop \<^verbatim>\<open>for range maxPortRetries\<close>, with the attempts left as the argument.\<close>

fun allocateLoop ::
  "'w os \<Rightarrow> nat \<Rightarrow> port_registry \<Rightarrow> 'w \<Rightarrow> (go_error + int option) \<times> port_registry \<times> 'w" where
  "allocateLoop sys 0 r w = (Inr None, r, w)"
| "allocateLoop sys (Suc n) r w =
     (case tryAllocate sys r w of
        (Inl e, r1, w1) \<Rightarrow> (Inl e, r1, w1)
      | (Inr (Some p), r1, w1) \<Rightarrow> (Inr (Some p), r1, w1)
      | (Inr None, r1, w1) \<Rightarrow> allocateLoop sys n r1 w1)"

definition allocatePort ::
  "'w os \<Rightarrow> port_registry \<Rightarrow> 'w \<Rightarrow> (go_error + int) \<times> port_registry \<times> 'w" where
  "allocatePort sys r w =
     (case allocateLoop sys maxPortRetries r w of
        (Inl e, r1, w1) \<Rightarrow> (Inl e, r1, w1)
      | (Inr (Some p), r1, w1) \<Rightarrow> (Inr p, r1, w1)
      | (Inr None, r1, w1) \<Rightarrow>
          (Inl (Errorf ''allocate unique port: exhausted %d attempts (%d ports in registry)''
             [ArgInt (int maxPortRetries), ArgInt (int (card (ports r1)))]), r1, w1))"

definition AllocatePortPair ::
  "'w os \<Rightarrow> port_registry \<Rightarrow> 'w \<Rightarrow> (go_error + int \<times> int) \<times> port_registry \<times> 'w" where
  "AllocatePortPair sys r w =
     (case allocatePort sys r w of
        (Inl e, r1, w1) \<Rightarrow> (Inl (Wrapf ''allocate first port: %w'' [] e), r1, w1)
      | (Inr p1, r1, w1) \<Rightarrow>
          (case allocatePort sys r1 w1 of
             (Inl e, r2, w2) \<Rightarrow>
               (Inl (Wrapf ''allocate second port: %w'' [] e), Release r2 p1, w2)
           | (Inr p2, r2, w2) \<Rightarrow> (Inr (p1, p2), r2, w2)))"

subsection \<open>The registry as a set\<close>

lemma ports_reserve:
  "reserve r p = (ok, r') \<Longrightarrow> ok = (p \<notin> ports r) \<and> ports r' = insert p (ports r)"
  by (auto simp: reserve_def split: if_splits)

lemma ports_Release [simp]: "ports (Release r p) = ports r - {p}"
  by (auto simp: Release_def)

lemma port_registry_eqI: "ports r = ports (r' :: port_registry) \<Longrightarrow> r = r'"
  by simp

lemma Release_reserve: "reserve r p = (True, r') \<Longrightarrow> Release r' p = r"
  by (rule port_registry_eqI) (auto dest: ports_reserve)

text \<open>
  What an allocation leaves behind: on an error or a retry the registry is as before, on success
  exactly the new port was added and it was free.
\<close>

definition alloc_post :: "port_registry \<Rightarrow> port_registry \<Rightarrow> int option \<Rightarrow> bool" where
  "alloc_post r r' res =
     (case res of None \<Rightarrow> r' = r | Some p \<Rightarrow> p \<notin> ports r \<and> r' = r\<lparr>ports := insert p (ports r)\<rparr>)"

lemma alloc_post_simps [simp]:
  "alloc_post r r' None \<longleftrightarrow> r' = r"
  "alloc_post r r' (Some p) \<longleftrightarrow> p \<notin> ports r \<and> r' = r\<lparr>ports := insert p (ports r)\<rparr>"
  by (simp_all add: alloc_post_def)

lemma Release_update [simp]:
  "p \<notin> ports r \<Longrightarrow> Release (r\<lparr>ports := insert p (ports r)\<rparr>) p = r"
  by (rule port_registry_eqI) simp

lemma tryAllocate_post:
  "tryAllocate sys r w = (res, r', w') \<Longrightarrow>
     alloc_post r r' (case res of Inl e \<Rightarrow> None | Inr q \<Rightarrow> q)"
  by (auto simp: tryAllocate_def reserve_def split: prod.splits sum.splits net_addr.splits
      option.splits if_splits)

lemma allocateLoop_post:
  "allocateLoop sys n r w = (res, r', w') \<Longrightarrow>
     alloc_post r r' (case res of Inl e \<Rightarrow> None | Inr q \<Rightarrow> q)"
proof (induction n arbitrary: w)
  case (Suc n)
  obtain res1 r1 w1 where t: "tryAllocate sys r w = (res1, r1, w1)"
    by (cases "tryAllocate sys r w")
  have post: "alloc_post r r1 (case res1 of Inl e \<Rightarrow> None | Inr q \<Rightarrow> q)"
    using t by (rule tryAllocate_post)
  show ?case
    using Suc t post by (cases res1; cases "projr res1") (auto split: sum.splits)
qed auto

lemma allocatePort_post:
  "allocatePort sys r w = (res, r', w') \<Longrightarrow>
     alloc_post r r' (case res of Inl e \<Rightarrow> None | Inr p \<Rightarrow> Some p)"
  by (auto simp: allocatePort_def split: prod.splits sum.splits option.splits
      dest!: allocateLoop_post)

lemma AllocatePortPair_error:
  "AllocatePortPair sys r w = (Inl e, r', w') \<Longrightarrow> r' = r"
  by (auto simp: AllocatePortPair_def split: prod.splits sum.splits dest!: allocatePort_post)

lemma AllocatePortPair_ok:
  "AllocatePortPair sys r w = (Inr (p, q), r', w') \<Longrightarrow>
     p \<noteq> q \<and> p \<notin> ports r \<and> q \<notin> ports r \<and> ports r' = insert p (insert q (ports r))"
  by (auto simp: AllocatePortPair_def split: prod.splits sum.splits dest!: allocatePort_post)

subsection \<open>The contract a client of the registry relies on\<close>

text \<open>
  \<^verbatim>\<open>kubestack.Stack\<close> calls only \<^verbatim>\<open>AllocatePortPair\<close> and \<^verbatim>\<open>Release\<close>. What it needs of them is
  that a pair is fresh and distinct, that a failed allocation reserves nothing, and that a
  release undoes a reservation.
\<close>

locale port_reservation =
  fixes alloc :: "'r \<Rightarrow> 'w \<Rightarrow> (go_error + int \<times> int) \<times> 'r \<times> 'w"
    and release :: "'r \<Rightarrow> int \<Rightarrow> 'r"
    and reserved :: "'r \<Rightarrow> int set"
  assumes alloc_error: "alloc r w = (Inl e, r', w') \<Longrightarrow> r' = r"
    and alloc_ok: "alloc r w = (Inr (p, q), r', w') \<Longrightarrow>
      p \<noteq> q \<and> p \<notin> reserved r \<and> q \<notin> reserved r \<and> reserved r' = insert p (insert q (reserved r))"
    and reserved_release: "reserved (release r p) = reserved r - {p}"
    and reserved_inject: "reserved r = reserved r' \<Longrightarrow> r = r'"
begin

lemma release_pair:
  assumes "alloc r w = (Inr (p, q), r', w')"
  shows "release (release r' p) q = r"
  using alloc_ok [OF assms] by (intro reserved_inject) (auto simp: reserved_release)

lemma release_unreserved: "p \<notin> reserved r \<Longrightarrow> release r p = r"
  by (intro reserved_inject) (simp add: reserved_release)

lemma release_commute: "release (release r p) q = release (release r q) p"
  by (intro reserved_inject) (auto simp: reserved_release)

lemma alloc_twice_disjoint:
  assumes "alloc r w = (Inr (p, q), r1, w1)" and "alloc r1 w2 = (Inr (p', q'), r2, w3)"
  shows "distinct [p, q, p', q']"
  using alloc_ok [OF assms(1)] alloc_ok [OF assms(2)] by auto

end

interpretation preg: port_reservation "AllocatePortPair sys" Release ports for sys
  by unfold_locales (auto dest: AllocatePortPair_error AllocatePortPair_ok)

subsection \<open>Properties\<close>

text \<open>A failed \<^verbatim>\<open>AllocatePortPair\<close> leaves the registry as it was, so a caller that sees an
  error has nothing to release: the port reserved by the first half is given back when the second
  half fails, and a port whose listener cannot be closed is given back too.\<close>

theorem AllocatePortPair_no_leak:
  assumes "AllocatePortPair sys r w = (Inl e, r', w')"
  shows "r' = r"
  using assms by (rule preg.alloc_error)

text \<open>C29. The ports of a pair are distinct, free in the registry before, and the registry
  afterwards holds exactly them in addition; releasing both restores it.\<close>

theorem AllocatePortPair_fresh_roundtrip:
  assumes "AllocatePortPair sys r w = (Inr (p, q), r', w')"
  shows "p \<noteq> q \<and> {p, q} \<inter> ports r = {} \<and> ports r' = ports r \<union> {p, q} \<and>
         Release (Release r' p) q = r"
  using preg.alloc_ok [OF assms] preg.release_pair [OF assms] by auto

text \<open>
  The kernel's answers to \<open>n\<close> listens in a row, when each listen and close succeeds.
\<close>

fun listened :: "'w os \<Rightarrow> nat \<Rightarrow> 'w \<Rightarrow> int list" where
  "listened sys 0 w = []"
| "listened sys (Suc n) w =
     (case os_net_listen sys w of
        (Inr (TCPAddr p), w1) \<Rightarrow> p # listened sys n (snd (os_listener_close sys (TCPAddr p) w1))
      | _ \<Rightarrow> [])"

definition healthy_net :: "'w os \<Rightarrow> bool" where
  "healthy_net sys \<longleftrightarrow>
     (\<forall>w. \<exists>p w1. os_net_listen sys w = (Inr (TCPAddr p), w1)) \<and>
     (\<forall>a w. fst (os_listener_close sys a w) = None)"

lemma healthy_netE:
  assumes "healthy_net sys"
  obtains p w1 w2 where "os_net_listen sys w = (Inr (TCPAddr p), w1)"
    and "os_listener_close sys (TCPAddr p) w1 = (None, w2)"
proof -
  from assms obtain p w1 where l: "os_net_listen sys w = (Inr (TCPAddr p), w1)"
    unfolding healthy_net_def by blast
  from assms have "fst (os_listener_close sys (TCPAddr p) w1) = None"
    by (auto simp: healthy_net_def)
  then have "os_listener_close sys (TCPAddr p) w1
      = (None, snd (os_listener_close sys (TCPAddr p) w1))"
    by (simp add: prod_eq_iff)
  with l that show thesis by blast
qed

lemma allocateLoop_first_fresh:
  assumes "healthy_net sys"
  shows "fst (allocateLoop sys n r w) = Inr (List.find (\<lambda>p. p \<notin> ports r) (listened sys n w))"
proof (induction n arbitrary: w)
  case (Suc n)
  from assms obtain p w1 w2 where "os_net_listen sys w = (Inr (TCPAddr p), w1)"
    and "os_listener_close sys (TCPAddr p) w1 = (None, w2)"
    by (rule healthy_netE)
  with Suc show ?case by (simp add: tryAllocate_def reserve_def)
qed simp

text \<open>On a working network \<^verbatim>\<open>allocatePort\<close> returns the first of the kernel's answers that is
  not in the registry, and fails only after \<^verbatim>\<open>maxPortRetries\<close> answers that all were.\<close>

theorem allocatePort_first_fresh:
  assumes "healthy_net sys"
  shows "(case List.find (\<lambda>p. p \<notin> ports r) (listened sys maxPortRetries w) of
            Some p \<Rightarrow> fst (allocatePort sys r w) = Inr p
          | None \<Rightarrow> (\<exists>e. fst (allocatePort sys r w) = Inl e) \<and>
                    length (listened sys maxPortRetries w) = 20 \<and>
                    set (listened sys maxPortRetries w) \<subseteq> ports r)"
proof -
  have len: "length (listened sys n w) = n" for n w
  proof (induction n arbitrary: w)
    case (Suc n)
    from assms obtain p w1 w2 where "os_net_listen sys w = (Inr (TCPAddr p), w1)"
      by (rule healthy_netE)
    with Suc show ?case by simp
  qed simp
  note first = allocateLoop_first_fresh [OF assms, of maxPortRetries r w]
  show ?thesis
  proof (cases "List.find (\<lambda>p. p \<notin> ports r) (listened sys maxPortRetries w)")
    case None
    then have "set (listened sys maxPortRetries w) \<subseteq> ports r"
      by (auto simp: find_None_iff)
    moreover have "length (listened sys maxPortRetries w) = 20"
      by (simp add: len maxPortRetries_def)
    moreover have "\<exists>e. fst (allocatePort sys r w) = Inl e"
      using None first by (auto simp: allocatePort_def split: prod.splits)
    ultimately show ?thesis using None by simp
  next
    case (Some p)
    with first show ?thesis by (auto simp: allocatePort_def split: prod.splits)
  qed
qed

subsection \<open>Witnesses\<close>

text \<open>A kernel that hands out consecutive ports from the counter that is its state, and one whose
  second listen fails.\<close>

definition counting_net :: "nat os" where
  "counting_net = quiet_os\<lparr>os_net_listen := (\<lambda>w. (Inr (TCPAddr (40000 + int w)), Suc w))\<rparr>"

definition failing_net :: "nat os" where
  "failing_net = counting_net\<lparr>os_net_listen :=
     (\<lambda>w. (if w = 0 then Inr (TCPAddr 40000) else Inl (errors_New ''listen failed''), Suc w))\<rparr>"

lemmas net_eval = quiet_os_def AllocatePortPair_def allocatePort_def maxPortRetries_def tryAllocate_def
  reserve_def numeral_eq_Suc

theorem AllocatePortPair_no_leak_witness:
  "\<exists>e. AllocatePortPair failing_net NewPortRegistry 0 = (Inl e, NewPortRegistry, 2)"
proof -
  obtain e r' where run: "AllocatePortPair failing_net NewPortRegistry 0 = (Inl e, r', 2)"
    by (simp add: net_eval failing_net_def counting_net_def NewPortRegistry_def)
  with AllocatePortPair_no_leak [OF run] show ?thesis by blast
qed

theorem AllocatePortPair_fresh_roundtrip_witness:
  "\<exists>r'. AllocatePortPair counting_net NewPortRegistry 0 = (Inr (40000, 40001), r', 2) \<and>
        ports r' = {40000, 40001} \<and> Release (Release r' 40000) 40001 = NewPortRegistry"
proof -
  obtain r' where run:
    "AllocatePortPair counting_net NewPortRegistry 0 = (Inr (40000, 40001), r', 2)"
    by (simp add: net_eval counting_net_def NewPortRegistry_def)
  with AllocatePortPair_fresh_roundtrip [OF run] show ?thesis
    by (auto simp: NewPortRegistry_def)
qed

theorem allocatePort_first_fresh_witness:
  "healthy_net counting_net \<and>
   fst (allocatePort counting_net \<lparr>ports = {40000, 40001}\<rparr> 0) = Inr 40002"
proof -
  have h: "healthy_net counting_net"
    by (auto simp: healthy_net_def counting_net_def quiet_os_def)
  have "List.find (\<lambda>p. p \<notin> ports \<lparr>ports = {40000, 40001}\<rparr>)
      (listened counting_net maxPortRetries 0) = Some 40002"
    by (simp add: counting_net_def quiet_os_def maxPortRetries_def numeral_eq_Suc)
  with h allocatePort_first_fresh [OF h, of "\<lparr>ports = {40000, 40001}\<rparr>" 0] show ?thesis
    by simp
qed

end
