(* ===== verification/Paths.thy ===== *)
theory Paths
  imports Prelude
begin

text \<open>
  The functions of Go's \<^verbatim>\<open>path/filepath\<close> (slash-separated systems) that the sources call:
  \<^verbatim>\<open>Clean\<close>, \<^verbatim>\<open>Join\<close> and \<^verbatim>\<open>Dir\<close>.
\<close>

fun split_on :: "char \<Rightarrow> string \<Rightarrow> string list" where
  "split_on c [] = [[]]"
| "split_on c (x # xs) =
     (if x = c then [] # split_on c xs
      else (case split_on c xs of [] \<Rightarrow> [[x]] | y # ys \<Rightarrow> (x # y) # ys))"

fun join_with :: "string \<Rightarrow> string list \<Rightarrow> string" where
  "join_with sep [] = []"
| "join_with sep [x] = x"
| "join_with sep (x # y # zs) = x @ sep @ join_with sep (y # zs)"

text \<open>The elements of a path after cleaning; \<open>out\<close> holds the ones kept so far, last first.\<close>

fun clean_elems :: "bool \<Rightarrow> string list \<Rightarrow> string list \<Rightarrow> string list" where
  "clean_elems rooted out [] = rev out"
| "clean_elems rooted out (e # es) =
     (if e = [] \<or> e = ''.'' then clean_elems rooted out es
      else if e = ''..'' then
        (case out of
           [] \<Rightarrow> clean_elems rooted (if rooted then [] else [''..'']) es
         | p # ps \<Rightarrow>
             (if p = ''..'' then clean_elems rooted (''..'' # out) es
              else clean_elems rooted ps es))
      else clean_elems rooted (e # out) es)"

definition filepath_Clean :: "string \<Rightarrow> string" where
  "filepath_Clean p =
     (let rooted = (case p of [] \<Rightarrow> False | x # _ \<Rightarrow> x = CHR ''/'');
          out = join_with ''/'' (clean_elems rooted [] (split_on (CHR ''/'') p))
      in if rooted then CHR ''/'' # out else if out = [] then ''.'' else out)"

definition filepath_Join :: "string list \<Rightarrow> string" where
  "filepath_Join elems =
     (let es = dropWhile (\<lambda>e. e = []) elems
      in if es = [] then [] else filepath_Clean (join_with ''/'' es))"

definition filepath_Dir :: "string \<Rightarrow> string" where
  "filepath_Dir p = filepath_Clean (rev (dropWhile (\<lambda>c. c \<noteq> CHR ''/'') (rev p)))"

definition filepath_Ext :: "string \<Rightarrow> string" where
  "filepath_Ext p =
     (let suffix = rev (takeWhile (\<lambda>c. c \<noteq> CHR ''/'') (rev p))
      in if CHR ''.'' \<in> set suffix
         then CHR ''.'' # rev (takeWhile (\<lambda>c. c \<noteq> CHR ''.'') (rev suffix)) else [])"

text \<open>\<^verbatim>\<open>Rel\<close> compares the cleaned paths element by element. It fails when one is absolute and the other
  is not, or when it would have to go down from a parent it cannot name.\<close>

fun drop_common :: "string list \<Rightarrow> string list \<Rightarrow> string list \<times> string list" where
  "drop_common (b # bs) (t # ts) = (if b = t then drop_common bs ts else (b # bs, t # ts))"
| "drop_common bs ts = (bs, ts)"

definition path_elems :: "string \<Rightarrow> string list" where
  "path_elems p = filter (\<lambda>e. e \<noteq> []) (split_on (CHR ''/'') p)"

definition filepath_Rel :: "string \<Rightarrow> string \<Rightarrow> go_error + string" where
  "filepath_Rel basepath targpath =
     (let base = filepath_Clean basepath;
          targ = filepath_Clean targpath;
          rooted = (\<lambda>p. case p of [] \<Rightarrow> False | x # _ \<Rightarrow> x = CHR ''/'')
      in if targ = base then Inr ''.''
         else if rooted base \<noteq> rooted targ then Inl (errors_New (''Rel: can't make '' @ targpath @ '' relative to '' @ basepath))
         else (case drop_common (if base = ''.'' then [] else path_elems base) (path_elems targ) of
                 (b # bs, ts) \<Rightarrow>
                   (if b = ''..'' \<and> ts \<noteq> []
                    then Inl (errors_New (''Rel: can't make '' @ targpath @ '' relative to '' @ basepath))
                    else Inr (join_with ''/'' (map (\<lambda>_. ''..'') (b # bs) @ ts)))
               | ([], ts) \<Rightarrow> Inr (join_with ''/'' ts)))"

subsection \<open>Plain elements\<close>

text \<open>An element that cleaning keeps as it is: a file name.\<close>

definition plain_elem :: "string \<Rightarrow> bool" where
  "plain_elem e \<longleftrightarrow> e \<noteq> [] \<and> e \<noteq> ''.'' \<and> e \<noteq> ''..'' \<and> CHR ''/'' \<notin> set e"

lemma split_on_no_sep: "c \<notin> set xs \<Longrightarrow> split_on c xs = [xs]"
  by (induction xs) auto

lemma split_on_not_Nil [simp]: "split_on c xs \<noteq> []"
  by (induction xs) (auto split: list.splits)

lemma split_on_append:
  "split_on c (xs @ c # ys) = split_on c xs @ split_on c ys"
  by (induction xs) (auto split: list.splits)

lemma clean_elems_append_plain:
  "list_all plain_elem es \<Longrightarrow>
     clean_elems rooted out (xs @ es) = clean_elems rooted out xs @ es"
proof (induction xs arbitrary: out)
  case Nil
  then show ?case
    by (induction es arbitrary: out) (auto simp: plain_elem_def)
qed (auto split: list.splits)

lemma join_with_snoc: "xs \<noteq> [] \<Longrightarrow> join_with sep (xs @ [y]) = join_with sep xs @ sep @ y"
  by (induction sep xs rule: join_with.induct) auto


text \<open>The part of a path after its last slash.\<close>

definition last_elem :: "string \<Rightarrow> string" where
  "last_elem p = rev (takeWhile (\<lambda>c. c \<noteq> CHR ''/'') (rev p))"

lemma last_elem_no_sep: "CHR ''/'' \<notin> set e \<Longrightarrow> last_elem e = e"
proof -
  assume "CHR ''/'' \<notin> set e"
  then have "\<forall>c \<in> set (rev e). c \<noteq> CHR ''/''" by auto
  then have "takeWhile (\<lambda>c. c \<noteq> CHR ''/'') (rev e) = rev e" by (simp only: takeWhile_eq_all_conv)
  then show ?thesis by (simp only: last_elem_def rev_rev_ident)
qed

lemma last_elem_sep: "CHR ''/'' \<notin> set e \<Longrightarrow> last_elem (xs @ CHR ''/'' # e) = e"
proof -
  assume "CHR ''/'' \<notin> set e"
  then have "\<And>c. c \<in> set (rev e) \<Longrightarrow> c \<noteq> CHR ''/''" by auto
  from takeWhile_append2 [of "rev e" "\<lambda>c. c \<noteq> CHR ''/''", OF this, of "CHR ''/'' # rev xs"]
  show ?thesis by (simp add: last_elem_def)
qed

lemma last_elem_Cons: "last_elem (CHR ''/'' # ys) = last_elem ys"
proof (cases "CHR ''/'' \<in> set ys")
  case True
  then have "takeWhile (\<lambda>c. c \<noteq> CHR ''/'') (rev ys @ [CHR ''/'']) = takeWhile (\<lambda>c. c \<noteq> CHR ''/'') (rev ys)"
    by (intro takeWhile_append1 [of "CHR ''/''"]) auto
  then show ?thesis by (simp only: last_elem_def rev.simps)
next
  case False
  then show ?thesis using last_elem_sep [OF False, of "[]"] last_elem_no_sep [OF False] by simp
qed

lemma last_elem_join:
  "CHR ''/'' \<notin> set e \<Longrightarrow> last_elem (join_with ''/'' (xs @ [e])) = e"
  by (cases "xs = []") (simp_all add: join_with_snoc last_elem_sep last_elem_no_sep)

lemma last_elem_Clean:
  assumes "plain_elem e"
  shows "last_elem (filepath_Clean (xs @ CHR ''/'' # e)) = e"
proof -
  let ?r = "case xs @ CHR ''/'' # e of [] \<Rightarrow> False | x # _ \<Rightarrow> x = CHR ''/''"
  let ?j = "join_with ''/'' (clean_elems ?r [] (split_on (CHR ''/'') xs) @ [e])"
  have e: "CHR ''/'' \<notin> set e" "list_all plain_elem [e]" "e \<noteq> []"
    using assms by (auto simp: plain_elem_def)
  have l: "last_elem ?j = e" by (rule last_elem_join [OF e(1)])
  then have "?j \<noteq> []" using e(3) by (metis last_elem_no_sep list.set(1) empty_iff)
  then have "filepath_Clean (xs @ CHR ''/'' # e) = (if ?r then CHR ''/'' # ?j else ?j)"
    unfolding filepath_Clean_def Let_def split_on_append split_on_no_sep [OF e(1)]
      clean_elems_append_plain [OF e(2)] by (simp only: if_False if_True split: if_splits)
  with l show ?thesis by (simp only: last_elem_Cons if_cancel split: if_splits) auto
qed

text \<open>A file name joined to any directory is the last element of the path, so different names in
  one directory are different paths.\<close>

lemma last_elem_Join [simp]: "plain_elem e \<Longrightarrow> last_elem (filepath_Join [d, e]) = e"
proof (cases "d = []")
  case True
  moreover assume "plain_elem e"
  ultimately show ?thesis
    by (auto simp: filepath_Join_def filepath_Clean_def plain_elem_def split_on_no_sep
        last_elem_no_sep split: list.splits)
next
  case False
  moreover assume "plain_elem e"
  ultimately show ?thesis
    using last_elem_Clean [of e d] by (simp add: filepath_Join_def)
qed

lemma filepath_Clean_not_Nil [simp]: "filepath_Clean p \<noteq> []"
  by (simp add: filepath_Clean_def Let_def)

lemma filepath_Join_not_Nil: "e \<in> set es \<Longrightarrow> e \<noteq> [] \<Longrightarrow> filepath_Join es \<noteq> []"
  by (auto simp: filepath_Join_def Let_def)

lemma filepath_Join_neq:
  "plain_elem a \<Longrightarrow> plain_elem b \<Longrightarrow> a \<noteq> b \<Longrightarrow> filepath_Join [d, a] \<noteq> filepath_Join [d', b]"
  by (metis last_elem_Join)


subsection \<open>Cleaned paths\<close>

text \<open>Whether a path is absolute, and its elements after cleaning.\<close>

definition rooted :: "string \<Rightarrow> bool" where
  "rooted p \<longleftrightarrow> (case p of [] \<Rightarrow> False | x # _ \<Rightarrow> x = CHR ''/'')"

definition norm :: "string \<Rightarrow> string list" where
  "norm p = clean_elems (rooted p) [] (split_on (CHR ''/'') p)"

lemma filepath_Clean_norm:
  "filepath_Clean p =
     (if rooted p then CHR ''/'' # join_with ''/'' (norm p)
      else if join_with ''/'' (norm p) = [] then ''.'' else join_with ''/'' (norm p))"
  by (simp add: filepath_Clean_def rooted_def norm_def Let_def)

text \<open>Cleaning leaves parents only in front, and none in an absolute path.\<close>

definition clean_list :: "bool \<Rightarrow> string list \<Rightarrow> bool" where
  "clean_list r es \<longleftrightarrow> (\<exists>k rest. es = replicate k ''..'' @ rest \<and> list_all plain_elem rest \<and> (r \<longrightarrow> k = 0))"

lemma clean_listI: "list_all plain_elem rest \<Longrightarrow> (r \<Longrightarrow> k = 0) \<Longrightarrow> clean_list r (replicate k ''..'' @ rest)"
  by (auto simp: clean_list_def)

lemma clean_list_snoc_parent:
  assumes "clean_list r (es @ [''..''])"
  shows "clean_list r ((es @ [''..'']) @ [''..''])"
proof -
  from assms obtain k rest where k: "es @ [''..''] = replicate k ''..'' @ rest" "list_all plain_elem rest" "r \<longrightarrow> k = 0"
    by (auto simp: clean_list_def)
  have "rest = []" using k(1,2) by (cases rest rule: rev_cases) (auto simp: plain_elem_def)
  with k(1) have "k \<noteq> 0" "(es @ [''..'']) @ [''..''] = replicate (Suc k) ''..'' @ []"
    by (cases k; simp add: replicate_append_same)+
  with k(3) show ?thesis unfolding clean_list_def by (intro exI [of _ "Suc k"] exI [of _ "[]"]) simp
qed

lemma clean_list_snoc:
  assumes "clean_list r (es @ [e])" and "e \<noteq> ''..''"
  shows "clean_list r es"
proof -
  from assms(1) obtain k rest where k: "es @ [e] = replicate k ''..'' @ rest" "list_all plain_elem rest" "r \<longrightarrow> k = 0"
    by (auto simp: clean_list_def)
  show ?thesis
  proof (cases rest rule: rev_cases)
    case Nil
    with k(1) assms(2) show ?thesis by (cases k) (auto simp flip: replicate_append_same)
  next
    case (snoc xs x)
    with k have "es = replicate k ''..'' @ xs" "list_all plain_elem xs" by auto
    with k(3) show ?thesis unfolding clean_list_def by blast
  qed
qed

lemma clean_list_app:
  assumes "clean_list r es" and "plain_elem e"
  shows "clean_list r (es @ [e])"
proof -
  from assms(1) obtain k rest where "es = replicate k ''..'' @ rest" "list_all plain_elem rest" "r \<longrightarrow> k = 0"
    by (auto simp: clean_list_def)
  with assms(2) clean_listI [of "rest @ [e]" r k] show ?thesis by simp
qed

lemma clean_list_elems:
  "clean_list r (rev out) \<Longrightarrow> \<forall>e \<in> set es. CHR ''/'' \<notin> set e \<Longrightarrow> clean_list r (clean_elems r out es)"
proof (induction r out es rule: clean_elems.induct)
  case (2 r out e es)
  show ?case
  proof (cases "e = [] \<or> e = ''.''")
    case True
    with 2 show ?thesis by auto
  next
    case ne: False
    show ?thesis
    proof (cases "e = ''..''")
      case False
      with ne 2 have "plain_elem e" by (simp add: plain_elem_def)
      with ne False 2 clean_list_app [of r "rev out" e] show ?thesis by auto
    next
      case par: True
      show ?thesis
      proof (cases out)
        case Nil
        have "clean_list r (rev (if r then [] else [''..'']))"
          using clean_listI [of "[]" r "if r then 0 else 1"] by (cases r) simp_all
        with Nil ne par 2 show ?thesis by (auto split: if_splits)
      next
        case (Cons p ps)
        with ne par 2 clean_list_snoc_parent [of r "rev ps"] clean_list_snoc [of r "rev ps" p] show ?thesis
          by (cases "p = ''..''") auto
      qed
    qed
  qed
qed simp

lemma split_on_no_sep_set: "e \<in> set (split_on c xs) \<Longrightarrow> c \<notin> set e"
  by (induction xs arbitrary: e) (auto split: if_splits list.splits)

lemma norm_clean: "clean_list (rooted p) (norm p)"
  unfolding norm_def
  by (rule clean_list_elems) (use clean_listI [of "[]" "rooted p" 0] split_on_no_sep_set in auto)

lemma clean_elems_id:
  assumes "clean_list r es"
  shows "clean_elems r [] es = es"
proof -
  from assms obtain k rest where k: "es = replicate k ''..'' @ rest" "list_all plain_elem rest" "r \<longrightarrow> k = 0"
    by (auto simp: clean_list_def)
  have par: "clean_elems False (replicate j ''..'') (replicate i ''..'') = replicate (i + j) ''..''" for i j
  proof (induction i arbitrary: j)
    case (Suc i)
    have "clean_elems False (replicate j ''..'') (replicate (Suc i) ''..'') =
        clean_elems False (replicate (Suc j) ''..'') (replicate i ''..'')" by (cases j) simp_all
    with Suc [of "Suc j"] show ?case by simp
  qed simp
  have "clean_elems r [] (replicate k ''..'') = replicate k ''..''"
    using k(3) par [of 0 k] by (cases r) auto
  with clean_elems_append_plain [OF k(2), of r "[]"] k(1) show ?thesis by simp
qed


lemma split_on_join:
  assumes "es \<noteq> []" and "\<forall>e \<in> set es. c \<notin> set e"
  shows "split_on c (join_with [c] es) = es"
  using assms
proof (induction es rule: list_nonempty_induct)
  case (cons x xs)
  then have "split_on c (join_with [c] xs) = xs" "split_on c x = [x]" by (simp_all add: split_on_no_sep)
  with cons.hyps split_on_append [of c x "join_with [c] xs"] show ?case by (cases xs) simp_all
qed (simp add: split_on_no_sep)

lemma clean_list_no_sep:
  assumes "clean_list r es" and "e \<in> set es"
  shows "CHR ''/'' \<notin> set e \<and> e \<noteq> []"
proof -
  from assms obtain k rest where k: "e \<in> set (replicate k ''..'') \<or> e \<in> set rest" "list_all plain_elem rest"
    unfolding clean_list_def by (metis Un_iff set_append)
  then have "e = ''..'' \<or> plain_elem e" by (auto simp: list_all_iff in_set_replicate)
  then show ?thesis by (auto simp: plain_elem_def)
qed

lemma join_eq_Nil: "clean_list r es \<Longrightarrow> join_with ''/'' es = [] \<longleftrightarrow> es = []"
proof (cases es rule: remdups_adj.cases)
  case (2 x)
  moreover assume "clean_list r es"
  ultimately show ?thesis using clean_list_no_sep [of r es x] by simp
qed simp_all

lemma rooted_join: "clean_list r es \<Longrightarrow> \<not> rooted (join_with ''/'' es)"
proof (cases es rule: remdups_adj.cases)
  case (2 x)
  moreover assume "clean_list r es"
  ultimately show ?thesis using clean_list_no_sep [of r es x] by (cases x) (auto simp: rooted_def)
next
  case (3 x y xs)
  moreover assume "clean_list r es"
  ultimately show ?thesis using clean_list_no_sep [of r es x] by (cases x) (auto simp: rooted_def)
qed (simp add: rooted_def)

text \<open>Cleaning changes neither, so it is idempotent.\<close>

lemma rooted_Clean [simp]: "rooted (filepath_Clean p) = rooted p"
  using rooted_join [OF norm_clean] by (auto simp: filepath_Clean_norm) (simp_all add: rooted_def)

lemma norm_Clean [simp]: "norm (filepath_Clean p) = norm p"
proof -
  note c = norm_clean [of p]
  have split: "split_on (CHR ''/'') (join_with ''/'' (norm p)) = (if norm p = [] then [[]] else norm p)"
    using split_on_join [of "norm p" "CHR ''/''"] clean_list_no_sep [OF c] by auto
  have id: "clean_elems (rooted p) [] (norm p) = norm p" by (rule clean_elems_id [OF c])
  show ?thesis
  proof (cases "rooted p")
    case True
    have "norm (CHR ''/'' # join_with ''/'' (norm p)) =
        clean_elems True [] ([] # split_on (CHR ''/'') (join_with ''/'' (norm p)))"
      by (simp add: norm_def rooted_def)
    with True split id show ?thesis by (auto simp: filepath_Clean_norm)
  next
    case False
    have dot: "norm ''.'' = []" by (simp add: norm_def rooted_def)
    have "norm (join_with ''/'' (norm p)) = norm p"
      unfolding norm_def [of "join_with ''/'' (norm p)"] using rooted_join [OF c] split id False by auto
    with False dot join_eq_Nil [OF c] show ?thesis by (simp add: filepath_Clean_norm)
  qed
qed

lemma filepath_Clean_idem: "filepath_Clean (filepath_Clean p) = filepath_Clean p"
  by (simp add: filepath_Clean_norm [of "filepath_Clean p"]) (simp add: filepath_Clean_norm)

lemma norm_Join [simp]:
  assumes "p \<noteq> []" and "plain_elem e"
  shows "norm (filepath_Join [p, e]) = norm p @ [e]" "rooted (filepath_Join [p, e]) = rooted p"
proof -
  have join: "filepath_Join [p, e] = filepath_Clean (p @ CHR ''/'' # e)" using assms(1) by (simp add: filepath_Join_def)
  have r: "rooted (p @ CHR ''/'' # e) = rooted p" using assms(1) by (cases p) (simp_all add: rooted_def)
  have "e \<noteq> []" "CHR ''/'' \<notin> set e" using assms(2) by (auto simp: plain_elem_def)
  then have "norm (p @ CHR ''/'' # e) = norm p @ [e]"
    using clean_elems_append_plain [of "[e]"] assms(2) by (simp add: norm_def r split_on_append split_on_no_sep)
  with join r show "norm (filepath_Join [p, e]) = norm p @ [e]" "rooted (filepath_Join [p, e]) = rooted p" by simp_all
qed

subsection \<open>Relative paths\<close>

lemma path_elems_Clean: "path_elems (filepath_Clean p) = (if norm p = [] \<and> \<not> rooted p then [''.''] else norm p)"
proof -
  note c = norm_clean [of p]
  have ne: "filter (\<lambda>e. e \<noteq> []) (norm p) = norm p" using clean_list_no_sep [OF c] by (simp add: filter_id_conv)
  have "split_on (CHR ''/'') (join_with ''/'' (norm p)) = (if norm p = [] then [[]] else norm p)"
    using split_on_join [of "norm p" "CHR ''/''"] clean_list_no_sep [OF c] by auto
  with ne join_eq_Nil [OF c] show ?thesis by (simp add: path_elems_def filepath_Clean_norm)
qed

lemma drop_common_append: "drop_common bs (bs @ ts) = ([], ts)"
  by (induction bs) (cases ts; simp)+

text \<open>\<^verbatim>\<open>Rel\<close> undoes joining names to a directory.\<close>

lemma filepath_Rel_below:
  assumes "norm targ = norm base @ es" and "rooted targ = rooted base" and "es \<noteq> []"
  shows "filepath_Rel base targ = Inr (join_with ''/'' es)"
proof -
  let ?b = "filepath_Clean base" and ?t = "filepath_Clean targ"
  have ne: "?t \<noteq> ?b" using assms(1,3) by (metis norm_Clean append_self_conv)
  have be: "(if ?b = ''.'' then [] else path_elems ?b) = norm base"
  proof (cases "?b = ''.''")
    case True
    then have "norm base = norm ''.''" by (metis norm_Clean)
    with True show ?thesis by (simp add: norm_def rooted_def)
  next
    case False
    then have "norm base \<noteq> [] \<or> rooted base" using filepath_Clean_norm [of base] by fastforce
    with False show ?thesis by (simp add: path_elems_Clean)
  qed
  have te: "path_elems ?t = norm base @ es" using assms by (simp add: path_elems_Clean)
  have "rooted ?b = rooted ?t" using assms(2) by simp
  with ne show ?thesis
    unfolding filepath_Rel_def Let_def be te drop_common_append by (simp add: rooted_def)
qed

end
