(* ===== verification/Process.thy ===== *)
theory Process
  imports World Paths
begin

text \<open>
  \<^verbatim>\<open>internal/process\<close>: log files, the start of a command, the SIGTERM-then-SIGKILL stop with its
  time budget, the generic \<^verbatim>\<open>StopCloseAndNil\<close>, and the readiness loop \<^verbatim>\<open>WaitReady\<close>.
\<close>

subsection \<open>Sentinels and constants\<close>

definition ErrAlreadyStarted :: go_error where
  "ErrAlreadyStarted = Sentinel ''process already started''"
definition ErrNilCmd :: go_error where "ErrNilCmd = Sentinel ''cmd must not be nil''"
definition ErrEmptyCmdPath :: go_error where
  "ErrEmptyCmdPath = Sentinel ''cmd.Path must not be empty''"
definition ErrEmptyDataDir :: go_error where
  "ErrEmptyDataDir = Sentinel ''data directory must not be empty''"
definition ErrNameEmpty :: go_error where "ErrNameEmpty = Sentinel ''name must not be empty''"
definition ErrIntervalNotPositive :: go_error where
  "ErrIntervalNotPositive = Sentinel ''interval must be positive''"
definition ErrTimeoutNotPositive :: go_error where
  "ErrTimeoutNotPositive = Sentinel ''timeout must be positive''"
definition ErrProcessExited :: go_error where
  "ErrProcessExited = Sentinel ''process exited before becoming ready''"

definition DefaultStopTimeout :: duration where "DefaultStopTimeout = 10 * Second"
definition termGracePeriod :: duration where "termGracePeriod = 5 * Second"
definition killDrainBudget :: duration where "killDrainBudget = 2 * Second"

subsection \<open>Log files\<close>

record log_files =
  stdoutFile :: "fd option"
  stderrFile :: "fd option"

definition close_opt :: "'w os \<Rightarrow> fd option \<Rightarrow> 'w \<Rightarrow> 'w" where
  "close_opt sys f w = (case f of None \<Rightarrow> w | Some d \<Rightarrow> snd (os_close_file sys d w))"

definition logFiles_Close :: "'w os \<Rightarrow> log_files \<Rightarrow> 'w \<Rightarrow> log_files \<times> 'w" where
  "logFiles_Close sys l w =
     (let w1 = close_opt sys (stdoutFile l) w;
          w2 = close_opt sys (stderrFile l) w1
      in (l\<lparr>stdoutFile := None, stderrFile := None\<rparr>, w2))"

definition newLogFiles ::
  "'w os \<Rightarrow> string \<Rightarrow> string \<Rightarrow> 'w \<Rightarrow> (go_error + log_files) \<times> 'w" where
  "newLogFiles sys dataDir processName w =
     (case os_create_file sys (filepath_Join [dataDir, processName @ ''-stdout.log'']) w of
        (Inl e, w1) \<Rightarrow> (Inl (Wrapf ''create stdout log: %w'' [] e), w1)
      | (Inr f1, w1) \<Rightarrow>
          (case os_create_file sys (filepath_Join [dataDir, processName @ ''-stderr.log'']) w1 of
             (Inl e, w2) \<Rightarrow>
               (Inl (Wrapf ''create stderr log: %w'' [] e), snd (os_close_file sys f1 w2))
           | (Inr f2, w2) \<Rightarrow> (Inr \<lparr>stdoutFile = Some f1, stderrFile = Some f2\<rparr>, w2)))"

subsection \<open>Stop timeouts\<close>

definition ResolveStopTimeout :: "duration \<Rightarrow> duration" where
  "ResolveStopTimeout timeout = (if timeout > 0 then timeout else DefaultStopTimeout)"

definition drainReserve :: "duration \<Rightarrow> duration" where
  "drainReserve timeout =
     (let reserve = min killDrainBudget (go_quot timeout 2)
      in if reserve \<le> 0 then 1 * Millisecond else reserve)"

definition drainDone ::
  "'w os \<Rightarrow> pid \<Rightarrow> duration \<Rightarrow> 'w \<Rightarrow> wait_error option option \<times> 'w" where
  "drainDone sys done timeout w =
     (case os_recv_done sys done 0 w of
        (Some err, w1) \<Rightarrow> (Some err, w1)
      | (None, w1) \<Rightarrow> os_recv_done sys done timeout w1)"

definition expectSignalExit :: "wait_error option \<Rightarrow> string \<Rightarrow> go_error option" where
  "expectSignalExit err name =
     (case err of
        None \<Rightarrow> None
      | Some (ExitError (WaitStatus sig) e) \<Rightarrow>
          (if sig = SIGTERM \<or> sig = SIGKILL then None
           else Some (Wrapf ''%s: %w'' [ArgStr name] e))
      | Some (ExitError OtherStatus e) \<Rightarrow> Some (Wrapf ''%s: %w'' [ArgStr name] e)
      | Some (OtherWaitError e) \<Rightarrow> Some (Wrapf ''%s: %w'' [ArgStr name] e))"

subsection \<open>The base process\<close>

text \<open>\<open>waitDone\<close> and \<open>exited\<close> name the channels of the process they belong to.\<close>

record base_process =
  bp_cmd :: "cmd option"
  bp_waitDone :: "pid option"
  bp_exited :: "pid option"
  bp_logFiles :: "log_files option"
  bp_name :: string
  bp_stopTimeout :: duration

definition base_process_of :: "string \<Rightarrow> duration \<Rightarrow> base_process" where
  "base_process_of name stopTimeout =
     \<lparr>bp_cmd = None, bp_waitDone = None, bp_exited = None, bp_logFiles = None, bp_name = name,
      bp_stopTimeout = (if stopTimeout \<le> 0 then DefaultStopTimeout else stopTimeout)\<rparr>"

text \<open>The callers pass a non-empty literal, for which the constructor returns; they use the
  record it returns.\<close>

definition NewBaseProcess :: "string \<Rightarrow> duration \<Rightarrow> base_process outcome" where
  "NewBaseProcess name stopTimeout =
     (if name = '''' then Panic ''k8senv: process name must not be empty''
      else Ret (base_process_of name stopTimeout))"

definition bp_IsStarted :: "base_process \<Rightarrow> bool" where
  "bp_IsStarted b = (bp_cmd b \<noteq> None)"

definition stopWithDone ::
  "'w os \<Rightarrow> base_process \<Rightarrow> pid \<Rightarrow> duration \<Rightarrow> 'w \<Rightarrow> go_error option \<times> 'w" where
  "stopWithDone sys b pid timeout w =
     (case bp_waitDone b of
        None \<Rightarrow> (Some (Errorf ''%s: done channel must not be nil'' [ArgStr (bp_name b)]), w)
      | Some done \<Rightarrow>
          (let reserve = drainReserve timeout;
               mainBudget = timeout - reserve
           in case os_signal sys pid SIGTERM w of
                (Some e, w1) \<Rightarrow>
                  (case drainDone sys done timeout w1 of
                     (None, w2) \<Rightarrow>
                       (Some (Errorf ''%s: timed out draining process after signal failure''
                          [ArgStr (bp_name b)]), w2)
                   | (Some waitErr, w2) \<Rightarrow> (expectSignalExit waitErr (bp_name b), w2))
              | (None, w1) \<Rightarrow>
                  (let grace = min termGracePeriod mainBudget;
                       w2 = os_kill_after sys pid grace w1
                   in case os_recv_done sys done mainBudget w2 of
                        (Some err, w3) \<Rightarrow>
                          (expectSignalExit err (bp_name b), os_cancel_kill sys pid w3)
                      | (None, w3) \<Rightarrow>
                          (case drainDone sys done reserve w3 of
                             (None, w4) \<Rightarrow>
                               (Some (Errorf ''%s: timed out waiting for process to exit after SIGKILL''
                                  [ArgStr (bp_name b)]), os_cancel_kill sys pid w4)
                           | (Some waitErr, w4) \<Rightarrow>
                               (map_option (Wrapf ''%s stop timeout: %w'' [ArgStr (bp_name b)])
                                  (expectSignalExit waitErr (bp_name b)),
                                os_cancel_kill sys pid w4)))))"

definition bp_Stop ::
  "'w os \<Rightarrow> base_process \<Rightarrow> duration \<Rightarrow> 'w \<Rightarrow> go_error option \<times> base_process \<times> 'w" where
  "bp_Stop sys b timeout w =
     (let cleared = b\<lparr>bp_cmd := None, bp_waitDone := None, bp_exited := None\<rparr>
      in case Option.bind (bp_cmd b) cmd_process of
           None \<Rightarrow> (None, cleared, w)
         | Some pid \<Rightarrow>
             (case stopWithDone sys b pid timeout w of (err, w1) \<Rightarrow> (err, cleared, w1)))"

definition bp_Close :: "'w os \<Rightarrow> base_process \<Rightarrow> 'w \<Rightarrow> base_process \<times> 'w" where
  "bp_Close sys b w =
     (let (b1, w1) = (if bp_cmd b \<noteq> None then snd (bp_Stop sys b (bp_stopTimeout b) w) else (b, w))
      in case bp_logFiles b1 of
           None \<Rightarrow> (b1, w1)
         | Some l \<Rightarrow> (b1\<lparr>bp_logFiles := None\<rparr>, snd (logFiles_Close sys l w1)))"

subsection \<open>Starting a command\<close>

text \<open>\<^verbatim>\<open>exec.CommandContext(ctx, name, args...)\<close>: the path is the name, resolved at start.\<close>

definition new_cmd :: "ctx \<Rightarrow> string \<Rightarrow> string list \<Rightarrow> cmd" where
  "new_cmd c name args = \<lparr>cmd_ctx = c, cmd_path = name, cmd_args = name # args, cmd_dir = [],
     cmd_pdeathsig = None, cmd_stdout = None, cmd_stderr = None, cmd_process = None\<rparr>"

definition configureSysProcAttr :: "cmd \<Rightarrow> cmd" where
  "configureSysProcAttr c = c\<lparr>cmd_pdeathsig := Some SIGTERM\<rparr>"

definition startCmd ::
  "'w os \<Rightarrow> cmd \<Rightarrow> string \<Rightarrow> string \<Rightarrow> 'w \<Rightarrow> (go_error + cmd \<times> log_files) \<times> 'w" where
  "startCmd sys c dataDir processName w =
     (case newLogFiles sys dataDir processName w of
        (Inl e, w1) \<Rightarrow> (Inl (Wrapf ''create %s logs: %w'' [ArgStr processName] e), w1)
      | (Inr l, w1) \<Rightarrow>
          (let c1 = c\<lparr>cmd_stdout := stdoutFile l, cmd_stderr := stderrFile l\<rparr>
           in case os_cmd_start sys c1 w1 of
                (Inl e, w2) \<Rightarrow>
                  (Inl (Wrapf ''start %s process: %w'' [ArgStr processName] e),
                   snd (logFiles_Close sys l w2))
              | (Inr pid, w2) \<Rightarrow> (Inr (c1\<lparr>cmd_process := Some pid\<rparr>, l), w2)))"

definition SetupAndStart ::
  "'w os \<Rightarrow> base_process \<Rightarrow> cmd option \<Rightarrow> string \<Rightarrow> 'w \<Rightarrow> go_error option \<times> base_process \<times> 'w" where
  "SetupAndStart sys b cmdp dataDir w =
     (case cmdp of
        None \<Rightarrow> (Some ErrNilCmd, b, w)
      | Some c \<Rightarrow>
          if cmd_path c = '''' then (Some ErrEmptyCmdPath, b, w)
          else if dataDir = '''' then (Some ErrEmptyDataDir, b, w)
          else if bp_cmd b \<noteq> None then (Some ErrAlreadyStarted, b, w)
          else (case startCmd sys (configureSysProcAttr (c\<lparr>cmd_dir := dataDir\<rparr>)) dataDir
                       (bp_name b) w of
                  (Inl e, w1) \<Rightarrow> (Some (Wrapf ''start command: %w'' [] e), b, w1)
                | (Inr (c1, l), w1) \<Rightarrow>
                    (None, b\<lparr>bp_cmd := Some c1, bp_logFiles := Some l,
                       bp_waitDone := cmd_process c1, bp_exited := cmd_process c1\<rparr>, w1)))"

subsection \<open>StopCloseAndNil over the interface Stoppable\<close>

text \<open>The two methods of \<^verbatim>\<open>Stoppable\<close> are the first two arguments; the pointer is an option.\<close>

definition StopCloseAndNil ::
  "('p \<Rightarrow> duration \<Rightarrow> 'w \<Rightarrow> go_error option \<times> 'p \<times> 'w) \<Rightarrow> ('p \<Rightarrow> 'w \<Rightarrow> 'p \<times> 'w) \<Rightarrow>
   'p option \<Rightarrow> duration \<Rightarrow> 'w \<Rightarrow> go_error option \<times> 'p option \<times> 'w" where
  "StopCloseAndNil stop close p timeout w =
     (case p of
        None \<Rightarrow> (None, None, w)
      | Some q \<Rightarrow>
          (case stop q timeout w of (err, q1, w1) \<Rightarrow>
             (case close q1 w1 of (q2, w2) \<Rightarrow> (err, None, w2))))"

subsection \<open>WaitReady\<close>

record wait_ready_config =
  wr_Interval :: duration
  wr_Timeout :: duration
  wr_Name :: string
  wr_Port :: int
  wr_ProcessExited :: "pid option"

definition wait_condition ::
  "'w os \<Rightarrow> wait_ready_config \<Rightarrow> (nat \<Rightarrow> 'w \<Rightarrow> (go_error + bool) \<times> 'w) \<Rightarrow>
   nat \<Rightarrow> 'w \<Rightarrow> (go_error + bool) \<times> nat \<times> 'w" where
  "wait_condition sys cfg check attempt w =
     (if (case wr_ProcessExited cfg of None \<Rightarrow> False | Some pid \<Rightarrow> os_exited sys pid w)
      then (Inl (Wrapf ''process %s: %w'' [ArgStr (wr_Name cfg)] ErrProcessExited), attempt, w)
      else (case check (Suc attempt) w of
              (Inl e, w1) \<Rightarrow> (Inl e, Suc attempt, w1)
            | (Inr ready, w1) \<Rightarrow> (Inr ready, Suc attempt, w1)))"

definition WaitReady ::
  "'w os \<Rightarrow> ctx \<Rightarrow> wait_ready_config \<Rightarrow> (nat \<Rightarrow> 'w \<Rightarrow> (go_error + bool) \<times> 'w) option \<Rightarrow> 'w \<Rightarrow>
   go_error option \<times> 'w" where
  "WaitReady sys c cfg check w =
     (if wr_Name cfg = '''' then (Some (Wrapf ''wait ready: %w'' [] ErrNameEmpty), w)
      else (case check of
        None \<Rightarrow>
          (Some (Errorf ''wait for %s: check function must not be nil'' [ArgStr (wr_Name cfg)]), w)
      | Some chk \<Rightarrow>
          if wr_Interval cfg \<le> 0
          then (Some (Wrapf ''wait for %s: %w'' [ArgStr (wr_Name cfg)] ErrIntervalNotPositive), w)
          else if wr_Timeout cfg \<le> 0
          then (Some (Wrapf ''wait for %s: %w'' [ArgStr (wr_Name cfg)] ErrTimeoutNotPositive), w)
          else (case os_poll sys c (wr_Interval cfg) (wr_Timeout cfg) True
                       (wait_condition sys cfg chk) 0 w of
                  (None, n, w1) \<Rightarrow> (None, w1)
                | (Some e, n, w1) \<Rightarrow>
                    (Some (Wrapf ''wait for %s readiness on port %d: %w''
                       [ArgStr (wr_Name cfg), ArgInt (wr_Port cfg)] e), w1))))"

subsection \<open>The time budget of a stop\<close>

text \<open>
  \<open>clk\<close> reads the clock of the world. Only the receives from the done channel block, each for at
  most the time it was given; signals and timers return at once.
\<close>

definition blocking_law :: "('w \<Rightarrow> int) \<Rightarrow> 'w os \<Rightarrow> bool" where
  "blocking_law clk sys \<longleftrightarrow>
     (\<forall>p d w. clk (snd (os_recv_done sys p d w)) \<le> clk w + max 0 d) \<and>
     (\<forall>p s w. clk (snd (os_signal sys p s w)) = clk w) \<and>
     (\<forall>p d w. clk (os_kill_after sys p d w) = clk w) \<and>
     (\<forall>p w. clk (os_cancel_kill sys p w) = clk w)"

lemma blocking_lawD:
  assumes "blocking_law clk sys"
  shows "os_recv_done sys p d w = (x, w') \<Longrightarrow> clk w' \<le> clk w + max 0 d"
    and "os_signal sys p s w = (e, w') \<Longrightarrow> clk w' = clk w"
    and "clk (os_kill_after sys p d w) = clk w"
    and "clk (os_cancel_kill sys p w) = clk w"
  using assms unfolding blocking_law_def by (metis snd_conv)+

lemma drainDone_bounded:
  assumes "blocking_law clk sys" and "drainDone sys p d w = (x, w')"
  shows "clk w' \<le> clk w + max 0 d"
proof -
  obtain y v where r: "os_recv_done sys p 0 w = (y, v)" by (cases "os_recv_done sys p 0 w")
  have v: "clk v \<le> clk w" using blocking_lawD(1) [OF assms(1) r] by simp
  show ?thesis
  proof (cases y)
    case None
    with r assms(2) have "os_recv_done sys p d v = (x, w')" by (simp add: drainDone_def)
    from blocking_lawD(1) [OF assms(1) this] v show ?thesis by linarith
  next
    case (Some e)
    with r assms(2) v show ?thesis by (simp add: drainDone_def)
  qed
qed

lemma drainReserve_pos: "0 < drainReserve t"
  by (auto simp: drainReserve_def Let_def killDrainBudget_def)

lemma drainReserve_small: "t < 2 \<Longrightarrow> drainReserve t = Millisecond"
  by (cases "t = 1") (auto simp: drainReserve_def go_quot_def killDrainBudget_def)

lemma drainReserve_half:
  assumes "2 \<le> t"
  shows "2 * drainReserve t \<le> t" and "drainReserve t \<le> killDrainBudget"
  using assms by (auto simp: drainReserve_def go_quot_def killDrainBudget_def Let_def)

text \<open>The main wait of a stop whose SIGTERM was delivered, followed by the drain.\<close>

lemma main_wait_bounded:
  assumes law: "blocking_law clk sys" and r: "os_recv_done sys p m v = (None, v1)"
    and d: "drainDone sys p d v1 = (x, v2)"
  shows "clk v2 \<le> clk v + max 0 m + max 0 d"
  using blocking_lawD(1) [OF law r] drainDone_bounded [OF law d] by linarith

lemma stopWithDone_elapsed:
  assumes law: "blocking_law clk sys" and run: "stopWithDone sys b pid t w = (err, w')"
  shows "clk w' \<le> clk w + max (max 0 t) (max 0 (t - drainReserve t) + drainReserve t)"
proof (cases "bp_waitDone b")
  case None
  with run show ?thesis by (auto simp: stopWithDone_def)
next
  case (Some dn)
  obtain sg w1 where s: "os_signal sys pid SIGTERM w = (sg, w1)"
    by (cases "os_signal sys pid SIGTERM w")
  note w1 = blocking_lawD(2) [OF law s]
  show ?thesis
  proof (cases sg)
    case (Some e)
    obtain x w2 where d: "drainDone sys dn t w1 = (x, w2)" by (cases "drainDone sys dn t w1")
    with run \<open>bp_waitDone b = Some dn\<close> s Some have "w' = w2"
      by (auto simp: stopWithDone_def Let_def split: option.splits)
    with drainDone_bounded [OF law d] w1 show ?thesis by simp
  next
    case None
    let ?m = "t - drainReserve t" and ?v = "os_kill_after sys pid (min termGracePeriod (t - drainReserve t)) w1"
    have v: "clk ?v = clk w" using w1 blocking_lawD(3) [OF law] by simp
    obtain x v1 where r: "os_recv_done sys dn ?m ?v = (x, v1)"
      by (cases "os_recv_done sys dn ?m ?v")
    show ?thesis
    proof (cases x)
      case (Some y)
      with run \<open>bp_waitDone b = Some dn\<close> s None r have "w' = os_cancel_kill sys pid v1"
        by (auto simp: stopWithDone_def Let_def)
      with blocking_lawD(1) [OF law r] blocking_lawD(4) [OF law] v drainReserve_pos [of t]
      show ?thesis by simp
    next
      case None
      with r have r: "os_recv_done sys dn ?m ?v = (None, v1)" by simp
      obtain z v2 where d: "drainDone sys dn (drainReserve t) v1 = (z, v2)"
        by (cases "drainDone sys dn (drainReserve t) v1")
      with run \<open>bp_waitDone b = Some dn\<close> s \<open>sg = None\<close> r have "w' = os_cancel_kill sys pid v2"
        by (auto simp: stopWithDone_def Let_def split: option.splits)
      with main_wait_bounded [OF law r d] blocking_lawD(4) [OF law] v drainReserve_pos [of t]
      show ?thesis by simp
    qed
  qed
qed

subsection \<open>The interface Stoppable\<close>

text \<open>
  What \<^verbatim>\<open>StopCloseAndNil\<close> needs of a \<^verbatim>\<open>Stoppable\<close>: after \<^verbatim>\<open>Stop\<close> the process counts as stopped
  whatever the result, and \<^verbatim>\<open>Close\<close> of a stopped process only shuts the handles it still has.
\<close>

locale stoppable =
  fixes stop :: "'p \<Rightarrow> duration \<Rightarrow> 'w \<Rightarrow> go_error option \<times> 'p \<times> 'w"
    and close :: "'p \<Rightarrow> 'w \<Rightarrow> 'p \<times> 'w"
    and live :: "'p \<Rightarrow> bool"
    and handles :: "'p \<Rightarrow> 'h option"
    and shut :: "'h option \<Rightarrow> 'w \<Rightarrow> 'w"
  assumes stop_not_live: "stop p t w = (err, p', w') \<Longrightarrow> \<not> live p'"
    and stop_handles: "stop p t w = (err, p', w') \<Longrightarrow> handles p' = handles p"
    and stop_idle: "\<not> live p \<Longrightarrow> stop p t w = (err, p', w') \<Longrightarrow> err = None \<and> w' = w"
    and close_idle: "\<not> live p \<Longrightarrow> close p w = (p', w') \<Longrightarrow>
      \<not> live p' \<and> handles p' = None \<and> w' = shut (handles p) w"
begin

lemma stop_close_nil:
  assumes "stop p t w = (err, p1, w1)"
  shows "StopCloseAndNil stop close (Some p) t w = (err, None, shut (handles p) w1)"
proof -
  obtain p2 w2 where c: "close p1 w1 = (p2, w2)" by (cases "close p1 w1")
  from close_idle [OF stop_not_live [OF assms] c] stop_handles [OF assms] assms c show ?thesis
    by (simp add: StopCloseAndNil_def)
qed

lemma stop_close_nil_clears: "fst (snd (StopCloseAndNil stop close p t w)) = None"
  by (auto simp: StopCloseAndNil_def split: option.splits prod.splits)

lemma stop_close_nil_idle:
  assumes "\<not> live p"
  shows "StopCloseAndNil stop close (Some p) t w = (None, None, shut (handles p) w)"
proof -
  obtain err p1 w1 where s: "stop p t w = (err, p1, w1)" by (metis prod_cases3)
  with stop_idle [OF assms s] stop_close_nil [OF s] show ?thesis by simp
qed

end

definition shut_logs :: "'w os \<Rightarrow> log_files option \<Rightarrow> 'w \<Rightarrow> 'w" where
  "shut_logs sys l w = (case l of None \<Rightarrow> w | Some f \<Rightarrow> snd (logFiles_Close sys f w))"

lemma bp_Stop_fields:
  assumes "bp_Stop sys b t w = (err, b', w')"
  shows "\<not> bp_IsStarted b' \<and> bp_waitDone b' = None \<and> bp_exited b' = None \<and>
    bp_logFiles b' = bp_logFiles b \<and> bp_name b' = bp_name b \<and> bp_stopTimeout b' = bp_stopTimeout b"
  using assms
  by (auto simp: bp_Stop_def bp_IsStarted_def Let_def split: option.splits prod.splits)

lemma bp_Stop_idle: "\<not> bp_IsStarted b \<Longrightarrow> bp_Stop sys b t w = (err, b', w') \<Longrightarrow> err = None \<and> w' = w"
  by (auto simp: bp_Stop_def bp_IsStarted_def)

lemma bp_Close_idle:
  "\<not> bp_IsStarted b \<Longrightarrow> bp_Close sys b w = (b', w') \<Longrightarrow>
     \<not> bp_IsStarted b' \<and> bp_logFiles b' = None \<and> w' = shut_logs sys (bp_logFiles b) w"
  by (auto simp: bp_Close_def bp_IsStarted_def shut_logs_def split: option.splits)

interpretation base_stop: stoppable "bp_Stop sys" "bp_Close sys" bp_IsStarted bp_logFiles
    "shut_logs sys" for sys
  by unfold_locales (blast dest: bp_Stop_fields bp_Stop_idle bp_Close_idle)+

subsection \<open>The polling library\<close>

text \<open>
  The documented behaviour of \<^verbatim>\<open>wait.PollUntilContextTimeout\<close> with \<open>immediate = true\<close>: it
  evaluates the condition at once and then after each interval, anything may happen in the world
  in between, and it returns when the condition reports done, when it reports an error, or with
  an error of its own after a call that reported "not yet".
\<close>

inductive poll_run ::
  "(nat \<Rightarrow> 'w \<Rightarrow> (go_error + bool) \<times> nat \<times> 'w) \<Rightarrow> nat \<Rightarrow> 'w \<Rightarrow> go_error option \<Rightarrow> nat \<Rightarrow> 'w \<Rightarrow> bool"
  for cond where
  poll_done: "cond n w = (Inr True, n', w') \<Longrightarrow> poll_run cond n w None n' w'"
| poll_fail: "cond n w = (Inl e, n', w') \<Longrightarrow> poll_run cond n w (Some e) n' w'"
| poll_timeout: "cond n w = (Inr False, n', w1) \<Longrightarrow> poll_run cond n w (Some e) n' w'"
| poll_again: "cond n w = (Inr False, n1, w1) \<Longrightarrow> poll_run cond n1 w2 r n' w' \<Longrightarrow>
    poll_run cond n w r n' w'"

definition poll_law :: "'w os \<Rightarrow> bool" where
  "poll_law sys \<longleftrightarrow>
     (\<forall>c i t cond n w r n' w'. os_poll sys c i t True cond n w = (r, n', w') \<longrightarrow>
        poll_run cond n w r n' w')"

lemma poll_run_success:
  "poll_run cond n w r n' w' \<Longrightarrow> r = None \<Longrightarrow> \<exists>k w1. cond k w1 = (Inr True, n', w')"
  by (induction rule: poll_run.induct) auto

lemma poll_run_first_error:
  "poll_run cond n w r n' w' \<Longrightarrow> cond n w = (Inl e, k, v) \<Longrightarrow> r = Some e \<and> n' = k \<and> w' = v"
  by (erule poll_run.cases) auto

lemma quiet_poll_law: "poll_law quiet_os"
  unfolding poll_law_def quiet_os_def
  by (auto split: prod.splits sum.splits bool.splits intro: poll_run.intros)

subsection \<open>Properties\<close>

text \<open>\<^verbatim>\<open>drainReserve\<close> partitions the budget: for every timeout of at least two nanoseconds the
  reserve is positive, at most half of the timeout and at most two seconds. Below that the floor of
  one millisecond applies, which exceeds the timeout.\<close>

theorem drainReserve_partition:
  "(2 \<le> t \<longrightarrow> 0 < drainReserve t \<and> 2 * drainReserve t \<le> t \<and> drainReserve t \<le> killDrainBudget) \<and>
   (t < 2 \<longrightarrow> drainReserve t = 1000000 \<and> t < drainReserve t)"
  using drainReserve_pos [of t] drainReserve_half [of t] drainReserve_small [of t] by auto


text \<open>After \<^verbatim>\<open>StopCloseAndNil\<close> on a base process the pointer is nil and the log handles were
  closed after exactly one stop, whether or not that stop failed; its error is returned.\<close>

theorem StopCloseAndNil_releases:
  assumes "bp_Stop sys b t w = (err, b1, w1)"
  shows "StopCloseAndNil (bp_Stop sys) (bp_Close sys) (Some b) t w =
           (err, None, shut_logs sys (bp_logFiles b) w1)"
  using assms by (rule base_stop.stop_close_nil)

text \<open>C33. \<^verbatim>\<open>WaitReady\<close> succeeds only if its last call of the check said "ready" and the process
  had not exited when that call was made; a process that has exited when the wait begins is
  reported as \<^verbatim>\<open>ErrProcessExited\<close> without calling the check.\<close>

theorem WaitReady_sound:
  assumes "poll_law sys" and "WaitReady sys c cfg (Some chk) w = (res, w')"
  shows "(res = None \<longrightarrow> (\<exists>k v. 1 \<le> k \<and> chk k v = (Inr True, w') \<and>
            (\<forall>pid. wr_ProcessExited cfg = Some pid \<longrightarrow> \<not> os_exited sys pid v))) \<and>
         (\<forall>pid. wr_ProcessExited cfg = Some pid \<and> os_exited sys pid w \<and> wr_Name cfg \<noteq> '''' \<and>
            0 < wr_Interval cfg \<and> 0 < wr_Timeout cfg \<longrightarrow>
            (\<exists>e. res = Some e \<and> errors_Is e ErrProcessExited) \<and> w' = w)"
proof -
  let ?cond = "wait_condition sys cfg chk"
  have run: "poll_run ?cond 0 w r n' v"
    if "os_poll sys c (wr_Interval cfg) (wr_Timeout cfg) True ?cond 0 w = (r, n', v)" for r n' v
    using that assms(1) unfolding poll_law_def by blast
  have ready: "\<exists>k v. 1 \<le> k \<and> chk k v = (Inr True, w') \<and>
      (\<forall>pid. wr_ProcessExited cfg = Some pid \<longrightarrow> \<not> os_exited sys pid v)" if "res = None"
  proof -
    from that assms(2) obtain n' where
      "os_poll sys c (wr_Interval cfg) (wr_Timeout cfg) True ?cond 0 w = (None, n', w')"
      by (auto simp: WaitReady_def split: if_splits prod.splits option.splits)
    from poll_run_success [OF run [OF this]] obtain k v where "?cond k v = (Inr True, n', w')"
      by blast
    then have "chk (Suc k) v = (Inr True, w') \<and>
        (\<forall>pid. wr_ProcessExited cfg = Some pid \<longrightarrow> \<not> os_exited sys pid v)"
      by (auto simp: wait_condition_def split: if_splits prod.splits sum.splits)
    then show ?thesis by (intro exI [of _ "Suc k"] exI [of _ v]) simp
  qed
  have dead: "(\<exists>e. res = Some e \<and> errors_Is e ErrProcessExited) \<and> w' = w"
    if ex: "wr_ProcessExited cfg = Some pid" "os_exited sys pid w"
      and ok: "wr_Name cfg \<noteq> ''''" "0 < wr_Interval cfg" "0 < wr_Timeout cfg" for pid
  proof -
    obtain r n' v where p:
      "os_poll sys c (wr_Interval cfg) (wr_Timeout cfg) True ?cond 0 w = (r, n', v)"
      by (metis prod_cases3)
    have "?cond 0 w = (Inl (Wrapf ''process %s: %w'' [ArgStr (wr_Name cfg)] ErrProcessExited), 0, w)"
      using ex by (simp add: wait_condition_def)
    from poll_run_first_error [OF run [OF p] this] p ok assms(2) show ?thesis
      by (auto simp: WaitReady_def ErrProcessExited_def)
  qed
  from ready dead show ?thesis by blast
qed

text \<open>A \<^verbatim>\<open>SetupAndStart\<close> that returns an error leaves the base process as it was, so it can be
  called again; one that succeeds records the command with its process, both channels and the log
  files.\<close>

theorem SetupAndStart_all_or_nothing:
  assumes "SetupAndStart sys b cp dir w = (res, b', w')"
  shows "(res \<noteq> None \<longrightarrow> b' = b) \<and>
         (res = None \<longrightarrow> \<not> bp_IsStarted b \<and> bp_IsStarted b' \<and> bp_logFiles b' \<noteq> None \<and>
            (\<exists>c pid. bp_cmd b' = Some c \<and> cmd_process c = Some pid \<and> cmd_dir c = dir \<and>
               cmd_pdeathsig c = Some SIGTERM \<and> bp_waitDone b' = Some pid \<and> bp_exited b' = Some pid))"
  using assms
  by (auto simp: SetupAndStart_def startCmd_def configureSysProcAttr_def bp_IsStarted_def Let_def
      split: option.splits if_splits prod.splits sum.splits)

subsection \<open>Witnesses\<close>

text \<open>A world whose state is the clock and in which no process ever exits, and a process in it.\<close>

definition stuck_os :: "int os" where
  "stuck_os = quiet_os\<lparr>os_recv_done := (\<lambda>p d w. (None, w + max 0 d))\<rparr>"

definition sample_cmd :: cmd where
  "sample_cmd = \<lparr>cmd_ctx = 0, cmd_path = ''kine'', cmd_args = [], cmd_dir = [], cmd_pdeathsig = None,
     cmd_stdout = None, cmd_stderr = None, cmd_process = None\<rparr>"

definition sample_base :: base_process where
  "sample_base = \<lparr>bp_cmd = None, bp_waitDone = None, bp_exited = None, bp_logFiles = None,
     bp_name = ''kine'', bp_stopTimeout = DefaultStopTimeout\<rparr>"

definition running_base :: base_process where
  "running_base = sample_base\<lparr>bp_cmd := Some (sample_cmd\<lparr>cmd_process := Some 1\<rparr>),
     bp_waitDone := Some 1, bp_exited := Some 1,
     bp_logFiles := Some \<lparr>stdoutFile = Some 3, stderrFile = Some 4\<rparr>\<rparr>"

lemmas sample_defs = sample_cmd_def sample_base_def running_base_def stuck_os_def quiet_os_def

theorem drainReserve_partition_witness:
  "2 * drainReserve 10000000000 \<le> 10000000000 \<and> drainReserve 1 = 1000000"
  using drainReserve_partition [of 10000000000] drainReserve_partition [of 1] by simp


theorem StopCloseAndNil_releases_witness:
  "StopCloseAndNil (bp_Stop quiet_os) (bp_Close quiet_os) (Some running_base) 5 () = (None, None, ())"
proof -
  have run: "bp_Stop quiet_os running_base 5 () = (None, running_base\<lparr>bp_cmd := None,
      bp_waitDone := None, bp_exited := None\<rparr>, ())"
    by (simp add: bp_Stop_def stopWithDone_def drainDone_def expectSignalExit_def sample_defs)
  show ?thesis using StopCloseAndNil_releases [OF run] by simp
qed

definition sample_wait :: wait_ready_config where
  "sample_wait = \<lparr>wr_Interval = 10, wr_Timeout = 100, wr_Name = ''kine'', wr_Port = 40000,
     wr_ProcessExited = Some 1\<rparr>"

theorem WaitReady_sound_witness:
  "WaitReady quiet_os 0 sample_wait (Some (\<lambda>n w. (Inr (n = 1), Suc w))) 7 = (None, 8) \<and>
   (\<exists>(k::nat) v. 1 \<le> k \<and> (Inr (k = 1), Suc v) = (Inr True :: go_error + bool, 8) \<and>
     \<not> os_exited quiet_os 1 v)"
proof -
  have run: "WaitReady quiet_os 0 sample_wait (Some (\<lambda>n w. (Inr (n = 1), Suc w))) 7 = (None, 8)"
    by (simp add: WaitReady_def wait_condition_def sample_wait_def quiet_os_def)
  show ?thesis
    using run WaitReady_sound [OF quiet_poll_law run] by (auto simp: sample_wait_def)
qed

theorem SetupAndStart_all_or_nothing_witness:
  "\<exists>b'. SetupAndStart quiet_os sample_base (Some sample_cmd) ''/d'' () = (None, b', ()) \<and>
     bp_IsStarted b' \<and> bp_waitDone b' = bp_exited b'"
proof -
  obtain b' where run: "SetupAndStart quiet_os sample_base (Some sample_cmd) ''/d'' () = (None, b', ())"
    by (simp add: SetupAndStart_def startCmd_def newLogFiles_def Let_def sample_defs)
  with SetupAndStart_all_or_nothing [OF run] show ?thesis by auto
qed

end
