(* ===== verification/Fileutil.thy ===== *)
theory Fileutil
  imports World Paths
begin

text \<open>
  \<^verbatim>\<open>internal/fileutil\<close>: directory creation and the file copy with its atomic mode. Deferred
  functions run last-in first-out, so on an error the temporary file is removed before the source
  is closed.
\<close>

definition ErrEmptyPath :: go_error where "ErrEmptyPath = Sentinel ''path must not be empty''"

definition defaultDirMode :: nat where "defaultDirMode = 493" \<comment> \<open>0o755\<close>
definition defaultFileMode :: nat where "defaultFileMode = 420" \<comment> \<open>0o644\<close>

definition EnsureDir :: "'w os \<Rightarrow> string \<Rightarrow> 'w \<Rightarrow> go_error option \<times> 'w" where
  "EnsureDir sys path w =
     (if path = '''' then (Some (Wrapf ''create directory: %w'' [] ErrEmptyPath), w)
      else (case os_mkdir_all sys path defaultDirMode w of
              (Some e, w1) \<Rightarrow> (Some (Wrapf ''create directory: %w'' [] e), w1)
            | (None, w1) \<Rightarrow> (None, w1)))"

definition EnsureDirForFile :: "'w os \<Rightarrow> string \<Rightarrow> 'w \<Rightarrow> go_error option \<times> 'w" where
  "EnsureDirForFile sys filePath w =
     (if filePath = '''' then (Some (Wrapf ''ensure directory for file: %w'' [] ErrEmptyPath), w)
      else EnsureDir sys (filepath_Dir filePath) w)"

record copy_options =
  cp_Mode :: nat
  cp_Sync :: bool
  cp_Atomic :: bool

definition isSameFile :: "'w os \<Rightarrow> os_file \<Rightarrow> string \<Rightarrow> 'w \<Rightarrow> go_error + bool" where
  "isSameFile sys srcFile dstPath w =
     (case os_stat sys dstPath w of
        Inl e \<Rightarrow>
          (if errors_Is e (Std OsErrNotExist) then Inr False
           else Inl (Wrapf ''stat destination: %w'' [] e))
      | Inr dstInfo \<Rightarrow>
          (case os_fstat sys srcFile w of
             Inl e \<Rightarrow> Inl (Wrapf ''stat source: %w'' [] e)
           | Inr srcInfo \<Rightarrow> Inr (srcInfo = dstInfo)))"

definition openDstFile ::
  "'w os \<Rightarrow> string \<Rightarrow> copy_options \<Rightarrow> 'w \<Rightarrow> (go_error + os_file) \<times> 'w" where
  "openDstFile sys dst opts w =
     (let opened =
        (if cp_Atomic opts then
           (case os_create_temp sys (filepath_Dir dst) ''.tmp-copy-*'' w of
              (Inl e, w1) \<Rightarrow> (Inl (Wrapf ''create temp file: %w'' [] e), w1)
            | (Inr f, w1) \<Rightarrow> (Inr f, w1))
         else
           (case os_open_trunc sys dst (cp_Mode opts) w of
              (Inl e, w1) \<Rightarrow> (Inl (Wrapf ''create destination: %w'' [] e), w1)
            | (Inr f, w1) \<Rightarrow> (Inr f, w1)))
      in case opened of
           (Inl e, w1) \<Rightarrow> (Inl e, w1)
         | (Inr f, w1) \<Rightarrow>
             (case os_chmod sys f (cp_Mode opts) w1 of
                (Some e, w2) \<Rightarrow>
                  (let w3 = snd (os_close sys f w2);
                       w4 = (if cp_Atomic opts then snd (os_remove sys (snd f) w3) else w3)
                   in (Inl (Wrapf ''chmod destination: %w'' [] e), w4))
              | (None, w2) \<Rightarrow> (Inr f, w2)))"

definition finalizeCopy ::
  "'w os \<Rightarrow> os_file \<Rightarrow> string \<Rightarrow> copy_options \<Rightarrow> 'w \<Rightarrow> go_error option \<times> 'w" where
  "finalizeCopy sys dstFile dst opts w =
     (case (if cp_Sync opts \<or> cp_Atomic opts then os_sync sys dstFile w else (None, w)) of
        (Some e, w1) \<Rightarrow>
          (Some (Wrapf ''sync destination: %w'' [] e), snd (os_close sys dstFile w1))
      | (None, w1) \<Rightarrow>
          (case os_close sys dstFile w1 of
             (Some e, w2) \<Rightarrow> (Some (Wrapf ''close destination: %w'' [] e), w2)
           | (None, w2) \<Rightarrow>
               (if cp_Atomic opts then
                  (case os_rename sys (snd dstFile) dst w2 of
                     (Some e, w3) \<Rightarrow>
                       (Some (Wrapf ''rename temp file to destination: %w'' [] e), w3)
                   | (None, w3) \<Rightarrow> (None, w3))
                else (None, w2))))"

text \<open>The body after the destination was opened, with the deferred removal of a temporary file.\<close>

definition copy_into ::
  "'w os \<Rightarrow> os_file \<Rightarrow> os_file \<Rightarrow> string \<Rightarrow> copy_options \<Rightarrow> 'w \<Rightarrow> go_error option \<times> 'w" where
  "copy_into sys srcFile dstFile dst opts w =
     (case (case os_io_copy sys dstFile srcFile w of
              (Some e, w1) \<Rightarrow>
                (Some (Wrapf ''copy data: %w'' [] e), snd (os_close sys dstFile w1))
            | (None, w1) \<Rightarrow> finalizeCopy sys dstFile dst opts w1) of
        (res, w2) \<Rightarrow>
          (res, if res \<noteq> None \<and> cp_Atomic opts then snd (os_remove sys (snd dstFile) w2) else w2))"

text \<open>The body after the source was opened, before the deferred close of the source.\<close>

definition copy_from ::
  "'w os \<Rightarrow> os_file \<Rightarrow> string \<Rightarrow> copy_options option \<Rightarrow> 'w \<Rightarrow> go_error option \<times> 'w" where
  "copy_from sys srcFile dst opts w =
     (case isSameFile sys srcFile dst w of
        Inl e \<Rightarrow> (Some (Wrapf ''same-file check: %w'' [] e), w)
      | Inr True \<Rightarrow> (None, w)
      | Inr False \<Rightarrow>
          (case EnsureDirForFile sys dst w of
             (Some e, w1) \<Rightarrow> (Some (Wrapf ''prepare destination: %w'' [] e), w1)
           | (None, w1) \<Rightarrow>
               (let o1 = (case opts of
                            None \<Rightarrow> \<lparr>cp_Mode = 0, cp_Sync = False, cp_Atomic = False\<rparr>
                          | Some o0 \<Rightarrow> o0);
                    o2 = (if cp_Mode o1 = 0 then o1\<lparr>cp_Mode := defaultFileMode\<rparr> else o1)
                in case openDstFile sys dst o2 w1 of
                     (Inl e, w2) \<Rightarrow> (Some (Wrapf ''open destination: %w'' [] e), w2)
                   | (Inr f, w2) \<Rightarrow> copy_into sys srcFile f dst o2 w2)))"

definition CopyFile ::
  "'w os \<Rightarrow> string \<Rightarrow> string \<Rightarrow> copy_options option \<Rightarrow> 'w \<Rightarrow> go_error option \<times> 'w" where
  "CopyFile sys src dst opts w =
     (if src = '''' then (Some (Wrapf ''source path: %w'' [] ErrEmptyPath), w)
      else if dst = '''' then (Some (Wrapf ''destination path: %w'' [] ErrEmptyPath), w)
      else (case os_open sys src w of
              (Inl e, w1) \<Rightarrow> (Some (Wrapf ''open source: %w'' [] e), w1)
            | (Inr srcFile, w1) \<Rightarrow>
                (case copy_from sys srcFile dst opts w1 of (res, w2) \<Rightarrow>
                   (case os_close sys srcFile w2 of
                      (Some e, w3) \<Rightarrow>
                        (if res = None then Some (Wrapf ''close source: %w'' [] e) else res, w3)
                    | (None, w3) \<Rightarrow> (res, w3)))))"

subsection \<open>The file system\<close>

text \<open>
  What the copy relies on: \<open>C w p\<close> is the content at path \<open>p\<close>. Opening for reading, checking,
  syncing and closing change no content; a temporary file is new; a rename moves content; a failed
  operation changes nothing, except that a failed copy may leave anything in its own destination.
\<close>

definition fs_law :: "('w \<Rightarrow> string \<Rightarrow> string option) \<Rightarrow> 'w os \<Rightarrow> bool" where
  "fs_law C sys \<longleftrightarrow>
     (\<forall>p m w r w'. os_mkdir_all sys p m w = (r, w') \<longrightarrow> C w' = C w) \<and>
     (\<forall>p w r w'. os_open sys p w = (r, w') \<longrightarrow> C w' = C w \<and> (\<forall>f. r = Inr f \<longrightarrow> snd f = p)) \<and>
     (\<forall>d pat w e w'. os_create_temp sys d pat w = (Inl e, w') \<longrightarrow> C w' = C w) \<and>
     (\<forall>d pat w f w'. os_create_temp sys d pat w = (Inr f, w') \<longrightarrow>
        C w (snd f) = None \<and> C w' = (C w)(snd f \<mapsto> [])) \<and>
     (\<forall>f m w r w'. os_chmod sys f m w = (r, w') \<longrightarrow> C w' = C w) \<and>
     (\<forall>f w r w'. os_sync sys f w = (r, w') \<longrightarrow> C w' = C w) \<and>
     (\<forall>f w r w'. os_close sys f w = (r, w') \<longrightarrow> C w' = C w) \<and>
     (\<forall>d s w w'. os_io_copy sys d s w = (None, w') \<longrightarrow> C w' = (C w)(snd d := C w (snd s))) \<and>
     (\<forall>d s w e w'. os_io_copy sys d s w = (Some e, w') \<longrightarrow> (\<exists>x. C w' = (C w)(snd d := x))) \<and>
     (\<forall>a b w w'. os_rename sys a b w = (None, w') \<longrightarrow> C w' = (C w)(b := C w a, a := None)) \<and>
     (\<forall>a b w e w'. os_rename sys a b w = (Some e, w') \<longrightarrow> C w' = C w) \<and>
     (\<forall>p w w'. os_remove sys p w = (None, w') \<longrightarrow> C w' = (C w)(p := None)) \<and>
     (\<forall>p w e w'. os_remove sys p w = (Some e, w') \<longrightarrow> C w' = C w) \<and>
     (\<forall>p f w i. os_stat sys p w = Inr i \<and> os_fstat sys f w = Inr i \<longrightarrow> C w p = C w (snd f))"

text \<open>The names of temporary files beside \<open>dst\<close> are outside \<open>X\<close>.\<close>

definition temp_apart :: "'w os \<Rightarrow> string \<Rightarrow> string set \<Rightarrow> bool" where
  "temp_apart sys dst X \<longleftrightarrow>
     (\<forall>v f v'. os_create_temp sys (filepath_Dir dst) ''.tmp-copy-*'' v = (Inr f, v') \<longrightarrow> snd f \<notin> X)"

lemma fs_lawD:
  assumes "fs_law C sys"
  shows fs_mkdir: "os_mkdir_all sys p m w = (r, w') \<Longrightarrow> C w' = C w"
    and fs_open: "os_open sys p w = (o1, w') \<Longrightarrow> C w' = C w \<and> (\<forall>f. o1 = Inr f \<longrightarrow> snd f = p)"
    and fs_temp_error: "os_create_temp sys d pat w = (Inl e, w') \<Longrightarrow> C w' = C w"
    and fs_temp: "os_create_temp sys d pat w = (Inr f, w') \<Longrightarrow> C w (snd f) = None \<and> C w' = (C w)(snd f \<mapsto> [])"
    and fs_chmod: "os_chmod sys f m w = (r, w') \<Longrightarrow> C w' = C w"
    and fs_sync: "os_sync sys f w = (r, w') \<Longrightarrow> C w' = C w"
    and fs_close: "os_close sys f w = (r, w') \<Longrightarrow> C w' = C w"
    and fs_copy: "os_io_copy sys f g w = (None, w') \<Longrightarrow> C w' = (C w)(snd f := C w (snd g))"
    and fs_copy_error: "os_io_copy sys f g w = (Some e, w') \<Longrightarrow> \<exists>x. C w' = (C w)(snd f := x)"
    and fs_rename: "os_rename sys a b w = (None, w') \<Longrightarrow> C w' = (C w)(b := C w a, a := None)"
    and fs_rename_error: "os_rename sys a b w = (Some e, w') \<Longrightarrow> C w' = C w"
    and fs_remove: "os_remove sys p w = (None, w') \<Longrightarrow> C w' = (C w)(p := None)"
    and fs_remove_error: "os_remove sys p w = (Some e, w') \<Longrightarrow> C w' = C w"
    and fs_same: "os_stat sys p w = Inr i \<Longrightarrow> os_fstat sys f w = Inr i \<Longrightarrow> C w p = C w (snd f)"
  using assms unfolding fs_law_def by metis+

lemma os_close_snd: "fs_law C sys \<Longrightarrow> C (snd (os_close sys f w)) = C w"
  by (rule fs_close [where r = "fst (os_close sys f w)"]) simp_all

lemma os_remove_snd:
  assumes "fs_law C sys" and "q \<noteq> p"
  shows "C (snd (os_remove sys p w)) q = C w q"
proof (cases "os_remove sys p w")
  case (Pair r w')
  then show ?thesis
    using assms(2) fs_remove [OF assms(1)] fs_remove_error [OF assms(1)] by (cases r) fastforce+
qed

lemma EnsureDirForFile_content:
  "fs_law C sys \<Longrightarrow> EnsureDirForFile sys p w = (r, w') \<Longrightarrow> C w' = C w"
  by (auto simp: EnsureDirForFile_def EnsureDir_def split: if_splits prod.splits option.splits
      dest: fs_mkdir)

lemma openDstFile_temp:
  assumes law: "fs_law C sys" and at: "cp_Atomic opts"
    and fresh: "temp_apart sys dst X"
    and run: "openDstFile sys dst opts w = (r, w')"
  shows "(\<forall>q \<in> X. C w' q = C w q) \<and> (\<forall>f. r = Inr f \<longrightarrow> snd f \<notin> X)"
proof (cases "os_create_temp sys (filepath_Dir dst) ''.tmp-copy-*'' w")
  case (Pair t w1)
  show ?thesis
  proof (cases t)
    case (Inl e)
    with Pair run at show ?thesis
      by (auto simp: openDstFile_def dest: fs_temp_error [OF law])
  next
    case (Inr f)
    have nX: "snd f \<notin> X" using fresh Pair Inr unfolding temp_apart_def by blast
    have w1: "C w1 q = C w q" if "q \<in> X" for q
      using fs_temp [OF law Pair [unfolded Inr]] that nX by auto
    show ?thesis
    proof (cases "os_chmod sys f (cp_Mode opts) w1")
      case (Pair c w2)
      with run at \<open>os_create_temp _ _ _ w = (t, w1)\<close> Inr nX w1 fs_chmod [OF law Pair]
      show ?thesis
        by (cases c) (auto simp: openDstFile_def Let_def os_close_snd [OF law]
            intro: os_remove_snd [OF law, THEN trans])
    qed
  qed
qed

lemma finalizeCopy_atomic:
  assumes law: "fs_law C sys" and at: "cp_Atomic opts"
    and run: "finalizeCopy sys f dst opts w = (r, w')"
  shows "if r = None then C w' = (C w)(dst := C w (snd f), snd f := None) else C w' = C w"
proof (cases "os_sync sys f w")
  case (Pair s w1)
  note w1 = fs_sync [OF law Pair]
  show ?thesis
  proof (cases "os_close sys f w1")
    case (Pair c w2)
    note w2 = fs_close [OF law Pair]
    show ?thesis
    proof (cases "os_rename sys (snd f) dst w2")
      case (Pair m w3)
      with run at \<open>os_sync _ _ w = (s, w1)\<close> \<open>os_close _ _ w1 = (c, w2)\<close> w1 w2
        fs_rename [OF law, of "snd f" dst w2 w3] fs_rename_error [OF law, of "snd f" dst w2 _ w3]
      show ?thesis
        by (cases s; cases c; cases m) (auto simp: finalizeCopy_def os_close_snd [OF law])
    qed
  qed
qed

lemma copy_into_atomic:
  assumes law: "fs_law C sys" and at: "cp_Atomic opts" and tmp: "snd f \<noteq> dst"
    and run: "copy_into sys sf f dst opts w = (r, w')"
  shows "if r = None then C w' dst = C w (snd sf) else C w' dst = C w dst"
proof (cases "os_io_copy sys f sf w")
  case (Pair c w1)
  show ?thesis
  proof (cases c)
    case (Some e)
    with fs_copy_error [OF law] Pair obtain x where "C w1 = (C w)(snd f := x)" by blast
    with run at Pair Some tmp show ?thesis
      by (auto simp: copy_into_def os_close_snd [OF law] os_remove_snd [OF law])
  next
    case None
    note w1 = fs_copy [OF law Pair [unfolded None]]
    show ?thesis
    proof (cases "finalizeCopy sys f dst opts w1")
      case (Pair r2 w2)
      with finalizeCopy_atomic [OF law at Pair] run at \<open>os_io_copy _ _ _ w = (c, w1)\<close> None w1 tmp
      show ?thesis
        by (cases r2) (auto simp: copy_into_def os_remove_snd [OF law])
    qed
  qed
qed

lemma isSameFile_content:
  "fs_law C sys \<Longrightarrow> isSameFile sys f dst w = Inr True \<Longrightarrow> C w dst = C w (snd f)"
  by (auto simp: isSameFile_def split: sum.splits if_splits intro: fs_same)

lemma copy_from_atomic:
  assumes law: "fs_law C sys" and at: "cp_Atomic opts"
    and fresh: "temp_apart sys dst {snd sf, dst}"
    and run: "copy_from sys sf dst (Some opts) w = (r, w')"
  shows "if r = None then C w' dst = C w (snd sf) else C w' dst = C w dst"
proof (cases "isSameFile sys sf dst w")
  case (Inr same)
  show ?thesis
  proof (cases same)
    case False
    let ?o = "if cp_Mode opts = 0 then opts\<lparr>cp_Mode := defaultFileMode\<rparr> else opts"
    have at': "cp_Atomic ?o" using at by simp
    obtain d w1 where d: "EnsureDirForFile sys dst w = (d, w1)" by fastforce
    obtain f w2 where f: "openDstFile sys dst ?o w1 = (f, w2)" by fastforce
    note w1 = EnsureDirForFile_content [OF law d]
    note w2 = openDstFile_temp [OF law at' fresh f]
    show ?thesis
      using run Inr False d f w1 w2 copy_into_atomic [OF law at', of _ dst sf w2 r w']
      by (cases d; cases f) (auto simp: copy_from_def Let_def)
  next
    case True
    with run Inr isSameFile_content [OF law, of sf dst w] show ?thesis by (auto simp: copy_from_def)
  qed
qed (use run in \<open>auto simp: copy_from_def\<close>)

lemma CopyFile_content:
  assumes "fs_law C sys" and "cp_Atomic opts"
    and "temp_apart sys dst {src, dst}"
    and "CopyFile sys src dst (Some opts) w = (r, w')"
  shows "(C w' dst = C w dst \<or> C w' dst = C w src) \<and> (r = None \<longrightarrow> C w' dst = C w src)"
proof (cases "os_open sys src w")
  case (Pair o1 w1)
  note opened = fs_open [OF assms(1) Pair]
  show ?thesis
  proof (cases o1)
    case (Inr sf)
    with opened have sf: "snd sf = src" "C w1 = C w" by auto
    obtain r1 w2 where c: "copy_from sys sf dst (Some opts) w1 = (r1, w2)" by fastforce
    obtain r2 w3 where cl: "os_close sys sf w2 = (r2, w3)" by fastforce
    note body = copy_from_atomic [OF assms(1,2) _ c, unfolded sf(1), OF assms(3)]
    with assms(4) Pair Inr c cl sf fs_close [OF assms(1) cl] show ?thesis
      by (cases r2) (auto simp: CopyFile_def split: if_splits)
  qed (use assms(4) Pair opened in \<open>auto simp: CopyFile_def split: if_splits\<close>)
qed

subsection \<open>Properties\<close>

text \<open>C35. An atomic \<^verbatim>\<open>CopyFile\<close> (the mode the CRD cache uses) never leaves a partial destination:
  afterwards the destination holds either exactly what it held before or exactly the source's
  content, and success means the latter. Temporary names are assumed to differ from both
  paths.\<close>

theorem CopyFile_atomic:
  assumes "fs_law C sys" and "cp_Atomic opts"
    and "temp_apart sys dst {src, dst}"
    and "CopyFile sys src dst (Some opts) w = (r, w')"
  shows "(C w' dst = C w dst \<or> C w' dst = C w src) \<and> (r = None \<longrightarrow> C w' dst = C w src)"
  using assms by (rule CopyFile_content)

text \<open>An empty source or destination is refused with \<^verbatim>\<open>ErrEmptyPath\<close> before any file is
  touched, and copying a file onto itself returns without changing its content, which the
  truncating non-atomic mode would otherwise destroy.\<close>

theorem CopyFile_guards:
  assumes "fs_law C sys"
  shows "(src = '''' \<or> dst = '''' \<longrightarrow>
            (\<exists>e. CopyFile sys src dst opts w = (Some e, w) \<and> errors_Is e ErrEmptyPath)) \<and>
         (\<forall>i f w1. src \<noteq> '''' \<and> dst \<noteq> '''' \<and> os_open sys src w = (Inr f, w1) \<and>
            os_stat sys dst w1 = Inr i \<and> os_fstat sys f w1 = Inr i \<longrightarrow>
            C (snd (CopyFile sys src dst opts w)) = C w)"
proof -
  have "C (snd (CopyFile sys src dst opts w)) = C w"
    if "src \<noteq> ''''" "dst \<noteq> ''''" "os_open sys src w = (Inr f, w1)"
      "os_stat sys dst w1 = Inr i" "os_fstat sys f w1 = Inr i" for i f w1
  proof -
    obtain r2 w3 where cl: "os_close sys f w1 = (r2, w3)" by fastforce
    with that fs_open [OF assms that(3)] fs_close [OF assms cl] show ?thesis
      by (cases r2) (auto simp: CopyFile_def copy_from_def isSameFile_def)
  qed
  then show ?thesis by (auto simp: CopyFile_def ErrEmptyPath_def)
qed

subsection \<open>Witnesses\<close>

text \<open>A file system whose state is the map from paths to contents.\<close>

definition map_fs :: "(string \<rightharpoonup> string) os" where
  "map_fs = quiet_os\<lparr>
     os_open := (\<lambda>p w. (case w p of None \<Rightarrow> Inl (Std OsErrNotExist) | Some c \<Rightarrow> Inr (3, p), w)),
     os_create_temp := (\<lambda>d pat w. (let n = d @ ''/.tmp-copy-1'' in
       if w n = None then (Inr (4, n), w(n \<mapsto> [])) else (Inl (errors_New ''exists''), w))),
     os_io_copy := (\<lambda>d s w. (None, w(snd d := w (snd s)))),
     os_rename := (\<lambda>a b w. (None, w(b := w a, a := None))),
     os_remove := (\<lambda>p w. (None, w(p := None)))\<rparr>"

lemma map_fs_law: "fs_law (\<lambda>w. w) map_fs"
  by (auto simp: fs_law_def map_fs_def quiet_os_def Let_def split: option.splits if_splits)

lemma sample_dir: "filepath_Dir ''/c/x.db'' = ''/c''"
  by code_simp

lemma map_fs_temp_apart: "temp_apart map_fs ''/c/x.db'' {''/a'', ''/c/x.db''}"
  by (auto simp: temp_apart_def map_fs_def sample_dir Let_def split: if_splits)

definition atomic_opts :: copy_options where
  "atomic_opts = \<lparr>cp_Mode = 0, cp_Sync = True, cp_Atomic = True\<rparr>"

theorem CopyFile_atomic_witness:
  "\<exists>w'. CopyFile map_fs ''/a'' ''/c/x.db'' (Some atomic_opts) [''/a'' \<mapsto> ''data''] = (None, w') \<and>
     w' ''/c/x.db'' = Some ''data''"
proof -
  have at: "cp_Atomic atomic_opts" by (simp add: atomic_opts_def)
  obtain w' where run:
    "CopyFile map_fs ''/a'' ''/c/x.db'' (Some atomic_opts) [''/a'' \<mapsto> ''data''] = (None, w')"
    by (simp add: CopyFile_def copy_from_def isSameFile_def EnsureDirForFile_def EnsureDir_def
        openDstFile_def copy_into_def finalizeCopy_def map_fs_def quiet_os_def atomic_opts_def
        sample_dir Let_def)
  from CopyFile_atomic [OF map_fs_law at map_fs_temp_apart run] run show ?thesis by auto
qed

theorem CopyFile_guards_witness:
  "\<exists>e. CopyFile map_fs '''' ''/c/x.db'' None Map.empty = (Some e, Map.empty) \<and>
     errors_Is e ErrEmptyPath"
  using CopyFile_guards [OF map_fs_law, of "''''" "''/c/x.db''" None Map.empty] by simp

end
