(* ===== verification/Kine.thy ===== *)
theory Kine
  imports Process Fileutil
begin

text \<open>
  \<^verbatim>\<open>internal/kine/process.go\<close>: the kine process, its configuration, its start with the optional
  copy of a template database, and its TCP readiness probe.
\<close>

definition kine_sqliteBusyTimeoutMs :: int where "kine_sqliteBusyTimeoutMs = 5000"
definition kine_readinessPollInterval :: duration where
  "kine_readinessPollInterval = 10 * Millisecond"

record kine_config =
  kc_Binary :: string
  kc_DataDir :: string
  kc_SQLitePath :: string
  kc_Port :: int
  kc_CachedDBPath :: string
  kc_StopTimeout :: duration

record kine_process =
  kine_conf :: kine_config
  kine_base :: base_process

definition kine_validate :: "kine_config \<Rightarrow> go_error option" where
  "kine_validate c = join_errs (
     err_if (kc_Binary c = '''') (errors_New ''binary path must not be empty'') @
     err_if (kc_DataDir c = '''') (errors_New ''data dir must not be empty'') @
     err_if (kc_SQLitePath c = '''') (errors_New ''sqlite path must not be empty'') @
     err_if (kc_Port c \<le> 0 \<or> kc_Port c > 65535)
       (errors_New ''port must be between 1 and 65535''))"

definition kine_New :: "kine_config \<Rightarrow> go_error + kine_process" where
  "kine_New cfg =
     (case kine_validate cfg of
        Some e \<Rightarrow> Inl (Wrapf ''invalid kine config: %w'' [] e)
      | None \<Rightarrow>
          Inr \<lparr>kine_conf = cfg, kine_base = base_process_of ''kine'' (kc_StopTimeout cfg)\<rparr>)"

definition prepopulateDB :: "'w os \<Rightarrow> string \<Rightarrow> string \<Rightarrow> 'w \<Rightarrow> go_error option \<times> 'w" where
  "prepopulateDB sys srcPath dstPath w =
     (case CopyFile sys srcPath dstPath
             (Some \<lparr>cp_Mode = 384 \<comment> \<open>0o600\<close>, cp_Sync = False, cp_Atomic = False\<rparr>) w of
        (Some e, w1) \<Rightarrow>
          (Some (Wrapf ''copy database from %s to %s: %w'' [ArgStr srcPath, ArgStr dstPath] e), w1)
      | (None, w1) \<Rightarrow> (None, w1))"

definition kine_args :: "kine_config \<Rightarrow> string list" where
  "kine_args c =
     [''--endpoint=sqlite://'' @ kc_SQLitePath c @ ''?_busy_timeout='' @
        show_int kine_sqliteBusyTimeoutMs,
      ''--listen-address=127.0.0.1:'' @ show_int (kc_Port c),
      ''--metrics-bind-address=0'']"

definition kine_Start ::
  "'w os \<Rightarrow> kine_process \<Rightarrow> ctx \<Rightarrow> 'w \<Rightarrow> go_error option \<times> kine_process \<times> 'w" where
  "kine_Start sys p pc w =
     (if bp_IsStarted (kine_base p) then (Some ErrAlreadyStarted, p, w)
      else (case (if kc_CachedDBPath (kine_conf p) \<noteq> ''''
                  then prepopulateDB sys (kc_CachedDBPath (kine_conf p)) (kc_SQLitePath (kine_conf p)) w
                  else (None, w)) of
              (Some e, w1) \<Rightarrow> (Some (Wrapf ''prepopulate kine database: %w'' [] e), p, w1)
            | (None, w1) \<Rightarrow>
                (case SetupAndStart sys (kine_base p)
                        (Some (new_cmd pc (kc_Binary (kine_conf p)) (kine_args (kine_conf p))))
                        (kc_DataDir (kine_conf p)) w1 of
                   (Some e, b, w2) \<Rightarrow>
                     (Some (Wrapf ''setup and start kine process: %w'' [] e),
                      p\<lparr>kine_base := b\<rparr>, w2)
                 | (None, b, w2) \<Rightarrow> (None, p\<lparr>kine_base := b\<rparr>, w2))))"

definition kine_check :: "'w os \<Rightarrow> kine_config \<Rightarrow> nat \<Rightarrow> 'w \<Rightarrow> (go_error + bool) \<times> 'w" where
  "kine_check sys c attempt w =
     (case os_dial sys (''127.0.0.1:'' @ show_int (kc_Port c)) w of
        (Some e, w1) \<Rightarrow> (Inr False, w1)
      | (None, w1) \<Rightarrow> (Inr True, w1))"

definition kine_WaitReady ::
  "'w os \<Rightarrow> kine_process \<Rightarrow> ctx \<Rightarrow> duration \<Rightarrow> 'w \<Rightarrow> go_error option \<times> 'w" where
  "kine_WaitReady sys p c timeout w =
     (case WaitReady sys c
             \<lparr>wr_Interval = kine_readinessPollInterval, wr_Timeout = timeout, wr_Name = ''kine'',
              wr_Port = kc_Port (kine_conf p), wr_ProcessExited = bp_exited (kine_base p)\<rparr>
             (Some (kine_check sys (kine_conf p))) w of
        (Some e, w1) \<Rightarrow> (Some (Wrapf ''kine not ready: %w'' [] e), w1)
      | (None, w1) \<Rightarrow> (None, w1))"

definition kine_Endpoint :: "kine_process \<Rightarrow> string" where
  "kine_Endpoint p = ''http://127.0.0.1:'' @ show_int (kc_Port (kine_conf p))"

definition kine_Stop ::
  "'w os \<Rightarrow> kine_process \<Rightarrow> duration \<Rightarrow> 'w \<Rightarrow> go_error option \<times> kine_process \<times> 'w" where
  "kine_Stop sys p timeout w =
     (case bp_Stop sys (kine_base p) timeout w of (e, b, w1) \<Rightarrow> (e, p\<lparr>kine_base := b\<rparr>, w1))"

definition kine_Close :: "'w os \<Rightarrow> kine_process \<Rightarrow> 'w \<Rightarrow> kine_process \<times> 'w" where
  "kine_Close sys p w =
     (case bp_Close sys (kine_base p) w of (b, w1) \<Rightarrow> (p\<lparr>kine_base := b\<rparr>, w1))"

subsection \<open>kine as a Stoppable\<close>

interpretation kine_stop: stoppable "kine_Stop sys" "kine_Close sys"
    "\<lambda>p. bp_IsStarted (kine_base p)" "\<lambda>p. bp_logFiles (kine_base p)" "shut_logs sys" for sys
  by unfold_locales
    (auto simp: kine_Stop_def kine_Close_def split: prod.splits
      dest: bp_Stop_fields bp_Stop_idle bp_Close_idle)

lemma kine_validate_None_iff:
  "kine_validate c = None \<longleftrightarrow>
     kc_Binary c \<noteq> '''' \<and> kc_DataDir c \<noteq> '''' \<and> kc_SQLitePath c \<noteq> '''' \<and>
     0 < kc_Port c \<and> kc_Port c \<le> 65535"
  by (auto simp: kine_validate_def)

lemma kine_New_no_panic: "NewBaseProcess ''kine'' t = Ret (base_process_of ''kine'' t)"
  by (simp add: NewBaseProcess_def)

lemma kine_New_ok:
  "kine_New cfg = Inr p \<Longrightarrow>
     kine_conf p = cfg \<and> \<not> bp_IsStarted (kine_base p) \<and> bp_logFiles (kine_base p) = None \<and>
     kine_validate cfg = None"
  by (auto simp: kine_New_def base_process_of_def bp_IsStarted_def split: option.splits)

lemma kine_Start_conf: "kine_Start sys p pc w = (r, p', w') \<Longrightarrow> kine_conf p' = kine_conf p"
  by (auto simp: kine_Start_def split: if_splits prod.splits option.splits)

end
