(* ===== verification/Apiserver.thy ===== *)
theory Apiserver
  imports Process Fileutil
begin

text \<open>
  \<^verbatim>\<open>internal/apiserver/process.go\<close>: the kube-apiserver process, the files it is started with, its
  command line, its \<^verbatim>\<open>/livez\<close> probe and the kubeconfig that clients read.
\<close>

definition testAuthToken :: string where "testAuthToken = ''test-token''"
definition kubeconfigEntryName :: string where "kubeconfigEntryName = ''default''"
definition api_readinessPollInterval :: duration where
  "api_readinessPollInterval = 100 * Millisecond"

definition authConfigYAML :: string where
  "authConfigYAML = concat (map (\<lambda>l. l @ [CHR 0x0A])
     [''apiVersion: apiserver.config.k8s.io/v1'',
      ''kind: AuthenticationConfiguration'',
      ''anonymous:'',
      ''  enabled: true'',
      ''  conditions:'',
      ''  - path: /livez'',
      ''  - path: /readyz'',
      ''  - path: /healthz''])"

record api_config =
  ac_Binary :: string
  ac_DataDir :: string
  ac_Port :: int
  ac_EtcdEndpoint :: string
  ac_KubeconfigPath :: string
  ac_StopTimeout :: duration

record api_process =
  api_conf :: api_config
  api_base :: base_process

record start_files =
  tokenFilePath :: string
  certDir :: string
  saKeyPath :: string
  authConfigPath :: string

definition api_validate :: "api_config \<Rightarrow> go_error option" where
  "api_validate c = join_errs (
     err_if (ac_Binary c = '''') (errors_New ''binary path must not be empty'') @
     err_if (ac_DataDir c = '''') (errors_New ''data dir must not be empty'') @
     err_if (ac_Port c \<le> 0 \<or> ac_Port c > 65535)
       (errors_New ''port must be between 1 and 65535'') @
     err_if (ac_EtcdEndpoint c = '''') (errors_New ''etcd endpoint must not be empty'') @
     err_if (ac_KubeconfigPath c = '''') (errors_New ''kubeconfig path must not be empty''))"

definition api_New :: "api_config \<Rightarrow> go_error + api_process" where
  "api_New cfg =
     (case api_validate cfg of
        Some e \<Rightarrow> Inl (Wrapf ''invalid apiserver config: %w'' [] e)
      | None \<Rightarrow>
          Inr \<lparr>api_conf = cfg, api_base = base_process_of ''kube-apiserver'' (ac_StopTimeout cfg)\<rparr>)"

subsection \<open>The files\<close>

text \<open>The token line is \<^verbatim>\<open>test-token,admin,admin,"system:masters"\<close> and a newline.\<close>

definition token_csv :: string where
  "token_csv = testAuthToken @ '',admin,admin,'' @
     [CHR 0x22] @ ''system:masters'' @ [CHR 0x22, CHR 0x0A]"

definition writeTokenFile :: "'w os \<Rightarrow> string \<Rightarrow> 'w \<Rightarrow> (go_error + string) \<times> 'w" where
  "writeTokenFile sys dir w =
     (let path = filepath_Join [dir, ''token.csv'']
      in case os_write_file sys path token_csv 384 \<comment> \<open>0o600\<close> w of
           (Some e, w1) \<Rightarrow> (Inl (Wrapf ''create token file: %w'' [] e), w1)
         | (None, w1) \<Rightarrow> (Inr path, w1))"

definition setupCertsAndKeys ::
  "'w os \<Rightarrow> string \<Rightarrow> 'w \<Rightarrow> (go_error + string \<times> string) \<times> 'w" where
  "setupCertsAndKeys sys dir w =
     (let cdir = filepath_Join [dir, ''certs'']
      in case EnsureDir sys cdir w of
           (Some e, w1) \<Rightarrow> (Inl (Wrapf ''create cert dir: %w'' [] e), w1)
         | (None, w1) \<Rightarrow>
             (let key = filepath_Join [cdir, ''sa.key'']
              in case os_ecdsa_key sys w1 of
                   (Inl e, w2) \<Rightarrow> (Inl (Wrapf ''generate service account key: %w'' [] e), w2)
                 | (Inr k, w2) \<Rightarrow>
                     (case os_x509_marshal sys k of
                        Inl e \<Rightarrow> (Inl (Wrapf ''marshal service account key: %w'' [] e), w2)
                      | Inr der \<Rightarrow>
                          (case os_write_file sys key (os_pem_encode sys der) 384 w2 of
                             (Some e, w3) \<Rightarrow>
                               (Inl (Wrapf ''write service account key: %w'' [] e), w3)
                           | (None, w3) \<Rightarrow> (Inr (cdir, key), w3)))))"

definition writeAuthConfig :: "'w os \<Rightarrow> string \<Rightarrow> 'w \<Rightarrow> (go_error + string) \<times> 'w" where
  "writeAuthConfig sys dir w =
     (let path = filepath_Join [dir, ''auth-config.yaml'']
      in case os_write_file sys path authConfigYAML 384 w of
           (Some e, w1) \<Rightarrow> (Inl (Wrapf ''create auth config file: %w'' [] e), w1)
         | (None, w1) \<Rightarrow> (Inr path, w1))"

definition prepareFiles :: "'w os \<Rightarrow> string \<Rightarrow> 'w \<Rightarrow> (go_error + start_files) \<times> 'w" where
  "prepareFiles sys dir w =
     (case writeTokenFile sys dir w of
        (Inl e, w1) \<Rightarrow> (Inl (Wrapf ''prepare apiserver files: %w'' [] e), w1)
      | (Inr token, w1) \<Rightarrow>
          (case setupCertsAndKeys sys dir w1 of
             (Inl e, w2) \<Rightarrow> (Inl (Wrapf ''prepare apiserver files: %w'' [] e), w2)
           | (Inr (cdir, key), w2) \<Rightarrow>
               (case writeAuthConfig sys dir w2 of
                  (Inl e, w3) \<Rightarrow> (Inl (Wrapf ''prepare apiserver files: %w'' [] e), w3)
                | (Inr auth, w3) \<Rightarrow>
                    (Inr \<lparr>tokenFilePath = token, certDir = cdir, saKeyPath = key,
                       authConfigPath = auth\<rparr>, w3))))"

subsection \<open>The command line, start and readiness\<close>

definition buildArgs :: "api_config \<Rightarrow> start_files \<Rightarrow> string list" where
  "buildArgs c files =
     [''--etcd-servers='' @ ac_EtcdEndpoint c,
      ''--bind-address=127.0.0.1'',
      ''--secure-port='' @ show_int (ac_Port c),
      ''--cert-dir='' @ certDir files,
      ''--authentication-config='' @ authConfigPath files,
      ''--token-auth-file='' @ tokenFilePath files,
      ''--authorization-mode=AlwaysAllow'',
      ''--service-account-key-file='' @ saKeyPath files,
      ''--service-account-signing-key-file='' @ saKeyPath files,
      ''--service-account-issuer=https://kubernetes.default.svc'',
      ''--service-cluster-ip-range=10.96.0.0/12'',
      ''--disable-admission-plugins=ServiceAccount'',
      ''--watch-cache=false'',
      ''--v=2'']"

definition api_Start ::
  "'w os \<Rightarrow> api_process \<Rightarrow> ctx \<Rightarrow> 'w \<Rightarrow> go_error option \<times> api_process \<times> 'w" where
  "api_Start sys p pc w =
     (if bp_IsStarted (api_base p) then (Some ErrAlreadyStarted, p, w)
      else (let dir = ac_DataDir (api_conf p)
            in case prepareFiles sys dir w of
                 (Inl e, w1) \<Rightarrow> (Some (Wrapf ''start apiserver: %w'' [] e), p, w1)
               | (Inr files, w1) \<Rightarrow>
                   (case SetupAndStart sys (api_base p)
                           (Some (new_cmd pc (ac_Binary (api_conf p)) (buildArgs (api_conf p) files)))
                           dir w1 of
                      (Some e, b, w2) \<Rightarrow>
                        (Some (Wrapf ''setup and start apiserver process: %w'' [] e),
                         p\<lparr>api_base := b\<rparr>, w2)
                    | (None, b, w2) \<Rightarrow> (None, p\<lparr>api_base := b\<rparr>, w2))))"

definition api_healthURL :: "api_config \<Rightarrow> string" where
  "api_healthURL c = ''https://127.0.0.1:'' @ show_int (ac_Port c) @ ''/livez''"

definition api_check :: "'w os \<Rightarrow> api_config \<Rightarrow> nat \<Rightarrow> 'w \<Rightarrow> (go_error + bool) \<times> 'w" where
  "api_check sys c attempt w =
     (case os_new_request sys (api_healthURL c) of
        Some e \<Rightarrow> (Inl (Wrapf ''create health check request: %w'' [] e), w)
      | None \<Rightarrow>
          (case os_http_get sys (api_healthURL c) w of
             (Inl e, w1) \<Rightarrow> (Inr False, w1)
           | (Inr status, w1) \<Rightarrow> (Inr (status = 200), w1)))"

definition api_WaitReady ::
  "'w os \<Rightarrow> api_process \<Rightarrow> ctx \<Rightarrow> duration \<Rightarrow> 'w \<Rightarrow> go_error option \<times> 'w" where
  "api_WaitReady sys p c timeout w =
     (case WaitReady sys c
             \<lparr>wr_Interval = api_readinessPollInterval, wr_Timeout = timeout, wr_Name = ''apiserver'',
              wr_Port = ac_Port (api_conf p), wr_ProcessExited = bp_exited (api_base p)\<rparr>
             (Some (api_check sys (api_conf p))) w of
        (Some e, w1) \<Rightarrow> (Some (Wrapf ''apiserver not ready: %w'' [] e), w1)
      | (None, w1) \<Rightarrow> (None, w1))"

subsection \<open>The kubeconfig\<close>

definition api_kubeconfig :: "api_config \<Rightarrow> kubeconfig" where
  "api_kubeconfig c = \<lparr>
     kc_clusters = [(kubeconfigEntryName, ''https://127.0.0.1:'' @ show_int (ac_Port c), True)],
     kc_contexts = [(kubeconfigEntryName, kubeconfigEntryName, kubeconfigEntryName)],
     kc_authInfos = [(kubeconfigEntryName, testAuthToken)],
     kc_currentContext = kubeconfigEntryName\<rparr>"

definition WriteKubeconfig :: "'w os \<Rightarrow> api_process \<Rightarrow> 'w \<Rightarrow> go_error option \<times> 'w" where
  "WriteKubeconfig sys p w =
     (case os_write_kubeconfig sys (api_kubeconfig (api_conf p)) (ac_KubeconfigPath (api_conf p)) w of
        (Some e, w1) \<Rightarrow>
          (Some (Wrapf ''write kubeconfig to %s: %w'' [ArgStr (ac_KubeconfigPath (api_conf p))] e), w1)
      | (None, w1) \<Rightarrow> (None, w1))"

definition api_Stop ::
  "'w os \<Rightarrow> api_process \<Rightarrow> duration \<Rightarrow> 'w \<Rightarrow> go_error option \<times> api_process \<times> 'w" where
  "api_Stop sys p timeout w =
     (case bp_Stop sys (api_base p) timeout w of (e, b, w1) \<Rightarrow> (e, p\<lparr>api_base := b\<rparr>, w1))"

definition api_Close :: "'w os \<Rightarrow> api_process \<Rightarrow> 'w \<Rightarrow> api_process \<times> 'w" where
  "api_Close sys p w =
     (case bp_Close sys (api_base p) w of (b, w1) \<Rightarrow> (p\<lparr>api_base := b\<rparr>, w1))"

subsection \<open>kube-apiserver as a Stoppable\<close>

interpretation api_stop: stoppable "api_Stop sys" "api_Close sys"
    "\<lambda>p. bp_IsStarted (api_base p)" "\<lambda>p. bp_logFiles (api_base p)" "shut_logs sys" for sys
  by unfold_locales
    (auto simp: api_Stop_def api_Close_def split: prod.splits
      dest: bp_Stop_fields bp_Stop_idle bp_Close_idle)

lemma api_validate_None_iff:
  "api_validate c = None \<longleftrightarrow>
     ac_Binary c \<noteq> '''' \<and> ac_DataDir c \<noteq> '''' \<and> 0 < ac_Port c \<and> ac_Port c \<le> 65535 \<and>
     ac_EtcdEndpoint c \<noteq> '''' \<and> ac_KubeconfigPath c \<noteq> ''''"
  by (auto simp: api_validate_def)

lemma api_New_no_panic: "NewBaseProcess ''kube-apiserver'' t = Ret (base_process_of ''kube-apiserver'' t)"
  by (simp add: NewBaseProcess_def)

lemma api_New_ok:
  "api_New cfg = Inr p \<Longrightarrow>
     api_conf p = cfg \<and> \<not> bp_IsStarted (api_base p) \<and> bp_logFiles (api_base p) = None \<and>
     api_validate cfg = None"
  by (auto simp: api_New_def base_process_of_def bp_IsStarted_def split: option.splits)

lemma api_Start_conf: "api_Start sys p pc w = (r, p', w') \<Longrightarrow> api_conf p' = api_conf p"
  by (auto simp: api_Start_def Let_def split: if_splits prod.splits option.splits sum.splits)


subsection \<open>The files are in place when the process starts\<close>

text \<open>
  \<open>C\<close> reads the contents of the files in the world. A successful write replaces the contents of
  its path, opening a log file empties that path, and neither directories nor keys touch a file.
\<close>

definition write_law :: "('w \<Rightarrow> string \<Rightarrow> string option) \<Rightarrow> 'w os \<Rightarrow> bool" where
  "write_law C sys \<longleftrightarrow>
     (\<forall>p c m w w'. os_write_file sys p c m w = (None, w') \<longrightarrow> C w' = (C w)(p \<mapsto> c)) \<and>
     (\<forall>p m w r w'. os_mkdir_all sys p m w = (r, w') \<longrightarrow> C w' = C w) \<and>
     (\<forall>w r w'. os_ecdsa_key sys w = (r, w') \<longrightarrow> C w' = C w) \<and>
     (\<forall>p w f w'. os_create_file sys p w = (Inr f, w') \<longrightarrow> C w' = (C w)(p \<mapsto> []))"

lemma write_lawD:
  assumes "write_law C sys"
  shows "os_write_file sys p c m w = (None, w') \<Longrightarrow> C w' = (C w)(p \<mapsto> c)"
    and "os_mkdir_all sys p m w = (r, w') \<Longrightarrow> C w' = C w"
    and "os_ecdsa_key sys w = (k, w') \<Longrightarrow> C w' = C w"
    and "os_create_file sys p w = (Inr f, w') \<Longrightarrow> C w' = (C w)(p \<mapsto> [])"
  using assms unfolding write_law_def by blast+

definition files_of :: "string \<Rightarrow> start_files" where
  "files_of dir = \<lparr>tokenFilePath = filepath_Join [dir, ''token.csv''],
     certDir = filepath_Join [dir, ''certs''],
     saKeyPath = filepath_Join [filepath_Join [dir, ''certs''], ''sa.key''],
     authConfigPath = filepath_Join [dir, ''auth-config.yaml'']\<rparr>"

text \<open>What the process finds on disk.\<close>

definition files_ready :: "'w os \<Rightarrow> (string \<Rightarrow> string option) \<Rightarrow> start_files \<Rightarrow> bool" where
  "files_ready sys D f \<longleftrightarrow>
     D (tokenFilePath f) = Some token_csv \<and> D (authConfigPath f) = Some authConfigYAML \<and>
     (\<exists>der. D (saKeyPath f) = Some (os_pem_encode sys der))"

lemma setupCertsAndKeys_content:
  assumes "write_law C sys" and "setupCertsAndKeys sys dir w = (Inr (cd, key), w')"
  shows "cd = certDir (files_of dir) \<and> key = saKeyPath (files_of dir) \<and>
    (\<exists>der. C w' = (C w)(key \<mapsto> os_pem_encode sys der))"
  using assms(2) write_lawD [OF assms(1)]
  by (auto simp: setupCertsAndKeys_def EnsureDir_def files_of_def Let_def
      split: prod.splits option.splits sum.splits if_splits)

lemma start_files_neq:
  "filepath_Join [d, ''token.csv''] \<noteq> filepath_Join [d', ''sa.key'']"
  "filepath_Join [d, ''token.csv''] \<noteq> filepath_Join [d', ''auth-config.yaml'']"
  "filepath_Join [d, ''sa.key''] \<noteq> filepath_Join [d', ''auth-config.yaml'']"
  by (rule filepath_Join_neq; simp add: plain_elem_def)+

lemma prepareFiles_ready:
  assumes "write_law C sys" and "prepareFiles sys dir w = (Inr f, w')"
  shows "f = files_of dir \<and> files_ready sys (C w') (files_of dir)"
proof -
  from assms(2) obtain w1 w2 cd key where
    t: "os_write_file sys (filepath_Join [dir, ''token.csv'']) token_csv 384 w = (None, w1)" and
    c: "setupCertsAndKeys sys dir w1 = (Inr (cd, key), w2)" and
    a: "os_write_file sys (filepath_Join [dir, ''auth-config.yaml'']) authConfigYAML 384 w2 = (None, w')" and
    f: "f = (files_of dir)\<lparr>certDir := cd, saKeyPath := key\<rparr>"
    by (auto simp: prepareFiles_def writeTokenFile_def writeAuthConfig_def files_of_def Let_def
        split: prod.splits option.splits sum.splits)
  from setupCertsAndKeys_content [OF assms(1) c] write_lawD(1) [OF assms(1) t]
    write_lawD(1) [OF assms(1) a] f start_files_neq start_files_neq [symmetric]
  show ?thesis by (auto simp: files_ready_def files_of_def)
qed

lemma log_file_neq:
  assumes "q \<in> {''token.csv'', ''sa.key'', ''auth-config.yaml''}"
    and "l \<in> {''kube-apiserver-stdout.log'', ''kube-apiserver-stderr.log''}"
  shows "filepath_Join [d, q] \<noteq> filepath_Join [d', l]"
  by (rule filepath_Join_neq; use assms in \<open>auto simp: plain_elem_def\<close>)

lemma newLogFiles_content:
  assumes "write_law C sys" and "newLogFiles sys dir ''kube-apiserver'' w = (Inr l, w')"
    and "files_ready sys (C w) (files_of d)"
  shows "files_ready sys (C w') (files_of d)"
proof -
  from assms(2) obtain f1 f2 w1 where
    "os_create_file sys (filepath_Join [dir, ''kube-apiserver-stdout.log'']) w = (Inr f1, w1)"
    "os_create_file sys (filepath_Join [dir, ''kube-apiserver-stderr.log'']) w1 = (Inr f2, w')"
    by (auto simp: newLogFiles_def split: prod.splits sum.splits)
  from this [THEN write_lawD(4) [OF assms(1)]] assms(3) show ?thesis
    by (simp add: files_ready_def files_of_def log_file_neq)
qed


subsection \<open>Properties\<close>

text \<open>C34. When \<^verbatim>\<open>Start\<close> of a new kube-apiserver process succeeds, the process was started with the
  built command line at a moment when the token file, the service account key and the
  authentication config its arguments name were on disk with the contents the code writes.\<close>

theorem api_Start_files_ready:
  assumes "write_law C sys" and "api_New cfg = Inr p" and "api_Start sys p pc w = (None, p', w')"
  shows "\<exists>c pid v. os_cmd_start sys c v = (Inr pid, w') \<and>
     bp_cmd (api_base p') = Some (c\<lparr>cmd_process := Some pid\<rparr>) \<and> cmd_ctx c = pc \<and>
     cmd_args c = ac_Binary cfg # buildArgs cfg (files_of (ac_DataDir cfg)) \<and>
     files_ready sys (C v) (files_of (ac_DataDir cfg))"
proof -
  from assms(2) have p: "api_conf p = cfg" "bp_name (api_base p) = ''kube-apiserver''"
    by (auto simp: api_New_def base_process_of_def split: option.splits)
  from assms(3) obtain f w1 b where
    f: "prepareFiles sys (ac_DataDir cfg) w = (Inr f, w1)" and
    s: "SetupAndStart sys (api_base p) (Some (new_cmd pc (ac_Binary cfg) (buildArgs cfg f)))
          (ac_DataDir cfg) w1 = (None, b, w')" and b: "api_base p' = b"
    by (auto simp: api_Start_def p Let_def split: if_splits prod.splits sum.splits option.splits)
  note ready = prepareFiles_ready [OF assms(1) f]
  from s p(2) obtain l w2 c pid where
    l: "newLogFiles sys (ac_DataDir cfg) ''kube-apiserver'' w1 = (Inr l, w2)" and
    c: "os_cmd_start sys c w2 = (Inr pid, w')" "bp_cmd b = Some (c\<lparr>cmd_process := Some pid\<rparr>)"
       "cmd_ctx c = pc" "cmd_args c = ac_Binary cfg # buildArgs cfg f"
    by (auto simp: SetupAndStart_def startCmd_def configureSysProcAttr_def new_cmd_def Let_def
        split: if_splits prod.splits sum.splits)
  from newLogFiles_content [OF assms(1) l] ready c b show ?thesis by blast
qed

text \<open>The kubeconfig resolves: its current context names a context entry, whose cluster entry
  points at the configured port without TLS verification and whose user entry carries the token of
  the token file.\<close>

theorem api_kubeconfig_resolves:
  "\<exists>cl us. map_of (kc_contexts (api_kubeconfig c)) (kc_currentContext (api_kubeconfig c)) = Some (cl, us) \<and>
     map_of (kc_clusters (api_kubeconfig c)) cl =
       Some (''https://127.0.0.1:'' @ show_int (ac_Port c), True) \<and>
     (\<exists>tok. map_of (kc_authInfos (api_kubeconfig c)) us = Some tok \<and>
        take (length tok) token_csv = tok)"
  by (simp add: api_kubeconfig_def token_csv_def)

subsection \<open>Witnesses\<close>

definition map_disk :: "(string \<rightharpoonup> string) os" where
  "map_disk = quiet_os\<lparr>os_write_file := (\<lambda>p c m w. (None, w(p \<mapsto> c))),
     os_create_file := (\<lambda>p w. (Inr 3, w(p \<mapsto> [])))\<rparr>"

definition sample_api_config :: api_config where
  "sample_api_config = \<lparr>ac_Binary = ''kube-apiserver'', ac_DataDir = ''/d'', ac_Port = 40001,
     ac_EtcdEndpoint = ''http://127.0.0.1:40000'', ac_KubeconfigPath = ''/d/kc'', ac_StopTimeout = 0\<rparr>"

definition sample_api :: api_process where
  "sample_api = \<lparr>api_conf = sample_api_config,
     api_base = sample_base\<lparr>bp_name := ''kube-apiserver''\<rparr>\<rparr>"

theorem api_Start_files_ready_witness:
  "\<exists>p' w' v. api_Start map_disk sample_api 7 Map.empty = (None, p', w') \<and>
     files_ready map_disk v (files_of ''/d'')"
proof -
  have law: "write_law (\<lambda>w. w) map_disk"
    by (auto simp: write_law_def map_disk_def quiet_os_def)
  have new: "api_New sample_api_config = Inr sample_api"
    by (simp add: api_New_def api_validate_def join_errs_def base_process_of_def sample_api_config_def
        sample_api_def sample_base_def)
  obtain p' w' where run: "api_Start map_disk sample_api 7 Map.empty = (None, p', w')"
    by (simp add: api_Start_def prepareFiles_def writeTokenFile_def setupCertsAndKeys_def EnsureDir_def
        writeAuthConfig_def SetupAndStart_def startCmd_def newLogFiles_def bp_IsStarted_def Let_def
        new_cmd_def configureSysProcAttr_def filepath_Join_def filepath_Clean_def sample_api_def
        sample_base_def sample_api_config_def map_disk_def quiet_os_def)
  from api_Start_files_ready [OF law new run] run show ?thesis
    by (auto simp: sample_api_config_def)
qed

end
