(* ===== verification/Kubestack.thy ===== *)
theory Kubestack
  imports Netutil Kine Apiserver
begin

text \<open>
  \<^verbatim>\<open>internal/kubestack/stack.go\<close>: a kine and kube-apiserver pair with its two ports, the concurrent
  start of both with cleanup after a failure, the bounded retry around it, and the stop.
\<close>

subsection \<open>Configuration\<close>

text \<open>The registry is shared by all stacks and passed as state; the configuration only says
  whether the pointer is set.\<close>

record stack_config =
  ks_DataDir :: string
  ks_SQLitePath :: string
  ks_KubeconfigPath :: string
  ks_KineBinary :: string
  ks_APIServerBinary :: string
  ks_CachedDBPath :: string
  ks_KineReadyTimeout :: duration
  ks_APIServerReadyTimeout :: duration
  ks_StopTimeout :: duration
  ks_hasPortRegistry :: bool

record stack =
  st_config :: stack_config
  st_kine :: "kine_process option"
  st_apiserver :: "api_process option"
  st_kinePort :: int
  st_apiPort :: int
  st_started :: bool

definition ks_stopTimeout :: "stack_config \<Rightarrow> duration" where
  "ks_stopTimeout c = ResolveStopTimeout (ks_StopTimeout c)"

definition ks_validate :: "stack_config \<Rightarrow> go_error option" where
  "ks_validate c = join_errs (
     err_if (ks_KineBinary c = '''') (errors_New ''kine binary path must not be empty'') @
     err_if (ks_APIServerBinary c = '''') (errors_New ''api server binary path must not be empty'') @
     err_if (ks_DataDir c = '''') (errors_New ''data dir must not be empty'') @
     err_if (ks_SQLitePath c = '''') (errors_New ''sqlite path must not be empty'') @
     err_if (ks_KubeconfigPath c = '''') (errors_New ''kubeconfig path must not be empty'') @
     err_if (\<not> ks_hasPortRegistry c) (errors_New ''port registry must not be nil'') @
     err_if (ks_KineReadyTimeout c \<le> 0) (errors_New ''kine ready timeout must be positive'') @
     err_if (ks_APIServerReadyTimeout c \<le> 0)
       (errors_New ''api server ready timeout must be positive''))"

definition resolveBinaries :: "'w os \<Rightarrow> stack_config \<Rightarrow> 'w \<Rightarrow> go_error option" where
  "resolveBinaries sys c w = join_errs (
     (case os_look_path sys (ks_KineBinary c) w of
        None \<Rightarrow> [] | Some e \<Rightarrow> [Wrapf ''kine binary not found: %w'' [] e]) @
     (case os_look_path sys (ks_APIServerBinary c) w of
        None \<Rightarrow> [] | Some e \<Rightarrow> [Wrapf ''api server binary not found: %w'' [] e]))"

definition newStack :: "stack_config \<Rightarrow> stack" where
  "newStack cfg = \<lparr>st_config = cfg, st_kine = None, st_apiserver = None, st_kinePort = 0,
     st_apiPort = 0, st_started = False\<rparr>"

subsection \<open>Guards\<close>

definition validateContextPair :: "'w os \<Rightarrow> ctx option \<Rightarrow> ctx option \<Rightarrow> 'w \<Rightarrow> go_error option" where
  "validateContextPair sys processCtx readyCtx w =
     (case processCtx of
        None \<Rightarrow> Some (errors_New ''processCtx must not be nil'')
      | Some pc \<Rightarrow>
          (case os_ctx_err sys pc w of
             Some e \<Rightarrow> Some (Wrapf ''processCtx already canceled: %w'' [] (Std e))
           | None \<Rightarrow>
               (case readyCtx of
                  None \<Rightarrow> Some (errors_New ''readyCtx must not be nil'')
                | Some rc \<Rightarrow>
                    (case os_ctx_err sys rc w of
                       Some e \<Rightarrow> Some (Wrapf ''readyCtx already canceled: %w'' [] (Std e))
                     | None \<Rightarrow>
                         (if pc = rc
                          then Some (errors_New (''processCtx and readyCtx must be different contexts; '' @
                            ''processCtx governs process lifetime, readyCtx governs startup timeout''))
                          else None)))))"

definition validateStartWithRetryArgs ::
  "'w os \<Rightarrow> ctx option \<Rightarrow> ctx option \<Rightarrow> int \<Rightarrow> 'w \<Rightarrow> go_error option" where
  "validateStartWithRetryArgs sys procCtx readyCtx maxRetries w =
     (case validateContextPair sys procCtx readyCtx w of
        Some e \<Rightarrow> Some e
      | None \<Rightarrow>
          (if maxRetries < 1 then Some (Errorf ''maxRetries must be >= 1, got %d'' [ArgInt maxRetries])
           else None))"

definition permanentStartErrors :: "go_error list" where
  "permanentStartErrors =
     [ErrAlreadyStarted, Std OsErrPermission, Std OsErrNotExist, Std ExecErrNotFound, ErrEmptyPath,
      Std CtxCanceled, Std CtxDeadlineExceeded]"

definition isPermanentStartError :: "go_error \<Rightarrow> bool" where
  "isPermanentStartError err = list_ex (errors_Is err) permanentStartErrors"

subsection \<open>Ports, processes and stop\<close>

definition allocatePorts ::
  "'w os \<Rightarrow> stack \<Rightarrow> port_registry \<Rightarrow> 'w \<Rightarrow> go_error option \<times> stack \<times> port_registry \<times> 'w" where
  "allocatePorts sys s r w =
     (case AllocatePortPair sys r w of
        (Inl e, r1, w1) \<Rightarrow> (Some (Wrapf ''allocate ports: %w'' [] e), s, r1, w1)
      | (Inr (kp, ap), r1, w1) \<Rightarrow> (None, s\<lparr>st_kinePort := kp, st_apiPort := ap\<rparr>, r1, w1))"

definition createProcesses :: "'w os \<Rightarrow> stack \<Rightarrow> 'w \<Rightarrow> go_error option \<times> stack \<times> 'w" where
  "createProcesses sys s w =
     (let c = st_config s
      in case kine_New \<lparr>kc_Binary = ks_KineBinary c, kc_DataDir = ks_DataDir c,
                kc_SQLitePath = ks_SQLitePath c, kc_Port = st_kinePort s,
                kc_CachedDBPath = ks_CachedDBPath c, kc_StopTimeout = ks_stopTimeout c\<rparr> of
           Inl e \<Rightarrow> (Some (Wrapf ''create kine process: %w'' [] e), s, w)
         | Inr k \<Rightarrow>
             (let s1 = s\<lparr>st_kine := Some k\<rparr>
              in case api_New \<lparr>ac_Binary = ks_APIServerBinary c, ac_DataDir = ks_DataDir c,
                        ac_Port = st_apiPort s1, ac_EtcdEndpoint = kine_Endpoint k,
                        ac_KubeconfigPath = ks_KubeconfigPath c,
                        ac_StopTimeout = ks_stopTimeout c\<rparr> of
                   Inl e \<Rightarrow> (Some (Wrapf ''create apiserver process: %w'' [] e), s1, w)
                 | Inr a \<Rightarrow>
                     (let s2 = s1\<lparr>st_apiserver := Some a\<rparr>
                      in case WriteKubeconfig sys a w of
                           (Some e, w1) \<Rightarrow> (Some (Wrapf ''write kubeconfig: %w'' [] e), s2, w1)
                         | (None, w1) \<Rightarrow> (None, s2, w1))))"

definition releasePorts :: "stack \<Rightarrow> port_registry \<Rightarrow> stack \<times> port_registry" where
  "releasePorts s r =
     (let (s1, r1) = (if st_kinePort s \<noteq> 0 then (s\<lparr>st_kinePort := 0\<rparr>, Release r (st_kinePort s))
                      else (s, r))
      in if st_apiPort s1 \<noteq> 0 then (s1\<lparr>st_apiPort := 0\<rparr>, Release r1 (st_apiPort s1)) else (s1, r1))"

definition stopProcesses ::
  "'w os \<Rightarrow> stack \<Rightarrow> duration \<Rightarrow> port_registry \<Rightarrow> 'w \<Rightarrow>
   go_error option \<times> stack \<times> port_registry \<times> 'w" where
  "stopProcesses sys s timeout r w =
     (case StopCloseAndNil (api_Stop sys) (api_Close sys) (st_apiserver s) timeout w of
        (e1, a, w1) \<Rightarrow>
          (case StopCloseAndNil (kine_Stop sys) (kine_Close sys) (st_kine s) timeout w1 of
             (e2, k, w2) \<Rightarrow>
               (case releasePorts (s\<lparr>st_apiserver := a, st_kine := k\<rparr>) r of
                  (s1, r1) \<Rightarrow>
                    (errors_Join [map_option (Wrapf ''stop apiserver: %w'' []) e1,
                                  map_option (Wrapf ''stop kine: %w'' []) e2], s1, r1, w2))))"

definition cleanupAfterStartFailure ::
  "'w os \<Rightarrow> stack \<Rightarrow> port_registry \<Rightarrow> 'w \<Rightarrow> stack \<times> port_registry \<times> 'w" where
  "cleanupAfterStartFailure sys s r w =
     snd (stopProcesses sys s (ks_stopTimeout (st_config s)) r w)"

definition stack_Stop ::
  "'w os \<Rightarrow> stack \<Rightarrow> duration \<Rightarrow> port_registry \<Rightarrow> 'w \<Rightarrow>
   go_error option \<times> stack \<times> port_registry \<times> 'w" where
  "stack_Stop sys s timeout r w =
     (if timeout \<le> 0 then (Some (Errorf ''stop timeout must be positive, got %s'' [ArgDur timeout]), s, r, w)
      else if \<not> st_started s then (None, s, r, w)
      else stopProcesses sys (s\<lparr>st_started := False\<rparr>) timeout r w)"

subsection \<open>The concurrent start\<close>

text \<open>
  A goroutine of \<^verbatim>\<open>startAndWaitForReady\<close> makes two blocking calls. \<open>startAndWait\<close> runs it to the
  end of the next one: a task is a function of the phase, the process and the world. The group is
  \<^verbatim>\<open>golang.org/x/sync/errgroup\<close>, a parameter: it gets the readiness context and the two tasks,
  runs them as it likes, and returns the error of \<^verbatim>\<open>g.Wait()\<close> with the final processes.
\<close>

datatype phase = GStart | GWait | GDone "go_error option"

type_synonym ('p, 'w) task = "phase \<Rightarrow> 'p \<Rightarrow> 'w \<Rightarrow> phase \<times> 'p \<times> 'w"
type_synonym ('p, 'q, 'w) errgroup =
  "ctx \<Rightarrow> (ctx \<Rightarrow> ('p, 'w) task) \<Rightarrow> (ctx \<Rightarrow> ('q, 'w) task) \<Rightarrow> 'p \<Rightarrow> 'q \<Rightarrow> 'w \<Rightarrow>
   go_error option \<times> 'p \<times> 'q \<times> 'w"

fun startAndWait ::
  "('p \<Rightarrow> ctx \<Rightarrow> 'w \<Rightarrow> go_error option \<times> 'p \<times> 'w) \<Rightarrow>
   ('p \<Rightarrow> ctx \<Rightarrow> duration \<Rightarrow> 'w \<Rightarrow> go_error option \<times> 'w) \<Rightarrow>
   ctx \<Rightarrow> duration \<Rightarrow> string \<Rightarrow> ctx \<Rightarrow> ('p, 'w) task" where
  "startAndWait start waitReady processCtx timeout name readyCtx GStart p w =
     (case start p processCtx w of
        (Some e, p1, w1) \<Rightarrow> (GDone (Some (Wrapf ''start %s: %w'' [ArgStr name] e)), p1, w1)
      | (None, p1, w1) \<Rightarrow> (GWait, p1, w1))"
| "startAndWait start waitReady processCtx timeout name readyCtx GWait p w =
     (case waitReady p readyCtx timeout w of
        (Some e, w1) \<Rightarrow> (GDone (Some (Wrapf ''%s readiness: %w'' [ArgStr name] e)), p, w1)
      | (None, w1) \<Rightarrow> (GDone None, p, w1))"
| "startAndWait start waitReady processCtx timeout name readyCtx (GDone r) p w = (GDone r, p, w)"

definition startAndWaitForReady ::
  "'w os \<Rightarrow> (kine_process, api_process, 'w) errgroup \<Rightarrow> stack \<Rightarrow> ctx \<Rightarrow> ctx \<Rightarrow>
   kine_process \<Rightarrow> api_process \<Rightarrow> 'w \<Rightarrow> go_error option \<times> stack \<times> 'w" where
  "startAndWaitForReady sys grp s processCtx readyCtx k a w =
     (case grp readyCtx
             (startAndWait (kine_Start sys) (kine_WaitReady sys) processCtx
                (ks_KineReadyTimeout (st_config s)) ''kine'')
             (startAndWait (api_Start sys) (api_WaitReady sys) processCtx
                (ks_APIServerReadyTimeout (st_config s)) ''apiserver'')
             k a w of
        (r, k1, a1, w1) \<Rightarrow>
          (map_option (Wrapf ''start processes: %w'' []) r,
           s\<lparr>st_kine := Some k1, st_apiserver := Some a1\<rparr>, w1))"

text \<open>The part of \<^verbatim>\<open>Start\<close> that runs under the deferred cleanup. After \<open>createProcesses\<close>
  succeeded both pointers are set; a nil one would be dereferenced.\<close>

definition startGuarded ::
  "'w os \<Rightarrow> (kine_process, api_process, 'w) errgroup \<Rightarrow> stack \<Rightarrow> ctx \<Rightarrow> ctx \<Rightarrow>
   port_registry \<Rightarrow> 'w \<Rightarrow> go_error option \<times> stack \<times> port_registry \<times> 'w" where
  "startGuarded sys grp s processCtx readyCtx r w =
     (case createProcesses sys s w of
        (Some e, s1, w1) \<Rightarrow> (Some e, cleanupAfterStartFailure sys s1 r w1)
      | (None, s1, w1) \<Rightarrow>
          (case startAndWaitForReady sys grp s1 processCtx readyCtx
                  (the (st_kine s1)) (the (st_apiserver s1)) w1 of
             (Some e, s2, w2) \<Rightarrow> (Some e, cleanupAfterStartFailure sys s2 r w2)
           | (None, s2, w2) \<Rightarrow> (None, s2\<lparr>st_started := True\<rparr>, r, w2)))"

definition stack_Start ::
  "'w os \<Rightarrow> (kine_process, api_process, 'w) errgroup \<Rightarrow> stack \<Rightarrow> ctx option \<Rightarrow> ctx option \<Rightarrow>
   port_registry \<Rightarrow> 'w \<Rightarrow> go_error option \<times> stack \<times> port_registry \<times> 'w" where
  "stack_Start sys grp s processCtx readyCtx r w =
     (case validateContextPair sys processCtx readyCtx w of
        Some e \<Rightarrow> (Some e, s, r, w)
      | None \<Rightarrow>
          if st_started s then (Some ErrAlreadyStarted, s, r, w)
          else
            (case EnsureDirForFile sys (ks_SQLitePath (st_config s)) w of
               (Some e, w1) \<Rightarrow> (Some (Wrapf ''create db dir: %w'' [] e), s, r, w1)
             | (None, w1) \<Rightarrow>
                 (case allocatePorts sys s r w1 of
                    (Some e, s1, r1, w2) \<Rightarrow> (Some e, s1, r1, w2)
                  | (None, s1, r1, w2) \<Rightarrow>
                      startGuarded sys grp s1 (the processCtx) (the readyCtx) r1 w2)))"

subsection \<open>The retry loop\<close>

text \<open>\<open>n\<close> attempts are left, so the current one has number \<open>maxRetries - n\<close> with the \<open>Suc\<close> removed.\<close>

fun startRetryLoop ::
  "'w os \<Rightarrow> (kine_process, api_process, 'w) errgroup \<Rightarrow> ctx option \<Rightarrow> ctx option \<Rightarrow> stack_config \<Rightarrow>
   int \<Rightarrow> nat \<Rightarrow> go_error option \<Rightarrow> port_registry \<Rightarrow> 'w \<Rightarrow>
   (go_error + stack) \<times> port_registry \<times> 'w" where
  "startRetryLoop sys grp procCtx readyCtx cfg maxRetries 0 lastErr r w =
     (Inl (Wrapf ''start kubestack after %d attempts: %w'' [ArgInt maxRetries] (the lastErr)), r, w)"
| "startRetryLoop sys grp procCtx readyCtx cfg maxRetries (Suc n) lastErr r w =
     (let attempt = maxRetries - int n
      in case os_ctx_err sys (the readyCtx) w of
           Some ce \<Rightarrow>
             (case lastErr of
                Some le \<Rightarrow>
                  (Inl (Joined [Wrapf ''context canceled after %d attempts: %w'' [ArgInt (attempt - 1)] (Std ce),
                                Wrapf ''last attempt error: %w'' [] le]), r, w)
              | None \<Rightarrow> (Inl (Wrapf ''context canceled: %w'' [] (Std ce)), r, w))
         | None \<Rightarrow>
             (case stack_Start sys grp (newStack cfg) procCtx readyCtx r w of
                (Some err, s, r1, w1) \<Rightarrow>
                  (if isPermanentStartError err
                   then (Inl (Wrapf ''permanent start failure (not retried): %w'' [] err), r1, w1)
                   else startRetryLoop sys grp procCtx readyCtx cfg maxRetries n (Some err) r1 w1)
              | (None, s, r1, w1) \<Rightarrow> (Inr s, r1, w1)))"

definition StartWithRetry ::
  "'w os \<Rightarrow> (kine_process, api_process, 'w) errgroup \<Rightarrow> ctx option \<Rightarrow> ctx option \<Rightarrow> stack_config \<Rightarrow>
   int \<Rightarrow> port_registry \<Rightarrow> 'w \<Rightarrow> (go_error + stack) \<times> port_registry \<times> 'w" where
  "StartWithRetry sys grp procCtx readyCtx cfg maxRetries r w =
     (case validateStartWithRetryArgs sys procCtx readyCtx maxRetries w of
        Some e \<Rightarrow> (Inl e, r, w)
      | None \<Rightarrow>
          (case ks_validate cfg of
             Some e \<Rightarrow> (Inl (Wrapf ''invalid kubestack config: %w'' [] e), r, w)
           | None \<Rightarrow>
               (case resolveBinaries sys cfg w of
                  Some e \<Rightarrow> (Inl (Wrapf ''invalid kubestack config: %w'' [] e), r, w)
                | None \<Rightarrow>
                    startRetryLoop sys grp procCtx readyCtx cfg maxRetries (nat maxRetries) None r w)))"


subsection \<open>The interface startable\<close>

text \<open>Past its first call a task that has not failed runs; a task that ends without error saw a
  successful readiness wait of the process it leaves.\<close>

definition task_inv ::
  "('p \<Rightarrow> ctx \<Rightarrow> duration \<Rightarrow> 'w \<Rightarrow> go_error option \<times> 'w) \<Rightarrow> ('p \<Rightarrow> bool) \<Rightarrow> ('p \<Rightarrow> 'c) \<Rightarrow>
   'c \<Rightarrow> ctx \<Rightarrow> duration \<Rightarrow> phase \<Rightarrow> 'p \<Rightarrow> bool" where
  "task_inv waitReady live conf cf g t ph p \<longleftrightarrow> conf p = cf \<and> (ph = GWait \<longrightarrow> live p) \<and>
     (ph = GDone None \<longrightarrow> live p \<and> (\<exists>v v'. waitReady p g t v = (None, v')))"

text \<open>
  What \<^verbatim>\<open>startAndWait\<close> needs of a process: starting keeps its configuration, and after a start
  that returned nil the process runs.
\<close>

locale startable =
  fixes start :: "'p \<Rightarrow> ctx \<Rightarrow> 'w \<Rightarrow> go_error option \<times> 'p \<times> 'w"
    and waitReady :: "'p \<Rightarrow> ctx \<Rightarrow> duration \<Rightarrow> 'w \<Rightarrow> go_error option \<times> 'w"
    and live :: "'p \<Rightarrow> bool"
    and conf :: "'p \<Rightarrow> 'c"
  assumes start_live: "start p c w = (None, p', w') \<Longrightarrow> live p'"
    and start_conf: "start p c w = (r, p', w') \<Longrightarrow> conf p' = conf p"
begin

lemma task_inv_init: "task_inv waitReady live conf (conf p) g t GStart p"
  by (simp add: task_inv_def)

lemma task_inv_step:
  assumes "task_inv waitReady live conf cf g t ph p" and "startAndWait start waitReady pc t name g ph p w = (ph', p', w')"
  shows "task_inv waitReady live conf cf g t ph' p'"
  using assms by (cases ph)
    (auto simp: task_inv_def split: prod.splits option.splits dest: start_live start_conf)

end

lemma SetupAndStart_live: "SetupAndStart sys b cp dir w = (None, b', w') \<Longrightarrow> bp_IsStarted b'"
  by (auto simp: SetupAndStart_def startCmd_def bp_IsStarted_def Let_def
      split: option.splits if_splits prod.splits sum.splits)

interpretation kine_start: startable "kine_Start sys" "kine_WaitReady sys"
    "\<lambda>p. bp_IsStarted (kine_base p)" kine_conf for sys
  by unfold_locales
    (auto simp: kine_Start_def dest: SetupAndStart_live
      split: if_splits prod.splits option.splits)

interpretation api_start: startable "api_Start sys" "api_WaitReady sys"
    "\<lambda>p. bp_IsStarted (api_base p)" api_conf for sys
  by unfold_locales
    (auto simp: api_Start_def Let_def dest: SetupAndStart_live
      split: if_splits prod.splits option.splits sum.splits)

subsection \<open>The contract of errgroup\<close>

text \<open>
  \<^verbatim>\<open>Wait\<close> returns when both functions have returned, with the first non-nil error. The two run in
  any order, call by call, and anything may happen in the world between two calls (the context of
  the group is cancelled at the first error, for one).
\<close>

definition first_err :: "go_error option \<Rightarrow> phase \<Rightarrow> go_error option" where
  "first_err err ph = (case err of Some e \<Rightarrow> Some e | None \<Rightarrow> (case ph of GDone r \<Rightarrow> r | _ \<Rightarrow> None))"

inductive group_run ::
  "('p, 'w) task \<Rightarrow> ('q, 'w) task \<Rightarrow> phase \<Rightarrow> 'p \<Rightarrow> phase \<Rightarrow> 'q \<Rightarrow> go_error option \<Rightarrow>
   go_error option \<Rightarrow> 'p \<Rightarrow> 'q \<Rightarrow> bool"
  for t1 t2 where
  group_wait: "group_run t1 t2 (GDone r1) p (GDone r2) q err err p q"
| group_left: "ph1 \<in> {GStart, GWait} \<Longrightarrow> t1 ph1 p w = (ph1', p1, w1) \<Longrightarrow>
    group_run t1 t2 ph1' p1 ph2 q (first_err err ph1') r p' q' \<Longrightarrow>
    group_run t1 t2 ph1 p ph2 q err r p' q'"
| group_right: "ph2 \<in> {GStart, GWait} \<Longrightarrow> t2 ph2 q w = (ph2', q1, w1) \<Longrightarrow>
    group_run t1 t2 ph1 p ph2' q1 (first_err err ph2') r p' q' \<Longrightarrow>
    group_run t1 t2 ph1 p ph2 q err r p' q'"

text \<open>The functions given to the group return: after at most two calls they are done.\<close>

definition two_calls :: "('p, 'w) task \<Rightarrow> bool" where
  "two_calls t \<longleftrightarrow> (\<forall>p w. fst (t GStart p w) \<noteq> GStart) \<and> (\<forall>p w. \<exists>r. fst (t GWait p w) = GDone r)"

lemma two_calls_startAndWait: "two_calls (startAndWait start waitReady pc t name g)"
  by (auto simp: two_calls_def split: prod.splits option.splits)

definition group_law :: "('p, 'q, 'w) errgroup \<Rightarrow> bool" where
  "group_law grp \<longleftrightarrow>
     (\<forall>c t1 t2 p q w r p' q' w'.
        (\<forall>g. two_calls (t1 g) \<and> two_calls (t2 g)) \<and> grp c t1 t2 p q w = (r, p', q', w') \<longrightarrow>
        (\<exists>g. group_run (t1 g) (t2 g) GStart p GStart q None r p' q'))"

lemma group_run_inv:
  assumes "group_run t1 t2 ph1 p ph2 q err r p' q'"
    and "P ph1 p" and "Q ph2 q"
    and "\<And>ph p w ph' p' w'. P ph p \<Longrightarrow> t1 ph p w = (ph', p', w') \<Longrightarrow> P ph' p'"
    and "\<And>ph q w ph' q' w'. Q ph q \<Longrightarrow> t2 ph q w = (ph', q', w') \<Longrightarrow> Q ph' q'"
    and "\<And>e. err = None \<Longrightarrow> ph1 \<noteq> GDone (Some e) \<and> ph2 \<noteq> GDone (Some e)"
  shows "\<exists>r1 r2. P (GDone r1) p' \<and> Q (GDone r2) q' \<and> (r = None \<longrightarrow> r1 = None \<and> r2 = None)"
  using assms
proof (induction rule: group_run.induct)
  case (group_wait r1 p r2 q err)
  then show ?case by (metis not_Some_eq)
next
  case (group_left ph1 p w ph1' p1 w1 ph2 q err r p' q')
  show ?case
    by (rule group_left.IH)
      (use group_left.prems group_left.hyps(2) in \<open>auto simp: first_err_def split: option.splits\<close>)
next
  case (group_right ph2 q w ph2' q1 w1 ph1 p err r p' q')
  show ?case
    by (rule group_right.IH)
      (use group_right.prems group_right.hyps(2) in \<open>auto simp: first_err_def split: option.splits\<close>)
qed

text \<open>A sequential group, for the witnesses: it runs the first task, then the second.\<close>

definition run_task :: "('p, 'w) task \<Rightarrow> 'p \<Rightarrow> 'w \<Rightarrow> go_error option \<times> 'p \<times> 'w" where
  "run_task t p w =
     (case t GStart p w of
        (GDone r, p1, w1) \<Rightarrow> (r, p1, w1)
      | (ph, p1, w1) \<Rightarrow>
          (case t ph p1 w1 of
             (GDone r, p2, w2) \<Rightarrow> (r, p2, w2)
           | (_, p2, w2) \<Rightarrow> (None, p2, w2)))"

definition seq_group :: "('p, 'q, 'w) errgroup" where
  "seq_group c t1 t2 p q w =
     (case run_task (t1 c) p w of (r1, p1, w1) \<Rightarrow>
        (case run_task (t2 c) q w1 of (r2, q1, w2) \<Rightarrow>
           (case r1 of Some e \<Rightarrow> (Some e, p1, q1, w2) | None \<Rightarrow> (r2, p1, q1, w2))))"


text \<open>Two calls of the first task, then two of the second, are a run of the group.\<close>

lemma run_task_left:
  assumes "two_calls t1" and "run_task t1 p w = (r1, p1, w1)"
    and "group_run t1 t2 (GDone r1) p1 ph q (first_err err (GDone r1)) r p' q'"
  shows "group_run t1 t2 GStart p ph q err r p' q'"
proof -
  obtain ph1 p2 w2 where s: "t1 GStart p w = (ph1, p2, w2)" by (metis prod_cases3)
  obtain ph3 p3 w3 where u: "t1 GWait p2 w2 = (ph3, p3, w3)" by (metis prod_cases3)
  have ends: "ph1 \<noteq> GStart" "\<exists>r. ph3 = GDone r"
    using assms(1) s u unfolding two_calls_def by (metis fst_conv)+
  show ?thesis
  proof (cases ph1)
    case (GDone r)
    with s assms(2,3) show ?thesis by (auto simp: run_task_def intro: group_left [of GStart t1 p w, OF _ s])
  next
    case GWait
    have "group_run t1 t2 GWait p2 ph q (first_err err GWait) r p' q'"
      using GWait s u ends(2) assms(2,3)
      by (auto simp: run_task_def first_err_def split: option.splits intro!: group_left [of GWait t1 p2 w2, OF _ u])
    with GWait s show ?thesis by (auto intro!: group_left [of GStart t1 p w, OF _ s])
  qed (use ends in simp)
qed

lemma run_task_right:
  assumes "two_calls t2" and "run_task t2 q w = (r2, q1, w1)"
    and "group_run t1 t2 ph p (GDone r2) q1 (first_err err (GDone r2)) r p' q'"
  shows "group_run t1 t2 ph p GStart q err r p' q'"
proof -
  obtain ph1 p2 w2 where s: "t2 GStart q w = (ph1, p2, w2)" by (metis prod_cases3)
  obtain ph3 p3 w3 where u: "t2 GWait p2 w2 = (ph3, p3, w3)" by (metis prod_cases3)
  have ends: "ph1 \<noteq> GStart" "\<exists>r. ph3 = GDone r"
    using assms(1) s u unfolding two_calls_def by (metis fst_conv)+
  show ?thesis
  proof (cases ph1)
    case (GDone r)
    with s assms(2,3) show ?thesis by (auto simp: run_task_def intro: group_right [of GStart t2 q w, OF _ s])
  next
    case GWait
    have "group_run t1 t2 ph p GWait p2 (first_err err GWait) r p' q'"
      using GWait s u ends(2) assms(2,3)
      by (auto simp: run_task_def first_err_def split: option.splits intro!: group_right [of GWait t2 p2 w2, OF _ u])
    with GWait s show ?thesis by (auto intro!: group_right [of GStart t2 q w, OF _ s])
  qed (use ends in simp)
qed

lemma seq_group_law: "group_law (seq_group :: ('p, 'q, 'w) errgroup)"
proof -
  have "group_run (t1 c) (t2 c) GStart p GStart q None r p' q'"
    if ok: "\<forall>g. two_calls (t1 g) \<and> two_calls (t2 g)" and run: "seq_group c t1 t2 p q w = (r, p', q', w')"
    for c t1 t2 r and w w' :: 'w and p p' :: 'p and q q' :: 'q
  proof -
    obtain r1 p1 w1 where a: "run_task (t1 c) p w = (r1, p1, w1)" by (metis prod_cases3)
    obtain r2 q1 w2 where b: "run_task (t2 c) q w1 = (r2, q1, w2)" by (metis prod_cases3)
    have fin: "p' = p1" "q' = q1" "r = first_err (first_err None (GDone r1)) (GDone r2)"
      using run a b by (auto simp: seq_group_def first_err_def split: option.splits)
    show ?thesis unfolding fin
      by (rule run_task_left [OF _ a], use ok in simp)
        (rule run_task_right [OF _ b], use ok in simp, rule group_wait)
  qed
  then show ?thesis unfolding group_law_def by blast
qed


subsection \<open>Ports of a stack\<close>

text \<open>The kernel never hands out port 0, which the stack uses for "no port".\<close>

definition net_law :: "'w os \<Rightarrow> bool" where
  "net_law sys \<longleftrightarrow> (\<forall>w p w'. os_net_listen sys w = (Inr (TCPAddr p), w') \<longrightarrow> p \<noteq> 0)"

lemma tryAllocate_nonzero:
  "net_law sys \<Longrightarrow> tryAllocate sys r w = (Inr (Some p), r', w') \<Longrightarrow> p \<noteq> 0"
  by (auto simp: net_law_def tryAllocate_def split: prod.splits sum.splits net_addr.splits option.splits
      bool.splits)

lemma allocateLoop_nonzero:
  "net_law sys \<Longrightarrow> allocateLoop sys n r w = (Inr (Some p), r', w') \<Longrightarrow> p \<noteq> 0"
  by (induction n arbitrary: r w)
    (auto split: prod.splits sum.splits option.splits dest: tryAllocate_nonzero)

lemma allocatePort_nonzero: "net_law sys \<Longrightarrow> allocatePort sys r w = (Inr p, r', w') \<Longrightarrow> p \<noteq> 0"
  by (auto simp: allocatePort_def split: prod.splits sum.splits option.splits dest: allocateLoop_nonzero)

lemma AllocatePortPair_nonzero:
  "net_law sys \<Longrightarrow> AllocatePortPair sys r w = (Inr (p, q), r', w') \<Longrightarrow> p \<noteq> 0 \<and> q \<noteq> 0"
  by (auto simp: AllocatePortPair_def split: prod.splits sum.splits dest: allocatePort_nonzero)

lemma releasePorts_eq:
  "releasePorts s r =
     (s\<lparr>st_kinePort := 0, st_apiPort := 0\<rparr>,
      (let r1 = if st_kinePort s = 0 then r else Release r (st_kinePort s)
       in if st_apiPort s = 0 then r1 else Release r1 (st_apiPort s)))"
  by (simp add: releasePorts_def Let_def)

lemma StopCloseAndNil_None: "StopCloseAndNil stop close p t w = (e, p', w') \<Longrightarrow> p' = None"
  by (auto simp: StopCloseAndNil_def split: option.splits prod.splits)

lemma stopProcesses_stack:
  "stopProcesses sys s t r w = (e, s', r', w') \<Longrightarrow>
     s' = s\<lparr>st_kine := None, st_apiserver := None, st_kinePort := 0, st_apiPort := 0\<rparr> \<and>
     r' = snd (releasePorts s r)"
  by (auto simp: stopProcesses_def releasePorts_eq split: prod.splits dest!: StopCloseAndNil_None)

lemma createProcesses_ports:
  "createProcesses sys s w = (e, s', w') \<Longrightarrow>
     st_kinePort s' = st_kinePort s \<and> st_apiPort s' = st_apiPort s \<and> st_config s' = st_config s \<and>
     st_started s' = st_started s"
  by (auto simp: createProcesses_def Let_def split: sum.splits prod.splits option.splits)

lemma startAndWaitForReady_ports:
  "startAndWaitForReady sys grp s pc rc k a w = (e, s', w') \<Longrightarrow>
     st_kinePort s' = st_kinePort s \<and> st_apiPort s' = st_apiPort s \<and> st_config s' = st_config s \<and>
     st_started s' = st_started s"
  by (auto simp: startAndWaitForReady_def split: prod.splits)

lemma cleanup_releases:
  assumes "cleanupAfterStartFailure sys s r1 w = (s', r', w')"
    and "AllocatePortPair sys' r v = (Inr (st_kinePort s, st_apiPort s), r1, v')"
    and "net_law sys'"
  shows "r' = r \<and> st_kine s' = None \<and> st_apiserver s' = None \<and> st_kinePort s' = 0 \<and>
    st_apiPort s' = 0 \<and> st_started s' = st_started s \<and> st_config s' = st_config s"
proof -
  obtain e where "stopProcesses sys s (ks_stopTimeout (st_config s)) r1 w = (e, s', r', w')"
    using assms(1) by (cases "stopProcesses sys s (ks_stopTimeout (st_config s)) r1 w")
      (simp add: cleanupAfterStartFailure_def)
  from stopProcesses_stack [OF this] preg.release_pair [OF assms(2)]
    AllocatePortPair_nonzero [OF assms(3,2)] show ?thesis
    by (simp add: releasePorts_eq)
qed


subsection \<open>What a start leaves behind\<close>

definition stack_idle :: "stack \<Rightarrow> bool" where
  "stack_idle s \<longleftrightarrow> \<not> st_started s \<and> st_kine s = None \<and> st_apiserver s = None \<and>
     st_kinePort s = 0 \<and> st_apiPort s = 0"

text \<open>Both processes run on the stack's ports, the apiserver talks to this kine, and each of them
  answered its readiness probe.\<close>

definition stack_running :: "'w os \<Rightarrow> stack \<Rightarrow> bool" where
  "stack_running sys s \<longleftrightarrow> st_started s \<and>
     (\<exists>k a g. st_kine s = Some k \<and> st_apiserver s = Some a \<and>
        bp_IsStarted (kine_base k) \<and> bp_IsStarted (api_base a) \<and>
        kc_Port (kine_conf k) = st_kinePort s \<and> ac_Port (api_conf a) = st_apiPort s \<and>
        ac_EtcdEndpoint (api_conf a) = kine_Endpoint k \<and>
        (\<exists>v v'. kine_WaitReady sys k g (ks_KineReadyTimeout (st_config s)) v = (None, v')) \<and>
        (\<exists>v v'. api_WaitReady sys a g (ks_APIServerReadyTimeout (st_config s)) v = (None, v')))"

lemma newStack_idle: "stack_idle (newStack cfg)"
  by (simp add: stack_idle_def newStack_def)

lemma startGuarded_error:
  assumes "startGuarded sys grp s pc rc r w = (Some e, s', r', w')"
  shows "\<exists>s1 w1. cleanupAfterStartFailure sys s1 r w1 = (s', r', w') \<and>
    st_kinePort s1 = st_kinePort s \<and> st_apiPort s1 = st_apiPort s \<and>
    st_config s1 = st_config s \<and> st_started s1 = st_started s"
proof -
  obtain e1 s1 w1 where c: "createProcesses sys s w = (e1, s1, w1)" by (metis prod_cases3)
  obtain e2 s2 w2 where g: "startAndWaitForReady sys grp s1 pc rc (the (st_kine s1))
      (the (st_apiserver s1)) w1 = (e2, s2, w2)" by (metis prod_cases3)
  show ?thesis
  proof (cases e1)
    case None
    with assms c g have "cleanupAfterStartFailure sys s2 r w2 = (s', r', w')"
      by (auto simp: startGuarded_def split: option.splits)
    with createProcesses_ports [OF c] startAndWaitForReady_ports [OF g] show ?thesis by auto
  next
    case (Some x)
    with assms c have "cleanupAfterStartFailure sys s1 r w1 = (s', r', w')"
      by (auto simp: startGuarded_def)
    with createProcesses_ports [OF c] show ?thesis by auto
  qed
qed

text \<open>Where a \<^verbatim>\<open>Start\<close> can end: before the ports were allocated, or in the guarded part.\<close>

lemma stack_Start_cases:
  assumes "stack_Start sys grp s pc rc r w = (res, s', r', w')"
  obtains (early) "res \<noteq> None" "r' = r" "s' = s"
  | (guarded) p q r1 v v' where "AllocatePortPair sys r v = (Inr (p, q), r1, v')"
      "startGuarded sys grp (s\<lparr>st_kinePort := p, st_apiPort := q\<rparr>) (the pc) (the rc) r1 v' =
         (res, s', r', w')" "\<not> st_started s"
  using assms
  by (auto simp: stack_Start_def allocatePorts_def split: option.splits if_splits prod.splits sum.splits
      dest!: AllocatePortPair_error) metis

lemma stack_Start_error:
  assumes "net_law sys" and "stack_idle s" and "stack_Start sys grp s pc rc r w = (Some e, s', r', w')"
  shows "r' = r \<and> stack_idle s' \<and> st_config s' = st_config s"
  using assms(3)
proof (cases rule: stack_Start_cases)
  case (guarded p q r1 v v')
  from startGuarded_error [OF guarded(2)] obtain s1 w1 where
    "cleanupAfterStartFailure sys s1 r1 w1 = (s', r', w')" "st_kinePort s1 = p" "st_apiPort s1 = q"
    "st_config s1 = st_config s" "st_started s1 = st_started s" by auto
  with cleanup_releases [OF this(1) _ assms(1)] guarded(1,3) show ?thesis
    by (auto simp: stack_idle_def)
qed (use assms(2) in simp)


lemma createProcesses_ok:
  assumes "createProcesses sys s w = (None, s', w')"
  shows "\<exists>k a. s' = s\<lparr>st_kine := Some k, st_apiserver := Some a\<rparr> \<and>
    kc_Port (kine_conf k) = st_kinePort s \<and> ac_Port (api_conf a) = st_apiPort s \<and>
    ac_EtcdEndpoint (api_conf a) = kine_Endpoint k"
  using assms
  by (auto simp: createProcesses_def Let_def split: sum.splits prod.splits option.splits
      dest!: kine_New_ok api_New_ok) (metis api_config.select_convs(3,4) kine_config.select_convs(4))

lemma kine_Endpoint_conf: "kine_conf k = kine_conf k' \<Longrightarrow> kine_Endpoint k = kine_Endpoint k'"
  by (simp add: kine_Endpoint_def)

lemma startAndWaitForReady_ok:
  assumes "group_law grp" and "startAndWaitForReady sys grp s pc rc k a w = (None, s', w')"
  shows "\<exists>k' a' g. s' = s\<lparr>st_kine := Some k', st_apiserver := Some a'\<rparr> \<and>
    kine_conf k' = kine_conf k \<and> api_conf a' = api_conf a \<and>
    bp_IsStarted (kine_base k') \<and> bp_IsStarted (api_base a') \<and>
    (\<exists>v v'. kine_WaitReady sys k' g (ks_KineReadyTimeout (st_config s)) v = (None, v')) \<and>
    (\<exists>v v'. api_WaitReady sys a' g (ks_APIServerReadyTimeout (st_config s)) v = (None, v'))"
proof -
  let ?tk = "startAndWait (kine_Start sys) (kine_WaitReady sys) pc (ks_KineReadyTimeout (st_config s)) ''kine''"
  let ?ta = "startAndWait (api_Start sys) (api_WaitReady sys) pc (ks_APIServerReadyTimeout (st_config s)) ''apiserver''"
  from assms(2) obtain k' a' where s': "s' = s\<lparr>st_kine := Some k', st_apiserver := Some a'\<rparr>"
    and "grp rc ?tk ?ta k a w = (None, k', a', w')"
    by (auto simp: startAndWaitForReady_def split: prod.splits)
  with assms(1) obtain g where run: "group_run (?tk g) (?ta g) GStart k GStart a None None k' a'"
    unfolding group_law_def using two_calls_startAndWait by metis
  let ?P = "task_inv (kine_WaitReady sys) (\<lambda>p. bp_IsStarted (kine_base p)) kine_conf (kine_conf k) g
    (ks_KineReadyTimeout (st_config s))"
  let ?Q = "task_inv (api_WaitReady sys) (\<lambda>p. bp_IsStarted (api_base p)) api_conf (api_conf a) g
    (ks_APIServerReadyTimeout (st_config s))"
  have "\<exists>r1 r2. ?P (GDone r1) k' \<and> ?Q (GDone r2) a' \<and>
      ((None :: go_error option) = None \<longrightarrow> r1 = None \<and> r2 = None)"
    by (rule group_run_inv [OF run])
      (blast intro: kine_start.task_inv_init api_start.task_inv_init kine_start.task_inv_step
        api_start.task_inv_step phase.distinct)+
  then have "?P (GDone None) k'" "?Q (GDone None) a'" by auto
  with s' show ?thesis unfolding task_inv_def by blast
qed

lemma stack_Start_ok:
  assumes "group_law grp" and "net_law sys" and "stack_Start sys grp s pc rc r w = (None, s', r', w')"
  shows "stack_running sys s' \<and> st_config s' = st_config s \<and>
    st_kinePort s' \<noteq> 0 \<and> st_apiPort s' \<noteq> 0 \<and>
    (\<exists>v v'. AllocatePortPair sys r v = (Inr (st_kinePort s', st_apiPort s'), r', v'))"
  using assms(3)
proof (cases rule: stack_Start_cases)
  case (guarded p q r1 v v')
  let ?s = "s\<lparr>st_kinePort := p, st_apiPort := q\<rparr>"
  from guarded(2) obtain s1 w1 s2 where
    c: "createProcesses sys ?s v' = (None, s1, w1)" and
    g: "startAndWaitForReady sys grp s1 (the pc) (the rc) (the (st_kine s1)) (the (st_apiserver s1)) w1 =
          (None, s2, w')" and
    s': "s' = s2\<lparr>st_started := True\<rparr>" "r' = r1"
    by (auto simp: startGuarded_def split: prod.splits option.splits)
  from createProcesses_ok [OF c] obtain k a where s1:
      "s1 = ?s\<lparr>st_kine := Some k, st_apiserver := Some a\<rparr>" "kc_Port (kine_conf k) = p"
      "ac_Port (api_conf a) = q" "ac_EtcdEndpoint (api_conf a) = kine_Endpoint k" by auto
  have "the (st_kine s1) = k" "the (st_apiserver s1) = a" "st_config s1 = st_config s"
    by (simp_all add: s1(1))
  from startAndWaitForReady_ok [OF assms(1) g, unfolded this] obtain k' a' d where r:
      "s2 = s1\<lparr>st_kine := Some k', st_apiserver := Some a'\<rparr>"
      "kine_conf k' = kine_conf k" "api_conf a' = api_conf a"
      "bp_IsStarted (kine_base k')" "bp_IsStarted (api_base a')"
      "\<exists>v v'. kine_WaitReady sys k' d (ks_KineReadyTimeout (st_config s)) v = (None, v')"
      "\<exists>v v'. api_WaitReady sys a' d (ks_APIServerReadyTimeout (st_config s)) v = (None, v')"
    by blast
  have "kine_Endpoint k' = kine_Endpoint k" using r(2) by (rule kine_Endpoint_conf)
  with s' s1 r have "stack_running sys s'"
    unfolding stack_running_def by (intro conjI exI [of _ k'] exI [of _ a'] exI [of _ d]) simp_all
  with s' s1 r have
    "stack_running sys s' \<and> st_config s' = st_config s \<and> st_kinePort s' = p \<and> st_apiPort s' = q"
    by simp
  with guarded(1) s' AllocatePortPair_nonzero [OF assms(2) guarded(1)] show ?thesis by auto
qed simp


subsection \<open>The retry loop\<close>

lemma startRetryLoop_error:
  "net_law sys \<Longrightarrow> startRetryLoop sys grp pc rc cfg m n le r w = (Inl e, r', w') \<Longrightarrow> r' = r"
proof (induction n arbitrary: le r w)
  case (Suc n)
  obtain res s1 r1 w1 where s: "stack_Start sys grp (newStack cfg) pc rc r w = (res, s1, r1, w1)"
    by (metis prod_cases4)
  have "r1 = r" if "res = Some x" for x
    using stack_Start_error [OF Suc.prems(1) newStack_idle, of grp cfg pc rc r w x s1 r1 w1] s that by simp
  with Suc s show ?case by (auto simp: Let_def split: option.splits if_splits)
qed simp

lemma startRetryLoop_ok:
  assumes "net_law sys"
  shows "startRetryLoop sys grp pc rc cfg m n le r w = (Inr s, r', w') \<Longrightarrow>
    \<exists>v. stack_Start sys grp (newStack cfg) pc rc r v = (None, s, r', w')"
proof (induction n arbitrary: le w)
  case (Suc n)
  obtain res s1 r1 w1 where s: "stack_Start sys grp (newStack cfg) pc rc r w = (res, s1, r1, w1)"
    by (metis prod_cases4)
  have "r1 = r" if "res = Some x" for x
    using stack_Start_error [OF assms newStack_idle, of grp cfg pc rc r w x s1 r1 w1] s that by simp
  with Suc s show ?case by (auto simp: Let_def split: option.splits if_splits)
qed simp

text \<open>\<open>clk\<close> measures any cost of an attempt, such as the time it takes.\<close>

definition attempt_cost :: "('w \<Rightarrow> int) \<Rightarrow> 'w os \<Rightarrow> (kine_process, api_process, 'w) errgroup \<Rightarrow> int \<Rightarrow> bool" where
  "attempt_cost clk sys grp B \<longleftrightarrow> 0 \<le> B \<and>
     (\<forall>s pc rc r w e s' r' w'. stack_Start sys grp s pc rc r w = (e, s', r', w') \<longrightarrow> clk w' \<le> clk w + B)"

lemma startRetryLoop_cost:
  assumes "attempt_cost clk sys grp B"
  shows "startRetryLoop sys grp pc rc cfg m n le r w = (res, r', w') \<Longrightarrow> clk w' \<le> clk w + int n * B"
proof (induction n arbitrary: le r w)
  case (Suc n)
  from assms have B: "0 \<le> B" by (simp add: attempt_cost_def)
  obtain e s1 r1 w1 where s: "stack_Start sys grp (newStack cfg) pc rc r w = (e, s1, r1, w1)"
    by (metis prod_cases4)
  with assms have w1: "clk w1 \<le> clk w + B" unfolding attempt_cost_def by blast
  have n: "0 \<le> int n * B" using B by simp
  consider "w' = w" | "w' = w1"
    | le' where "startRetryLoop sys grp pc rc cfg m n le' r1 w1 = (res, r', w')"
    using Suc.prems s by (auto simp: Let_def split: option.splits if_splits)
  then have "clk w' \<le> clk w + B + int n * B"
  proof cases
    case 1
    show ?thesis unfolding 1 using B n by linarith
  next
    case 2
    show ?thesis unfolding 2 using w1 n by linarith
  next
    case 3
    from Suc.IH [OF this] w1 show ?thesis by linarith
  qed
  then show ?case by (simp add: algebra_simps)
qed simp

lemma StartWithRetry_loop:
  assumes "StartWithRetry sys grp pc rc cfg m r w = (res, r', w')"
  obtains (guard) e where "res = Inl e" "r' = r" "w' = w"
  | (loop) "1 \<le> m" "ks_validate cfg = None"
      "startRetryLoop sys grp pc rc cfg m (nat m) None r w = (res, r', w')"
  using assms
  by (auto simp: StartWithRetry_def validateStartWithRetryArgs_def split: option.splits if_splits)

lemma StartWithRetry_error:
  assumes "net_law sys" and "StartWithRetry sys grp pc rc cfg m r w = (Inl e, r', w')"
  shows "r' = r"
  using assms(2)
  by (cases rule: StartWithRetry_loop) (auto intro: startRetryLoop_error [OF assms(1)])

lemma StartWithRetry_ok:
  assumes "net_law sys" and "StartWithRetry sys grp pc rc cfg m r w = (Inr s, r', w')"
  shows "\<exists>v. stack_Start sys grp (newStack cfg) pc rc r v = (None, s, r', w')"
  using assms(2)
  by (cases rule: StartWithRetry_loop) (auto dest: startRetryLoop_ok [OF assms(1)])

text \<open>What a client of the stack relies on once it is started.\<close>

definition stack_up :: "stack \<Rightarrow> bool" where
  "stack_up s \<longleftrightarrow> st_started s \<and> st_kinePort s \<noteq> 0 \<and> st_apiPort s \<noteq> 0"

lemma stack_Start_up:
  assumes "group_law grp" and "net_law sys" and "stack_Start sys grp s pc rc r w = (None, s', r', w')"
  shows "stack_up s'"
  using stack_Start_ok [OF assms] by (simp add: stack_up_def stack_running_def)

lemma stack_Stop_up:
  assumes "stack_up s" and "0 < t" and "stack_Stop sys s t r w = (e, s', r', w')"
  shows "stack_idle s' \<and> r' = Release (Release r (st_kinePort s)) (st_apiPort s)"
proof -
  have "stopProcesses sys (s\<lparr>st_started := False\<rparr>) t r w = (e, s', r', w')"
    using assms by (simp add: stack_Stop_def stack_up_def)
  from stopProcesses_stack [OF this] assms(1) show ?thesis
    by (auto simp: stack_idle_def stack_up_def releasePorts_eq)
qed

subsection \<open>Properties\<close>

text \<open>C30. \<^verbatim>\<open>StartWithRetry\<close> leaks no port: whatever the error and on whichever attempt, every port
  reserved by a failed attempt is back in the registry when it returns.\<close>

theorem StartWithRetry_no_leak:
  assumes "net_law sys" and "StartWithRetry sys grp pc rc cfg m r w = (Inl e, r', w')"
  shows "r' = r"
  using assms by (rule StartWithRetry_error)

text \<open>C31. A stack returned by \<^verbatim>\<open>StartWithRetry\<close> runs: both processes are started on two distinct
  ports that were free in the registry and are the only new entries in it, the apiserver is
  configured with this kine's endpoint, and each process answered its readiness probe.\<close>

theorem StartWithRetry_running:
  assumes "group_law grp" and "net_law sys"
    and "StartWithRetry sys grp pc rc cfg m r w = (Inr s, r', w')"
  shows "stack_running sys s \<and> st_config s = cfg \<and> st_kinePort s \<noteq> st_apiPort s \<and>
    st_kinePort s \<notin> ports r \<and> st_apiPort s \<notin> ports r \<and>
    ports r' = insert (st_kinePort s) (insert (st_apiPort s) (ports r))"
proof -
  from StartWithRetry_ok [OF assms(2,3)] obtain v where
    "stack_Start sys grp (newStack cfg) pc rc r v = (None, s, r', w')" by blast
  from stack_Start_ok [OF assms(1,2) this] show ?thesis
    by (auto simp: newStack_def dest: preg.alloc_ok)
qed

text \<open>Stopping a started stack, even when the processes resist and an error is returned, clears
  both process pointers, takes exactly its two ports out of the registry as it is then, and makes
  the next \<^verbatim>\<open>Stop\<close> a no-op.\<close>

theorem stack_Stop_releases:
  assumes "group_law grp" and "net_law sys"
    and "stack_Start sys grp s0 pc rc r0 w0 = (None, s, r1, w1)"
    and "0 < t" and "stack_Stop sys s t r w = (e, s', r', w')"
  shows "stack_idle s' \<and> ports r' = ports r - {st_kinePort s, st_apiPort s} \<and> (r = r1 \<longrightarrow> r' = r0) \<and>
    (\<forall>t'. 0 < t' \<longrightarrow> stack_Stop sys s' t' r' w' = (None, s', r', w'))"
proof -
  from stack_Stop_up [OF stack_Start_up [OF assms(1-3)] assms(4,5)] have s': "stack_idle s'"
    and r': "r' = Release (Release r (st_kinePort s)) (st_apiPort s)" by simp_all
  from stack_Start_ok [OF assms(1-3)] r' have "r = r1 \<longrightarrow> r' = r0" by (auto dest: preg.release_pair)
  with s' r' show ?thesis by (auto simp: stack_idle_def stack_Stop_def)
qed

text \<open>\<^verbatim>\<open>StartWithRetry\<close> makes at most \<^verbatim>\<open>maxRetries\<close> attempts: whatever bounds the cost of one
  attempt, \<^verbatim>\<open>maxRetries\<close> times that bounds the call, and a call whose guards fail costs nothing.\<close>

theorem StartWithRetry_bounded:
  assumes "attempt_cost clk sys grp B" and "StartWithRetry sys grp pc rc cfg m r w = (res, r', w')"
  shows "clk w' \<le> clk w + max 0 m * B"
  using assms(2)
proof (cases rule: StartWithRetry_loop)
  case loop
  from startRetryLoop_cost [OF assms(1) loop(3)] loop(1) show ?thesis by simp
qed (use assms(1) in \<open>simp add: attempt_cost_def\<close>)

text \<open>A readiness wait that times out is a permanent error: the polling library reports its
  timeout as \<^verbatim>\<open>context.DeadlineExceeded\<close>, which every layer wraps and \<^verbatim>\<open>permanentStartErrors\<close>
  lists, so neither a slow kine nor a slow apiserver is retried.\<close>

theorem readiness_timeout_permanent:
  assumes "\<And>c i u cond n v r n' v'. os_poll sys c i u True cond n v = (Some r, n', v') \<Longrightarrow>
      r = Std CtxDeadlineExceeded" and "0 < t"
    and "startAndWait (kine_Start sys) (kine_WaitReady sys) pc t ''kine'' g GWait k w = (GDone (Some e), k', w') \<or>
         startAndWait (api_Start sys) (api_WaitReady sys) pc t ''apiserver'' g GWait a w = (GDone (Some e), a', w')"
  shows "isPermanentStartError (Wrapf ''start processes: %w'' [] e)"
  using assms(3)
proof
  assume "startAndWait (kine_Start sys) (kine_WaitReady sys) pc t ''kine'' g GWait k w = (GDone (Some e), k', w')"
  then show ?thesis using assms(2)
    by (auto simp: kine_WaitReady_def WaitReady_def kine_readinessPollInterval_def isPermanentStartError_def
        permanentStartErrors_def split: prod.splits option.splits dest!: assms(1))
next
  assume "startAndWait (api_Start sys) (api_WaitReady sys) pc t ''apiserver'' g GWait a w = (GDone (Some e), a', w')"
  then show ?thesis using assms(2)
    by (auto simp: api_WaitReady_def WaitReady_def api_readinessPollInterval_def isPermanentStartError_def
        permanentStartErrors_def split: prod.splits option.splits dest!: assms(1))
qed


subsection \<open>Witnesses\<close>

definition sample_stack_config :: stack_config where
  "sample_stack_config = \<lparr>ks_DataDir = ''/d'', ks_SQLitePath = ''/c/x.db'', ks_KubeconfigPath = ''/d/kc'',
     ks_KineBinary = ''kine'', ks_APIServerBinary = ''kube-apiserver'', ks_CachedDBPath = [],
     ks_KineReadyTimeout = 5, ks_APIServerReadyTimeout = 5, ks_StopTimeout = 7, ks_hasPortRegistry = True\<rparr>"

lemma counting_net_law: "net_law counting_net"
  by (auto simp: net_law_def counting_net_def quiet_os_def)

lemma counting_pair:
  "AllocatePortPair counting_net NewPortRegistry 0 =
     (Inr (40000, 40001), \<lparr>ports = {40001, 40000}\<rparr>, 2)"
  by (simp add: net_eval counting_net_def NewPortRegistry_def)

lemmas start_eval = stack_Start_def newStack_def validateContextPair_def EnsureDirForFile_def EnsureDir_def
  allocatePorts_def startGuarded_def createProcesses_def startAndWaitForReady_def seq_group_def run_task_def
  kine_New_def kine_validate_def api_New_def api_validate_def kine_Endpoint_def base_process_of_def
  WriteKubeconfig_def kine_Start_def api_Start_def SetupAndStart_def startCmd_def newLogFiles_def
  prepareFiles_def writeTokenFile_def setupCertsAndKeys_def writeAuthConfig_def new_cmd_def
  configureSysProcAttr_def bp_IsStarted_def kine_WaitReady_def api_WaitReady_def WaitReady_def
  wait_condition_def kine_check_def api_check_def kine_readinessPollInterval_def
  api_readinessPollInterval_def filepath_Join_def filepath_Clean_def sample_dir join_errs_def

text \<open>On this system every valid configuration starts.\<close>

lemma counting_start:
  assumes "ks_validate cfg = None" and "ks_CachedDBPath cfg = []" and "pc \<noteq> rc"
  shows "\<exists>s w'. stack_Start counting_net seq_group (newStack cfg) (Some pc) (Some rc)
     NewPortRegistry 0 = (None, s, \<lparr>ports = {40001, 40000}\<rparr>, w') \<and>
     st_kinePort s = 40000 \<and> st_apiPort s = 40001"
proof -
  have sys: "os_ctx_err counting_net c w = None" "os_mkdir_all counting_net p m w = (None, w)"
    "os_create_file counting_net p w = (Inr 3, w)" "os_cmd_start counting_net cm w = (Inr 1, w)"
    "os_write_file counting_net p x m w = (None, w)" "os_ecdsa_key counting_net w = (Inr 0, w)"
    "os_x509_marshal counting_net 0 = Inr ''der''" "os_new_request counting_net u = None"
    "os_http_get counting_net u w = (Inr 200, w)" "os_dial counting_net u w = (None, w)"
    "os_exited counting_net pid w = False" "os_write_kubeconfig counting_net kc p w = (None, w)"
    "os_poll counting_net = os_poll quiet_os" "os_look_path counting_net p w = None"
    for c w p m cm x u pid kc
    by (simp_all add: counting_net_def quiet_os_def)
  have "filepath_Dir p \<noteq> []" for p by (simp add: filepath_Dir_def)
  moreover have "ks_KineBinary cfg \<noteq> []" "ks_APIServerBinary cfg \<noteq> []" "ks_DataDir cfg \<noteq> []" "ks_SQLitePath cfg \<noteq> []"
    "ks_KubeconfigPath cfg \<noteq> []" "ks_hasPortRegistry cfg" "0 < ks_KineReadyTimeout cfg" "0 < ks_APIServerReadyTimeout cfg"
    using assms(1) by (auto simp: ks_validate_def)
  ultimately show ?thesis
    by (simp add: start_eval sys counting_pair assms(2,3) ks_stopTimeout_def ResolveStopTimeout_def
        DefaultStopTimeout_def Let_def quiet_os_def)
qed

lemma counting_StartWithRetry:
  assumes "ks_validate cfg = None" and "ks_CachedDBPath cfg = []" and "pc \<noteq> rc" and "0 < m"
  shows "\<exists>s w'. StartWithRetry counting_net seq_group (Some pc) (Some rc) cfg m NewPortRegistry 0 =
     (Inr s, \<lparr>ports = {40001, 40000}\<rparr>, w')"
proof -
  obtain n where "nat m = Suc n" using assms(4) by (cases "nat m") simp_all
  moreover have "os_ctx_err counting_net c w = None" "os_look_path counting_net p w = None" for c p w
    by (simp_all add: counting_net_def quiet_os_def)
  ultimately show ?thesis using counting_start [OF assms(1-3)] assms
    by (auto simp: StartWithRetry_def validateStartWithRetryArgs_def validateContextPair_def
        resolveBinaries_def join_errs_def Let_def)
qed

lemma sample_validate: "ks_validate sample_stack_config = None" "ks_CachedDBPath sample_stack_config = []"
  by (simp_all add: ks_validate_def sample_stack_config_def)

lemma sample_start:
  "\<exists>s w'. stack_Start counting_net seq_group (newStack sample_stack_config) (Some 1) (Some 2)
     NewPortRegistry 0 = (None, s, \<lparr>ports = {40001, 40000}\<rparr>, w') \<and>
     st_kinePort s = 40000 \<and> st_apiPort s = 40001"
  by (rule counting_start [OF sample_validate]) simp

lemma sample_StartWithRetry:
  "\<exists>s w'. StartWithRetry counting_net seq_group (Some 1) (Some 2) sample_stack_config 1 NewPortRegistry 0 =
     (Inr s, \<lparr>ports = {40001, 40000}\<rparr>, w')"
  by (rule counting_StartWithRetry [OF sample_validate]) simp_all

theorem StartWithRetry_running_witness:
  "\<exists>s r' w'. StartWithRetry counting_net seq_group (Some 1) (Some 2) sample_stack_config 1
       NewPortRegistry 0 = (Inr s, r', w') \<and> stack_running counting_net s \<and>
     ports r' = {st_kinePort s, st_apiPort s}"
proof -
  obtain s w' where run: "StartWithRetry counting_net seq_group (Some 1) (Some 2) sample_stack_config 1
      NewPortRegistry 0 = (Inr s, \<lparr>ports = {40001, 40000}\<rparr>, w')" using sample_StartWithRetry by blast
  from StartWithRetry_running [OF seq_group_law counting_net_law run] run show ?thesis
    by (auto simp: NewPortRegistry_def)
qed

theorem stack_Stop_releases_witness:
  "\<exists>s r1 w1 e s' w'. stack_Start counting_net seq_group (newStack sample_stack_config) (Some 1) (Some 2)
       NewPortRegistry 0 = (None, s, r1, w1) \<and>
     stack_Stop counting_net s 5 r1 w1 = (e, s', NewPortRegistry, w') \<and> stack_idle s'"
proof -
  obtain s r1 w1 where run: "stack_Start counting_net seq_group (newStack sample_stack_config) (Some 1) (Some 2)
      NewPortRegistry 0 = (None, s, r1, w1)" using sample_start by blast
  obtain e s' r' w' where stop: "stack_Stop counting_net s 5 r1 w1 = (e, s', r', w')"
    by (metis prod_cases4)
  from stack_Stop_releases [OF seq_group_law counting_net_law run _ stop] run stop show ?thesis by auto
qed

text \<open>A world in which the database directory cannot be created: every attempt costs one step.\<close>

definition full_disk :: "nat os" where
  "full_disk = counting_net\<lparr>os_mkdir_all := (\<lambda>p m w. (Some (errors_New ''no space left on device''), Suc w))\<rparr>"

lemma full_disk_Start:
  "stack_Start full_disk grp s pc rc r w = (e, s', r', w') \<Longrightarrow> e \<noteq> None \<and> w' \<le> Suc w"
proof -
  have sys: "os_mkdir_all full_disk p m v = (Some (errors_New ''no space left on device''), Suc v)" for p m v
    by (simp add: full_disk_def)
  assume "stack_Start full_disk grp s pc rc r w = (e, s', r', w')"
  then show ?thesis
    by (cases "validateContextPair full_disk pc rc w")
      (auto simp: stack_Start_def EnsureDirForFile_def EnsureDir_def sys split: if_splits dest: sym)
qed

lemma full_disk_law: "net_law full_disk"
  by (auto simp: net_law_def full_disk_def counting_net_def quiet_os_def)

lemma full_disk_run:
  "\<exists>e w'. StartWithRetry full_disk grp (Some 1) (Some 2) sample_stack_config 3 r w = (Inl e, r, w')"
proof -
  obtain res r' w' where run:
    "StartWithRetry full_disk grp (Some 1) (Some 2) sample_stack_config 3 r w = (res, r', w')"
    by (metis prod_cases3)
  have "\<exists>e. res = Inl e"
  proof (cases res)
    case (Inr s)
    with run obtain v where "stack_Start full_disk grp (newStack sample_stack_config) (Some 1) (Some 2) r v =
        (None, s, r', w')"
      by (cases rule: StartWithRetry_loop) (auto dest: startRetryLoop_ok [OF full_disk_law])
    with full_disk_Start show ?thesis by blast
  qed simp
  moreover have "r' = r" if "res = Inl e" for e
    using run that by (cases rule: StartWithRetry_loop) (auto intro: startRetryLoop_error [OF full_disk_law])
  ultimately show ?thesis using run by auto
qed

theorem StartWithRetry_no_leak_witness:
  "\<exists>e w'. StartWithRetry failing_net seq_group (Some 1) (Some 2) sample_stack_config 1 NewPortRegistry 0 =
     (Inl e, NewPortRegistry, w')"
proof -
  have law: "net_law failing_net"
    by (auto simp: net_law_def failing_net_def counting_net_def quiet_os_def split: if_splits)
  have pair: "\<exists>e. AllocatePortPair failing_net NewPortRegistry 0 = (Inl e, NewPortRegistry, 2) \<and>
      \<not> isPermanentStartError e"
    by (simp add: net_eval failing_net_def counting_net_def NewPortRegistry_def isPermanentStartError_def
        permanentStartErrors_def Release_def)
  have sys: "os_ctx_err failing_net c w = None" "os_look_path failing_net p w = None"
    "os_mkdir_all failing_net p m w = (None, w)" for c p w m
    by (simp_all add: failing_net_def counting_net_def quiet_os_def)
  from pair obtain e1 s1 where "stack_Start failing_net seq_group (newStack sample_stack_config)
      (Some 1) (Some 2) NewPortRegistry 0 = (Some e1, s1, NewPortRegistry, 2)"
    by (auto simp: sys stack_Start_def validateContextPair_def EnsureDirForFile_def EnsureDir_def
        sample_dir allocatePorts_def newStack_def sample_stack_config_def)
  then obtain e r' w' where run: "StartWithRetry failing_net seq_group (Some 1) (Some 2)
      sample_stack_config 1 NewPortRegistry 0 = (Inl e, r', w')"
    by (cases "isPermanentStartError e1")
      (auto simp: StartWithRetry_def validateStartWithRetryArgs_def validateContextPair_def sample_validate
        resolveBinaries_def join_errs_def Let_def sys)
  from StartWithRetry_no_leak [OF law run] run show ?thesis by auto
qed

theorem StartWithRetry_bounded_witness:
  "\<exists>e w'. StartWithRetry full_disk seq_group (Some 1) (Some 2) sample_stack_config 3 NewPortRegistry 0 =
     (Inl e, NewPortRegistry, w') \<and> w' \<le> 3"
proof -
  have law: "attempt_cost int full_disk seq_group 1"
    using full_disk_Start by (fastforce simp: attempt_cost_def)
  obtain e w' where run: "StartWithRetry full_disk seq_group (Some 1) (Some 2) sample_stack_config 3
      NewPortRegistry 0 = (Inl e, NewPortRegistry, w')" using full_disk_run by blast
  from StartWithRetry_bounded [OF law run] run show ?thesis by auto
qed

text \<open>A world in which no server ever answers.\<close>

definition deaf_os :: "unit os" where
  "deaf_os = quiet_os\<lparr>os_poll := (\<lambda>c i t imm cond n w. (Some (Std CtxDeadlineExceeded), n, w))\<rparr>"

definition sample_kine :: kine_process where
  "sample_kine = \<lparr>kine_conf = \<lparr>kc_Binary = ''kine'', kc_DataDir = ''/d'', kc_SQLitePath = ''/c/x.db'',
     kc_Port = 40000, kc_CachedDBPath = [], kc_StopTimeout = 0\<rparr>, kine_base = running_base\<rparr>"

theorem readiness_timeout_permanent_witness:
  "\<exists>e. startAndWait (kine_Start deaf_os) (kine_WaitReady deaf_os) 1 5 ''kine'' 2 GWait sample_kine () =
     (GDone (Some e), sample_kine, ()) \<and> isPermanentStartError (Wrapf ''start processes: %w'' [] e)"
proof -
  obtain e where run: "startAndWait (kine_Start deaf_os) (kine_WaitReady deaf_os) 1 5 ''kine'' 2 GWait
      sample_kine () = (GDone (Some e), sample_kine, ())"
    by (simp add: deaf_os_def kine_WaitReady_def WaitReady_def kine_readinessPollInterval_def)
  have "r = Std CtxDeadlineExceeded" if "os_poll deaf_os c i u True cond n v = (Some r, n', v')" for c i u cond n v r n' v'
    using that by (simp add: deaf_os_def)
  from readiness_timeout_permanent [OF this _ disjI1, OF _ _ run] run show ?thesis by auto
qed

end
