(* ===== verification/Config.thy ===== *)
theory Config
  imports Prelude
begin

text \<open>
  \<^verbatim>\<open>internal/core/config.go\<close>: the configuration of a manager and of an instance and their
  validation, and the sentinel errors of the core package.
\<close>

subsection \<open>Sentinels\<close>

definition ErrInstanceReleased :: go_error where
  "ErrInstanceReleased = Sentinel ''instance has been released''"
definition ErrNotStarted :: go_error where "ErrNotStarted = Sentinel ''instance not started''"
definition ErrDoubleRelease :: go_error where
  "ErrDoubleRelease = Sentinel ''instance already released''"
definition ErrPoolClosed :: go_error where "ErrPoolClosed = Sentinel ''pool is closed''"
definition ErrShuttingDown :: go_error where "ErrShuttingDown = Sentinel ''manager is shutting down''"
definition ErrNotInitialized :: go_error where
  "ErrNotInitialized = Sentinel ''manager not initialized''"

lemmas core_sentinels = ErrInstanceReleased_def ErrNotStarted_def ErrDoubleRelease_def ErrPoolClosed_def
  ErrShuttingDown_def ErrNotInitialized_def

subsection \<open>Configurations\<close>

record manager_config =
  mc_KineBinary :: string
  mc_KubeAPIServerBinary :: string
  mc_AcquireTimeout :: duration
  mc_PrepopulateDBPath :: string
  mc_BaseDataDir :: string
  mc_CRDDir :: string
  mc_PoolSize :: int
  mc_CRDCacheTimeout :: duration
  mc_InstanceStartTimeout :: duration
  mc_InstanceStopTimeout :: duration
  mc_CleanupTimeout :: duration
  mc_ShutdownDrainTimeout :: duration

record instance_config =
  ic_StartTimeout :: duration
  ic_StopTimeout :: duration
  ic_CleanupTimeout :: duration
  ic_MaxStartRetries :: int
  ic_CachedDBPath :: string
  ic_KineBinary :: string
  ic_KubeAPIServerBinary :: string

text \<open>The two helpers append to the list of errors.\<close>

definition requirePositiveDuration :: "go_error list \<Rightarrow> string \<Rightarrow> duration \<Rightarrow> go_error list" where
  "requirePositiveDuration errs name d =
     errs @ err_if (d \<le> 0) (Errorf ''%s must be greater than 0, got %s'' [ArgStr name, ArgDur d])"

definition requireNonEmpty :: "go_error list \<Rightarrow> string \<Rightarrow> string \<Rightarrow> go_error list" where
  "requireNonEmpty errs name value =
     errs @ err_if (value = '''') (errors_New (name @ '' must not be empty''))"

definition mc_Validate :: "manager_config \<Rightarrow> go_error option" where
  "mc_Validate c =
     (let errs = [];
          errs = requireNonEmpty errs ''kine binary path'' (mc_KineBinary c);
          errs = requireNonEmpty errs ''kube-apiserver binary path'' (mc_KubeAPIServerBinary c);
          errs = requirePositiveDuration errs ''acquire timeout'' (mc_AcquireTimeout c);
          errs = requireNonEmpty errs ''base data directory'' (mc_BaseDataDir c);
          errs = requirePositiveDuration errs ''instance start timeout'' (mc_InstanceStartTimeout c);
          errs = requirePositiveDuration errs ''instance stop timeout'' (mc_InstanceStopTimeout c);
          errs = requirePositiveDuration errs ''cleanup timeout'' (mc_CleanupTimeout c);
          errs = requirePositiveDuration errs ''CRD cache timeout'' (mc_CRDCacheTimeout c);
          errs = requirePositiveDuration errs ''shutdown drain timeout'' (mc_ShutdownDrainTimeout c);
          errs = errs @ err_if (mc_PoolSize c < 0)
            (Errorf ''pool size must not be negative, got %d'' [ArgInt (mc_PoolSize c)])
      in join_errs errs)"

definition ic_Validate :: "instance_config \<Rightarrow> go_error option" where
  "ic_Validate c =
     (let errs = [];
          errs = requirePositiveDuration errs ''start timeout'' (ic_StartTimeout c);
          errs = requirePositiveDuration errs ''stop timeout'' (ic_StopTimeout c);
          errs = requirePositiveDuration errs ''cleanup timeout'' (ic_CleanupTimeout c);
          errs = errs @ err_if (ic_MaxStartRetries c \<le> 0)
            (Errorf ''max start retries must be greater than 0, got %d'' [ArgInt (ic_MaxStartRetries c)]);
          errs = requireNonEmpty errs ''kine binary path'' (ic_KineBinary c);
          errs = requireNonEmpty errs ''kube-apiserver binary path'' (ic_KubeAPIServerBinary c)
      in join_errs errs)"

lemma mc_Validate_None_iff:
  "mc_Validate c = None \<longleftrightarrow>
     mc_KineBinary c \<noteq> '''' \<and> mc_KubeAPIServerBinary c \<noteq> '''' \<and> 0 < mc_AcquireTimeout c \<and>
     mc_BaseDataDir c \<noteq> '''' \<and> 0 < mc_InstanceStartTimeout c \<and> 0 < mc_InstanceStopTimeout c \<and>
     0 < mc_CleanupTimeout c \<and> 0 < mc_CRDCacheTimeout c \<and> 0 < mc_ShutdownDrainTimeout c \<and>
     0 \<le> mc_PoolSize c"
  by (auto simp: mc_Validate_def requireNonEmpty_def requirePositiveDuration_def Let_def)

lemma ic_Validate_None_iff:
  "ic_Validate c = None \<longleftrightarrow>
     0 < ic_StartTimeout c \<and> 0 < ic_StopTimeout c \<and> 0 < ic_CleanupTimeout c \<and>
     0 < ic_MaxStartRetries c \<and> ic_KineBinary c \<noteq> '''' \<and> ic_KubeAPIServerBinary c \<noteq> ''''"
  by (auto simp: ic_Validate_def requireNonEmpty_def requirePositiveDuration_def Let_def)

end
