(* ===== verification/Purge.thy ===== *)
theory Purge
  imports World Paths
begin

text \<open>
  \<^verbatim>\<open>internal/core/purge.go\<close> and the list of system namespaces of \<^verbatim>\<open>namespace.go\<close>: the DELETE
  statement that takes an instance back to its state after bootstrap, the handle that holds it, and
  the retry of the baseline query. SQLite is outside the sources; its part in the properties is
  stated as laws over the table it stores.
\<close>

subsection \<open>System namespaces\<close>

definition systemNamespaces :: "string list" where
  "systemNamespaces = [''default'', ''kube-system'', ''kube-public'', ''kube-node-lease'']"

definition SystemNamespaceNames :: "string list" where
  "SystemNamespaceNames = [] @ systemNamespaces"

definition isSystemNamespace :: "string \<Rightarrow> bool" where
  "isSystemNamespace name \<longleftrightarrow> name \<in> set systemNamespaces"

subsection \<open>The DELETE statement\<close>

definition purge_sqliteBusyTimeoutMs :: int where "purge_sqliteBusyTimeoutMs = 5000"
definition baselineQueryRetries :: nat where "baselineQueryRetries = 3"
definition baselineQueryBackoff :: duration where "baselineQueryBackoff = 100 * Millisecond"

definition buildPurgeDeleteQuery :: "string \<times> (int \<Rightarrow> sql_arg list)" where
  "buildPurgeDeleteQuery =
     (let sysNS = systemNamespaces;
          query = ''DELETE FROM kine WHERE id > ?'' @
            concat (map (\<lambda>_. '' AND name != ?'') sysNS) @
            concat (map (\<lambda>_. '' AND name NOT LIKE ?'') sysNS);
          makeArgs = (\<lambda>baselineID.
            SqlInt baselineID #
            map (\<lambda>ns. SqlText (''/registry/namespaces/'' @ ns)) sysNS @
            map (\<lambda>ns. SqlText (''%/'' @ ns @ ''/%'')) sysNS)
      in (query, makeArgs))"

definition purgeDeleteQuery :: string where "purgeDeleteQuery = fst buildPurgeDeleteQuery"
definition purgeDeleteMakeArgs :: "int \<Rightarrow> sql_arg list" where
  "purgeDeleteMakeArgs = snd buildPurgeDeleteQuery"

subsection \<open>The handle\<close>

record purge_handle =
  ph_db :: nat
  ph_deleteStmt :: nat
  ph_deleteArgs :: "sql_arg list"

definition purge_dsn :: "string \<Rightarrow> string" where
  "purge_dsn sqlitePath = ''file:'' @ sqlitePath @ ''?_pragma=busy_timeout('' @
     show_int purge_sqliteBusyTimeoutMs @ '')&_pragma=journal_mode(WAL)&_pragma=synchronous(OFF)''"

definition baselineQuery :: string where
  "baselineQuery = ''SELECT COALESCE(MAX(id), 0) FROM kine''"

text \<open>
  The retry loop, with the attempts left. It ends with the baseline, with the last query error, or
  with the end of the context, which the caller reports differently.
\<close>

datatype baseline_result = Baseline int | QueryFailed go_error | CtxDone go_error

fun baselineLoop ::
  "'w os \<Rightarrow> ctx \<Rightarrow> nat \<Rightarrow> nat \<Rightarrow> duration \<Rightarrow> 'w \<Rightarrow> baseline_result \<times> 'w" where
  "baselineLoop sys c db 0 backoff w = (Baseline 0, w)"
| "baselineLoop sys c db (Suc n) backoff w =
     (case os_sql_query_int sys db baselineQuery w of
        (Inr b, w1) \<Rightarrow> (Baseline b, w1)
      | (Inl e, w1) \<Rightarrow>
          (if n = 0 then (QueryFailed e, w1)
           else (case os_wait_timer sys c backoff w1 of
                   (True, w2) \<Rightarrow> baselineLoop sys c db n (2 * backoff) w2
                 | (False, w2) \<Rightarrow>
                     (CtxDone (case os_ctx_err sys c w2 of
                                 Some ce \<Rightarrow> Std ce | None \<Rightarrow> errors_New []), w2))))"

definition openPurgeHandle ::
  "'w os \<Rightarrow> ctx \<Rightarrow> string \<Rightarrow> 'w \<Rightarrow> (go_error + purge_handle) \<times> 'w" where
  "openPurgeHandle sys c sqlitePath w =
     (case os_sql_open sys ''sqlite'' (purge_dsn sqlitePath) w of
        (Inl e, w1) \<Rightarrow> (Inl (Wrapf ''open sqlite %s: %w'' [ArgStr sqlitePath] e), w1)
      | (Inr db, w1) \<Rightarrow>
          (case baselineLoop sys c db baselineQueryRetries baselineQueryBackoff w1 of
             (CtxDone e, w2) \<Rightarrow>
               (Inl (Wrapf ''open purge handle retry: %w'' [] e), snd (os_db_close sys db w2))
           | (QueryFailed e, w2) \<Rightarrow>
               (Inl (Wrapf ''query baseline id: %w'' [] e), snd (os_db_close sys db w2))
           | (Baseline b, w2) \<Rightarrow>
               (case os_sql_prepare sys db purgeDeleteQuery w2 of
                  (Inl e, w3) \<Rightarrow>
                    (Inl (Wrapf ''prepare purge delete: %w'' [] e), snd (os_db_close sys db w3))
                | (Inr stmt, w3) \<Rightarrow>
                    (Inr \<lparr>ph_db = db, ph_deleteStmt = stmt, ph_deleteArgs = purgeDeleteMakeArgs b\<rparr>, w3))))"

definition purge_Close :: "'w os \<Rightarrow> purge_handle \<Rightarrow> 'w \<Rightarrow> go_error option \<times> 'w" where
  "purge_Close sys h w =
     (case os_stmt_close sys (ph_deleteStmt h) w of
        (e1, w1) \<Rightarrow> (case os_db_close sys (ph_db h) w1 of (e2, w2) \<Rightarrow> (errors_Join [e1, e2], w2)))"

definition purge_purge :: "'w os \<Rightarrow> purge_handle \<Rightarrow> ctx \<Rightarrow> 'w \<Rightarrow> go_error option \<times> 'w" where
  "purge_purge sys h c w =
     (case os_sql_exec sys (ph_deleteStmt h) c (ph_deleteArgs h) w of
        (Inl e, w1) \<Rightarrow> (Some (Wrapf ''execute purge delete: %w'' [] e), w1)
      | (Inr (Inl e), w1) \<Rightarrow> (Some (Wrapf ''purge rows affected: %w'' [] e), w1)
      | (Inr (Inr n), w1) \<Rightarrow> (None, w1))"


subsection \<open>What SQLite does with the statement\<close>

text \<open>
  \<open>LIKE\<close> as SQLite documents it: \<^verbatim>\<open>%\<close> stands for any sequence, \<^verbatim>\<open>_\<close> for any character, and letters
  match without regard to case.
\<close>

definition lower :: "char \<Rightarrow> char" where
  "lower c = (if (65::nat) \<le> of_char c \<and> of_char c \<le> (90::nat) then char_of (of_char c + (32::nat)) else c)"

fun sql_like :: "string \<Rightarrow> string \<Rightarrow> bool" where
  "sql_like [] s = (s = [])"
| "sql_like (p # ps) s =
     (if p = CHR ''%'' then list_ex (\<lambda>k. sql_like ps (drop k s)) [0..<Suc (length s)]
      else (case s of
              [] \<Rightarrow> False
            | c # cs \<Rightarrow> (p = CHR ''_'' \<or> lower p = lower c) \<and> sql_like ps cs))"

text \<open>A row of the table \<^verbatim>\<open>kine\<close>: its id and its name. The WHERE clauses, how they are written, and
  which rows they select with given arguments.\<close>

type_synonym row = "int \<times> string"

datatype clause = IdGt | NameNeq | NameNotLike

fun render :: "clause \<Rightarrow> string" where
  "render IdGt = ''id > ?''"
| "render NameNeq = ''name != ?''"
| "render NameNotLike = ''name NOT LIKE ?''"

fun holds :: "row \<Rightarrow> clause \<Rightarrow> sql_arg \<Rightarrow> bool" where
  "holds (i, n) IdGt (SqlInt b) = (b < i)"
| "holds (i, n) NameNeq (SqlText t) = (n \<noteq> t)"
| "holds (i, n) NameNotLike (SqlText p) = (\<not> sql_like p n)"
| "holds r c a = False"

definition delete_query :: "clause list \<Rightarrow> string" where
  "delete_query cs = ''DELETE FROM kine WHERE '' @ join_with '' AND '' (map render cs)"

definition max_id :: "row list \<Rightarrow> int" where
  "max_id rs = (if rs = [] then 0 else Max (set (map fst rs)))"

text \<open>
  The laws: \<open>T w db\<close> is the table behind a connection, \<open>prep w s\<close> the connection and text of a
  prepared statement. The baseline query reads the greatest id, preparing records the statement,
  executing the DELETE with the clauses \<open>cs\<close> removes exactly the rows they select, and a failed
  execution removes nothing.
\<close>

definition sql_law ::
  "('w \<Rightarrow> nat \<Rightarrow> row list) \<Rightarrow> ('w \<Rightarrow> nat \<Rightarrow> (nat \<times> string) option) \<Rightarrow> clause list \<Rightarrow> 'w os \<Rightarrow> bool" where
  "sql_law T prep cs sys \<longleftrightarrow>
     (\<forall>db w r w'. os_sql_query_int sys db baselineQuery w = (r, w') \<longrightarrow>
        T w' = T w \<and> (\<forall>b. r = Inr b \<longrightarrow> b = max_id (T w db))) \<and>
     (\<forall>db q w s w'. os_sql_prepare sys db q w = (Inr s, w') \<longrightarrow>
        T w' = T w \<and> prep w' s = Some (db, q)) \<and>
     (\<forall>s c as w x w' db. os_sql_exec sys s c as w = (Inr x, w') \<and> prep w s = Some (db, delete_query cs) \<longrightarrow>
        T w' db = filter (\<lambda>r. \<not> list_all2 (holds r) cs as) (T w db)) \<and>
     (\<forall>s c as w e w'. os_sql_exec sys s c as w = (Inl e, w') \<longrightarrow> T w' = T w)"

text \<open>Nothing is written while the handle waits between two baseline queries.\<close>

definition settled :: "('w \<Rightarrow> nat \<Rightarrow> row list) \<Rightarrow> 'w os \<Rightarrow> bool" where
  "settled T sys \<longleftrightarrow> (\<forall>c d w. T (snd (os_wait_timer sys c d w)) = T w)"

lemma sql_lawD:
  assumes "sql_law T prep cs sys"
  shows "os_sql_query_int sys db baselineQuery w = (r, w') \<Longrightarrow> T w' = T w"
    and "os_sql_query_int sys db baselineQuery w = (Inr b, w') \<Longrightarrow> b = max_id (T w db)"
    and "os_sql_prepare sys db q w = (Inr s, w') \<Longrightarrow> T w' = T w"
    and "os_sql_prepare sys db q w = (Inr s, w') \<Longrightarrow> prep w' s = Some (db, q)"
    and "os_sql_exec sys s c as w = (Inr x, w') \<Longrightarrow> prep w s = Some (db, delete_query cs) \<Longrightarrow>
      T w' db = filter (\<lambda>r. \<not> list_all2 (holds r) cs as) (T w db)"
    and "os_sql_exec sys s c as w = (Inl e, w') \<Longrightarrow> T w' = T w"
  using assms unfolding sql_law_def by (simp_all only: simp_thms)

subsection \<open>Which rows the statement keeps\<close>

definition purge_clauses :: "clause list" where
  "purge_clauses = [IdGt, NameNeq, NameNeq, NameNeq, NameNeq,
     NameNotLike, NameNotLike, NameNotLike, NameNotLike]"

lemma purgeDeleteQuery_eq: "purgeDeleteQuery = delete_query purge_clauses"
  by (simp add: purgeDeleteQuery_def buildPurgeDeleteQuery_def delete_query_def purge_clauses_def
      systemNamespaces_def)

text \<open>A name with a system namespace as one of its inner path segments, or naming the namespace
  object itself.\<close>

definition within :: "string \<Rightarrow> string \<Rightarrow> bool" where
  "within ns n \<longleftrightarrow> (\<exists>a b. map lower n = a @ CHR ''/'' # ns @ CHR ''/'' # b)"

definition protected_name :: "string \<Rightarrow> bool" where
  "protected_name n \<longleftrightarrow>
     (\<exists>ns \<in> set systemNamespaces. n = ''/registry/namespaces/'' @ ns \<or> within ns n)"

definition keeps :: "int \<Rightarrow> row \<Rightarrow> bool" where
  "keeps b r \<longleftrightarrow> fst r \<le> b \<or> protected_name (snd r)"

lemma sql_like_any: "sql_like ''%'' s"
  by (auto simp: list_ex_iff intro!: bexI [of _ "length s"])

lemma sql_like_literal:
  assumes "\<forall>c \<in> set q. c \<noteq> CHR ''%'' \<and> c \<noteq> CHR ''_''"
  shows "sql_like (q @ ps) s \<longleftrightarrow> (\<exists>u v. s = u @ v \<and> map lower u = map lower q \<and> sql_like ps v)"
  using assms
proof (induction q arbitrary: s)
  case (Cons x q)
  show ?case
  proof (cases s)
    case (Cons c cs)
    have "(\<exists>u v. s = u @ v \<and> map lower u = map lower (x # q) \<and> sql_like ps v) \<longleftrightarrow>
        lower x = lower c \<and> (\<exists>u v. cs = u @ v \<and> map lower u = map lower q \<and> sql_like ps v)"
      (is "?l \<longleftrightarrow> ?r")
    proof
      assume ?l
      then show ?r using Cons by (simp add: map_eq_Cons_conv) (metis append_Cons list.inject)
    next
      assume ?r
      then obtain u v where "cs = u @ v" "map lower u = map lower q" "sql_like ps v" "lower x = lower c"
        by blast
      then show ?l using Cons by (intro exI [of _ "c # u"] exI [of _ v]) simp
    qed
    moreover have "sql_like ((x # q) @ ps) s \<longleftrightarrow> lower x = lower c \<and> sql_like (q @ ps) cs"
      using Cons Cons.prems by simp
    ultimately show ?thesis using Cons.IH [of cs] Cons.prems by auto
  qed (use Cons.prems in auto)
qed simp

lemma sql_like_contains:
  assumes "\<forall>c \<in> set q. c \<noteq> CHR ''%'' \<and> c \<noteq> CHR ''_''"
  shows "sql_like (CHR ''%'' # q @ ''%'') s \<longleftrightarrow> (\<exists>a b. map lower s = a @ map lower q @ b)"
proof -
  have "sql_like (CHR ''%'' # q @ ''%'') s \<longleftrightarrow>
      (\<exists>k \<le> length s. \<exists>u v. drop k s = u @ v \<and> map lower u = map lower q)"
    unfolding sql_like.simps(2) [of "CHR ''%''" "q @ ''%''"] sql_like_literal [OF assms, of "''%''"]
    by (simp add: list_ex_iff sql_like_any Bex_def less_Suc_eq_le del: upt_Suc sql_like.simps)
  also have "\<dots> \<longleftrightarrow> (\<exists>a b. map lower s = a @ map lower q @ b)"
  proof
    assume "\<exists>k \<le> length s. \<exists>u v. drop k s = u @ v \<and> map lower u = map lower q"
    then obtain k u v where "drop k s = u @ v" "map lower u = map lower q" by blast
    then have "map lower s = map lower (take k s) @ map lower q @ map lower v"
      by (metis append_take_drop_id map_append)
    then show "\<exists>a b. map lower s = a @ map lower q @ b" by blast
  next
    assume "\<exists>a b. map lower s = a @ map lower q @ b"
    then obtain a b where "map lower s = a @ map lower q @ b" by blast
    then obtain a' q' b' where "s = a' @ q' @ b'" "map lower q' = map lower q"
      by (metis (no_types) map_eq_append_conv)
    then show "\<exists>k \<le> length s. \<exists>u v. drop k s = u @ v \<and> map lower u = map lower q"
      by (intro exI [of _ "length a'"]) auto
  qed
  finally show ?thesis .
qed


lemma systemNamespaces_plain:
  assumes "ns \<in> set systemNamespaces"
  shows "\<forall>c \<in> set (CHR ''/'' # ns @ ''/''). c \<noteq> CHR ''%'' \<and> c \<noteq> CHR ''_''"
    and "map lower (CHR ''/'' # ns @ ''/'') = CHR ''/'' # ns @ ''/''"
    and "CHR ''/'' \<notin> set ns"
  using assms by (auto simp: systemNamespaces_def lower_def)

lemma sql_like_within:
  assumes "ns \<in> set systemNamespaces"
  shows "sql_like (''%/'' @ ns @ ''/%'') n \<longleftrightarrow> within ns n"
proof -
  have "''%/'' @ ns @ ''/%'' = CHR ''%'' # (CHR ''/'' # ns @ ''/'') @ ''%''" by simp
  then show ?thesis
    using sql_like_contains [OF systemNamespaces_plain(1) [OF assms], of n]
    unfolding within_def systemNamespaces_plain(2) [OF assms] by simp
qed

lemma list_all2_map_NameNeq:
  "list_all2 (holds (i, n)) (map (\<lambda>_. NameNeq) xs) (map (\<lambda>x. SqlText (f x)) xs) \<longleftrightarrow> (\<forall>x \<in> set xs. n \<noteq> f x)"
  by (induction xs) auto

lemma list_all2_map_NotLike:
  "list_all2 (holds (i, n)) (map (\<lambda>_. NameNotLike) xs) (map (\<lambda>x. SqlText (f x)) xs) \<longleftrightarrow>
     (\<forall>x \<in> set xs. \<not> sql_like (f x) n)"
  by (induction xs) auto

lemma purge_clauses_eq:
  "purge_clauses = IdGt # map (\<lambda>_. NameNeq) systemNamespaces @ map (\<lambda>_. NameNotLike) systemNamespaces"
  by (simp add: purge_clauses_def systemNamespaces_def)

lemma purge_selects:
  "list_all2 (holds r) purge_clauses (purgeDeleteMakeArgs b) \<longleftrightarrow> \<not> keeps b r"
proof (cases r)
  case (Pair i n)
  have "list_all2 (holds (i, n)) purge_clauses (purgeDeleteMakeArgs b) \<longleftrightarrow>
      b < i \<and> (\<forall>ns \<in> set systemNamespaces. n \<noteq> ''/registry/namespaces/'' @ ns) \<and>
      (\<forall>ns \<in> set systemNamespaces. \<not> sql_like (''%/'' @ ns @ ''/%'') n)"
    unfolding purge_clauses_eq purgeDeleteMakeArgs_def buildPurgeDeleteQuery_def Let_def snd_conv
      list_all2_Cons holds.simps
    by (subst list_all2_append)
      (simp_all only: list_all2_map_NameNeq list_all2_map_NotLike length_map)
  moreover have "(\<forall>ns \<in> set systemNamespaces. \<not> sql_like (''%/'' @ ns @ ''/%'') n) \<longleftrightarrow>
      (\<forall>ns \<in> set systemNamespaces. \<not> within ns n)"
    using sql_like_within by blast
  ultimately show ?thesis
    unfolding keeps_def protected_name_def Pair fst_conv snd_conv not_le [symmetric] by blast
qed

lemma purge_purge_rows:
  assumes "sql_law T prep purge_clauses sys" and "prep w (ph_deleteStmt h) = Some (db, purgeDeleteQuery)"
    and "ph_deleteArgs h = purgeDeleteMakeArgs b" and "purge_purge sys h c w = (None, w')"
  shows "T w' db = filter (keeps b) (T w db)"
proof -
  from assms(4) obtain x where run: "os_sql_exec sys (ph_deleteStmt h) c (ph_deleteArgs h) w = (Inr x, w')"
    by (auto simp: purge_purge_def split: prod.splits sum.splits)
  from sql_lawD(5) [OF assms(1) run] assms(2,3) show ?thesis
    by (simp add: purgeDeleteQuery_eq purge_selects)
qed

subsection \<open>Opening the handle\<close>

lemma baselineLoop_Baseline:
  assumes "sql_law T prep purge_clauses sys" and "settled T sys"
  shows "baselineLoop sys c db (Suc n) d w = (Baseline b, w') \<Longrightarrow> b = max_id (T w db) \<and> T w' = T w"
proof (induction n arbitrary: d w)
  case 0
  then show ?case
    by (auto split: prod.splits sum.splits dest: sql_lawD(1) [OF assms(1)] sql_lawD(2) [OF assms(1)])
next
  case (Suc n)
  obtain q w1 where q: "os_sql_query_int sys db baselineQuery w = (q, w1)"
    by (cases "os_sql_query_int sys db baselineQuery w")
  obtain ok w2 where t: "os_wait_timer sys c d w1 = (ok, w2)" by (cases "os_wait_timer sys c d w1")
  have same: "T w1 = T w" "T w2 = T w1"
    using sql_lawD(1) [OF assms(1) q] assms(2) t unfolding settled_def by (auto, metis snd_conv)
  show ?case
  proof (cases q)
    case (Inl e)
    with Suc.prems q t have "baselineLoop sys c db (Suc n) (2 * d) w2 = (Baseline b, w')"
      by (auto split: bool.splits)
    from Suc.IH [OF this] same show ?thesis by simp
  next
    case (Inr x)
    with Suc.prems q sql_lawD(2) [OF assms(1)] same(1) show ?thesis by auto
  qed
qed

lemma openPurgeHandle_ok:
  assumes "sql_law T prep purge_clauses sys" and "settled T sys"
    and "openPurgeHandle sys c path w = (Inr h, w')"
  shows "prep w' (ph_deleteStmt h) = Some (ph_db h, purgeDeleteQuery) \<and>
    ph_deleteArgs h = purgeDeleteMakeArgs (max_id (T w' (ph_db h)))"
proof -
  from assms(3) obtain db w1 b w2 s where
    l: "baselineLoop sys c db baselineQueryRetries baselineQueryBackoff w1 = (Baseline b, w2)" and
    p: "os_sql_prepare sys db purgeDeleteQuery w2 = (Inr s, w')" and
    h: "h = \<lparr>ph_db = db, ph_deleteStmt = s, ph_deleteArgs = purgeDeleteMakeArgs b\<rparr>"
    by (auto simp: openPurgeHandle_def split: prod.splits sum.splits baseline_result.splits)
  from l have "b = max_id (T w1 db) \<and> T w2 = T w1"
    unfolding baselineQueryRetries_def numeral_3_eq_3
    by (rule baselineLoop_Baseline [OF assms(1,2)])
  with h sql_lawD(3,4) [OF assms(1) p] show ?thesis by simp
qed

lemma max_id_ge: "r \<in> set rs \<Longrightarrow> fst r \<le> max_id rs"
  by (cases "rs = []") (auto simp: max_id_def intro!: Max_ge)


subsection \<open>Names\<close>

lemma within_segment:
  assumes "within ns n" and "CHR ''/'' \<notin> set ns"
  shows "\<exists>xs ys. split_on (CHR ''/'') (map lower n) = xs @ [ns] @ ys \<and> xs \<noteq> [] \<and> ys \<noteq> []"
proof -
  obtain a b where "map lower n = a @ CHR ''/'' # ns @ CHR ''/'' # b"
    using assms(1) by (auto simp: within_def)
  then have "split_on (CHR ''/'') (map lower n) =
      split_on (CHR ''/'') a @ [ns] @ split_on (CHR ''/'') b"
    by (simp add: split_on_append split_on_no_sep [OF assms(2)])
  then show ?thesis by (metis split_on_not_Nil)
qed

lemma lower_slash: "lower c = CHR ''/'' \<longleftrightarrow> c = CHR ''/''"
proof (cases "(65::nat) \<le> of_char c \<and> of_char c \<le> (90::nat)")
  case True
  then have "of_char (lower c) = of_char c + (32::nat)" by (simp add: lower_def)
  moreover have "of_char (CHR ''/'') = (47::nat)" by simp
  ultimately show ?thesis using True by fastforce
qed (auto simp: lower_def)

lemma no_slash_lower: "CHR ''/'' \<notin> set n \<Longrightarrow> CHR ''/'' \<notin> set (map lower n)"
proof
  assume n: "CHR ''/'' \<notin> set n" and "CHR ''/'' \<in> set (map lower n)"
  from this(2) have "CHR ''/'' \<in> lower ` set n" by (simp only: set_map)
  then obtain c where "CHR ''/'' = lower c" and c: "c \<in> set n" by (rule imageE)
  from this(1) [symmetric] have "c = CHR ''/''" by (simp only: lower_slash)
  with c n show False by (simp only: simp_thms)
qed

lemma cluster_scoped_segments:
  assumes "CHR ''/'' \<notin> set kind" and "CHR ''/'' \<notin> set name"
  shows "split_on (CHR ''/'') (map lower (''/registry/'' @ kind @ CHR ''/'' # name)) =
    [[], ''registry'', map lower kind, map lower name]"
proof -
  have "map lower (''/registry/'' @ kind @ CHR ''/'' # name) =
      [] @ CHR ''/'' # (''registry'' @ CHR ''/'' # (map lower kind @ CHR ''/'' # map lower name))"
    by (simp add: lower_def)
  then show ?thesis
    by (simp only: split_on_append split_on_no_sep [OF no_slash_lower [OF assms(1)]]
        split_on_no_sep [OF no_slash_lower [OF assms(2)]]) simp
qed

lemma cluster_scoped_unprotected:
  assumes "CHR ''/'' \<notin> set kind" and "CHR ''/'' \<notin> set name"
    and "\<not> isSystemNamespace (map lower kind)"
    and "kind = ''namespaces'' \<longrightarrow> \<not> isSystemNamespace name"
  shows "\<not> protected_name (''/registry/'' @ kind @ CHR ''/'' # name)"
proof
  let ?n = "''/registry/'' @ kind @ CHR ''/'' # name"
  assume "protected_name ?n"
  then obtain ns where ns: "ns \<in> set systemNamespaces"
    and "?n = ''/registry/namespaces/'' @ ns \<or> within ns ?n"
    unfolding protected_name_def by blast
  then show False
  proof (elim disjE)
    assume "?n = ''/registry/namespaces/'' @ ns"
    then have "split_on (CHR ''/'') ?n = split_on (CHR ''/'') (''/registry/namespaces/'' @ ns)" by simp
    then have "kind = ''namespaces'' \<and> name = ns"
      using split_on_no_sep [OF assms(1)] split_on_no_sep [OF assms(2)]
        split_on_no_sep [OF systemNamespaces_plain(3) [OF ns]] split_on_append [of "CHR ''/''" kind name]
      by simp
    with assms(4) ns show False by (simp add: isSystemNamespace_def)
  next
    assume "within ns ?n"
    from within_segment [OF this systemNamespaces_plain(3) [OF ns]] obtain xs ys where
      "[[], ''registry'', map lower kind, map lower name] = xs @ [ns] @ ys" "xs \<noteq> []" "ys \<noteq> []"
      unfolding cluster_scoped_segments [OF assms(1,2)] by blast
    then have "ns = ''registry'' \<or> ns = map lower kind"
      by (auto simp: Cons_eq_append_conv)
    with ns assms(3) show False by (auto simp: systemNamespaces_def isSystemNamespace_def)
  qed
qed

lemma namespaced_protected:
  assumes "ns \<in> set systemNamespaces"
  shows "protected_name (pre @ CHR ''/'' # ns @ CHR ''/'' # name)"
proof -
  have "map lower ns = ns" "lower (CHR ''/'') = CHR ''/''"
    using systemNamespaces_plain(2) [OF assms] by auto
  then have "within ns (pre @ CHR ''/'' # ns @ CHR ''/'' # name)"
    unfolding within_def by (intro exI [of _ "map lower pre"] exI [of _ "map lower name"]) simp
  with assms show ?thesis unfolding protected_name_def by blast
qed


subsection \<open>Connections\<close>

text \<open>
  \<open>D w\<close> is the set of open connections. Opening adds a new one, closing removes it whatever it
  returns, and nothing else opens or closes one. \<open>clk\<close> is the clock, moved only by the timers, each
  by at most its duration.
\<close>

definition conn_law :: "('w \<Rightarrow> nat set) \<Rightarrow> ('w \<Rightarrow> int) \<Rightarrow> 'w os \<Rightarrow> bool" where
  "conn_law D clk sys \<longleftrightarrow>
     (\<forall>d s w e w'. os_sql_open sys d s w = (Inl e, w') \<longrightarrow> D w' = D w \<and> clk w' = clk w) \<and>
     (\<forall>d s w db w'. os_sql_open sys d s w = (Inr db, w') \<longrightarrow> db \<notin> D w \<and> D w' = insert db (D w) \<and> clk w' = clk w) \<and>
     (\<forall>db w e w'. os_db_close sys db w = (e, w') \<longrightarrow> D w' = D w - {db} \<and> clk w' = clk w) \<and>
     (\<forall>db q w r w'. os_sql_query_int sys db q w = (r, w') \<longrightarrow> D w' = D w \<and> clk w' = clk w) \<and>
     (\<forall>db q w r w'. os_sql_prepare sys db q w = (r, w') \<longrightarrow> D w' = D w \<and> clk w' = clk w) \<and>
     (\<forall>c d w r w'. os_wait_timer sys c d w = (r, w') \<longrightarrow> D w' = D w \<and> clk w' \<le> clk w + max 0 d)"

lemma conn_lawD:
  assumes "conn_law D clk sys"
  shows "os_sql_open sys d s w = (Inl e, w') \<Longrightarrow> D w' = D w \<and> clk w' = clk w"
    and "os_sql_open sys d s w = (Inr db, w') \<Longrightarrow> db \<notin> D w \<and> D w' = insert db (D w) \<and> clk w' = clk w"
    and "os_db_close sys db w = (err, w') \<Longrightarrow> D w' = D w - {db} \<and> clk w' = clk w"
    and "os_sql_query_int sys db q w = (rq, w') \<Longrightarrow> D w' = D w \<and> clk w' = clk w"
    and "os_sql_prepare sys db q w = (rp, w') \<Longrightarrow> D w' = D w \<and> clk w' = clk w"
    and "os_wait_timer sys c dur w = (rt, w') \<Longrightarrow> D w' = D w \<and> clk w' \<le> clk w + max 0 dur"
  using assms unfolding conn_law_def by simp_all

text \<open>\<open>n\<close> attempts with doubling pauses wait less than \<open>2^n\<close> times the first pause, and one pause
  less than there are attempts.\<close>

lemma baselineLoop_conn:
  assumes "conn_law D clk sys" and "0 \<le> d"
  shows "baselineLoop sys c db (Suc n) d w = (res, w') \<Longrightarrow>
    D w' = D w \<and> clk w' \<le> clk w + (2 ^ n - 1) * d"
  using assms(2)
proof (induction n arbitrary: d w)
  case 0
  then show ?case by (auto split: prod.splits sum.splits dest: conn_lawD(4) [OF assms(1)])
next
  case (Suc n)
  obtain q w1 where q: "os_sql_query_int sys db baselineQuery w = (q, w1)"
    by (cases "os_sql_query_int sys db baselineQuery w")
  obtain ok w2 where t: "os_wait_timer sys c d w1 = (ok, w2)" by (cases "os_wait_timer sys c d w1")
  note w1 = conn_lawD(4) [OF assms(1) q]
  note w2 = conn_lawD(6) [OF assms(1) t]
  have pow: "0 \<le> (2 ^ n - 1) * (2 * d)" using Suc.prems(2) by simp
  consider "w' = w1" | "w' = w2" | "baselineLoop sys c db (Suc n) (2 * d) w2 = (res, w')"
    using Suc.prems(1) q t by (auto split: sum.splits bool.splits)
  then have "D w' = D w \<and> clk w' \<le> clk w + d + (2 ^ n - 1) * (2 * d)"
  proof cases
    case 1
    from w1 pow Suc.prems(2) show ?thesis unfolding 1 by linarith
  next
    case 2
    from w1 w2 pow Suc.prems(2) show ?thesis unfolding 2 by (auto simp only: max_def split: if_splits)
  next
    case 3
    from Suc.IH [OF 3] Suc.prems(2) w1 w2 show ?thesis by simp
  qed
  then show ?case by (simp add: algebra_simps)
qed

subsection \<open>Properties\<close>


text \<open>What a successful purge with baseline \<open>b\<close> keeps of the system namespaces: every row of an
  object in one of them and the namespace objects themselves, whenever they were written.\<close>

theorem purge_preserves_system:
  assumes "sql_law T prep purge_clauses sys"
    and "prep w (ph_deleteStmt h) = Some (db, purgeDeleteQuery)"
    and "ph_deleteArgs h = purgeDeleteMakeArgs b" and "purge_purge sys h c w = (None, w')"
    and "ns \<in> set systemNamespaces"
    and "n = ''/registry/namespaces/'' @ ns \<or> n = pre @ CHR ''/'' # ns @ CHR ''/'' # obj"
    and "(i, n) \<in> set (T w db)"
  shows "(i, n) \<in> set (T w' db)"
proof -
  have "protected_name n"
    using assms(5,6) namespaced_protected [OF assms(5), of pre obj] unfolding protected_name_def by blast
  with purge_purge_rows [OF assms(1-4)] assms(7) show ?thesis by (simp add: keeps_def)
qed

text \<open>What a successful purge with baseline \<open>b\<close> deletes: every cluster-scoped object written
  after the baseline (a key \<^verbatim>\<open>/registry/<kind>/<name>\<close>, the namespaces that are not system
  namespaces among them). The comment on \<^verbatim>\<open>Instance.Release\<close> says cluster-scoped resources are
  preserved.\<close>

theorem purge_deletes_cluster_scoped:
  assumes "sql_law T prep purge_clauses sys"
    and "prep w (ph_deleteStmt h) = Some (db, purgeDeleteQuery)"
    and "ph_deleteArgs h = purgeDeleteMakeArgs b" and "purge_purge sys h c w = (None, w')"
    and "CHR ''/'' \<notin> set kind" and "CHR ''/'' \<notin> set name" and "\<not> isSystemNamespace (map lower kind)"
    and "kind = ''namespaces'' \<longrightarrow> \<not> isSystemNamespace name"
    and "b < i"
  shows "(i, ''/registry/'' @ kind @ CHR ''/'' # name) \<notin> set (T w' db)"
  using purge_purge_rows [OF assms(1-4)] cluster_scoped_unprotected [OF assms(5-8)] assms(9)
  by (simp add: keeps_def)



subsection \<open>Witnesses\<close>

text \<open>A database that is its table; the one prepared statement is the purge.\<close>

definition table_os :: "row list os" where
  "table_os = quiet_os\<lparr>os_sql_query_int := (\<lambda>db q w. (Inr (max_id w), w)),
     os_sql_prepare := (\<lambda>db q w. if db = 1 \<and> q = purgeDeleteQuery then (Inr 1, w) else (Inl (errors_New ''syntax''), w)),
     os_sql_exec := (\<lambda>s c as w. (Inr (Inr 0), filter (\<lambda>r. \<not> list_all2 (holds r) purge_clauses as) w))\<rparr>"

abbreviation table_T :: "row list \<Rightarrow> nat \<Rightarrow> row list" where "table_T w db \<equiv> w"
abbreviation table_prep :: "row list \<Rightarrow> nat \<Rightarrow> (nat \<times> string) option" where
  "table_prep w s \<equiv> Some (1, purgeDeleteQuery)"

lemma table_law: "sql_law table_T table_prep purge_clauses table_os" "settled table_T table_os"
  by (auto simp: sql_law_def settled_def table_os_def quiet_os_def split: if_splits)

definition sample_table :: "row list" where
  "sample_table = [(1, ''/registry/namespaces/default''), (2, ''/registry/health'')]"

definition sample_new :: "row list" where
  "sample_new = [(3, ''/registry/clusterroles/x''), (4, ''/registry/secrets/default/s'')]"

definition sample_handle :: purge_handle where
  "sample_handle = \<lparr>ph_db = 1, ph_deleteStmt = 1, ph_deleteArgs = purgeDeleteMakeArgs 2\<rparr>"

lemma sample_open: "openPurgeHandle table_os 0 ''/x.db'' sample_table = (Inr sample_handle, sample_table)"
  by (simp add: openPurgeHandle_def baselineQueryRetries_def numeral_3_eq_3 table_os_def quiet_os_def
      sample_table_def max_id_def sample_handle_def)

lemma table_purge:
  "purge_purge table_os sample_handle c w = (None, filter (keeps 2) w)"
  by (simp add: purge_purge_def table_os_def sample_handle_def purge_selects)


theorem purge_preserves_system_witness:
  "(4, ''/registry/secrets/default/s'') \<in>
     set (snd (purge_purge table_os sample_handle 0 (sample_table @ sample_new)))"
proof -
  have args: "ph_deleteArgs sample_handle = purgeDeleteMakeArgs 2" by (simp add: sample_handle_def)
  have ns: "''default'' \<in> set systemNamespaces" by (simp add: systemNamespaces_def)
  have row: "(4, ''/registry/secrets/default/s'') \<in> set (sample_table @ sample_new)"
    by (simp add: sample_new_def)
  have nm: "''/registry/secrets/default/s'' = ''/registry/secrets'' @ CHR ''/'' # ''default'' @ CHR ''/'' # ''s''"
    by simp
  show ?thesis
    using purge_preserves_system [OF table_law(1) refl args table_purge ns disjI2 [OF nm] row]
    by (simp add: table_purge)
qed

theorem purge_deletes_cluster_scoped_witness:
  "(3, ''/registry/clusterroles/x'') \<in> set (sample_table @ sample_new) \<and>
   (3, ''/registry/clusterroles/x'') \<notin>
     set (snd (purge_purge table_os sample_handle 0 (sample_table @ sample_new)))"
proof -
  have args: "ph_deleteArgs sample_handle = purgeDeleteMakeArgs 2" by (simp add: sample_handle_def)
  have kind: "\<not> isSystemNamespace (map lower ''clusterroles'')"
    by (simp add: isSystemNamespace_def systemNamespaces_def lower_def)
  have plain: "CHR ''/'' \<notin> set ''clusterroles''" "CHR ''/'' \<notin> set ''x''"
    "''clusterroles'' = ''namespaces'' \<longrightarrow> \<not> isSystemNamespace ''x''" "(2::int) < 3" by simp_all
  show ?thesis
    using purge_deletes_cluster_scoped [OF table_law(1) refl args table_purge plain(1,2) kind plain(3,4),
      of "sample_table @ sample_new"]
    by (simp add: table_purge sample_new_def)
qed

text \<open>A database that is always locked, with the open connections and the clock as its state.\<close>

definition locked_os :: "(nat set \<times> int) os" where
  "locked_os = quiet_os\<lparr>os_sql_open := (\<lambda>d s (D, t). if 1 \<in> D then (Inl (errors_New ''open''), (D, t)) else (Inr 1, (insert 1 D, t))),
     os_db_close := (\<lambda>db (D, t). (None, (D - {db}, t))),
     os_sql_query_int := (\<lambda>db q w. (Inl (errors_New ''SQLITE_BUSY''), w)),
     os_wait_timer := (\<lambda>c d (D, t). (True, (D, t + max 0 d)))\<rparr>"


end
