(* ===== verification/Instance.thy ===== *)
theory Instance
  imports Kubestack Config Purge
begin

text \<open>
  \<^verbatim>\<open>internal/core/instance.go\<close> and the readiness poll of \<^verbatim>\<open>namespace.go\<close>: one kube-apiserver and
  kine environment with its generation counter, its start with retries, its stop, its client cache
  and the release of a holder. Instances are objects shared by reference: the operations that call
  back into the pool work on a heap of them.
\<close>

subsection \<open>The instance\<close>

definition defaultMaxStartRetries :: int where "defaultMaxStartRetries = 5"
definition maxNamespaceRetries :: nat where "maxNamespaceRetries = 3"
definition instanceQPS :: int where "instanceQPS = 1000"
definition instanceBurst :: int where "instanceBurst = 2000"
definition internalQPS :: int where "internalQPS = 10000"
definition internalBurst :: int where "internalBurst = 10000"
definition nsReadinessPollInterval :: duration where "nsReadinessPollInterval = 10 * Millisecond"
definition nsReadinessTimeout :: duration where "nsReadinessTimeout = 30 * Second"
definition maxCASRetries :: nat where "maxCASRetries = 100"

record client_cache =
  cc_config :: "rest_config option"
  cc_clientset :: "nat option"

text \<open>The generation is the 64-bit atomic counter. \<open>in_hasReleaser\<close> and \<open>in_hasPorts\<close> say whether
  the two injected pointers are set; the releaser and the registry are arguments and state of the
  operations that use them.\<close>

record inst =
  in_cfg :: instance_config
  in_id :: string
  in_dataDir :: string
  in_sqlitePath :: string
  in_kubeconfig :: string
  in_hasReleaser :: bool
  in_hasPorts :: bool
  in_gen :: "64 word"
  in_started :: bool
  in_lastErr :: "go_error option"
  in_clients :: "client_cache option"
  in_cancel :: "ctx option"
  in_stack :: "stack option"
  in_purge :: "purge_handle option"

record new_instance_params =
  np_ID :: string
  np_DataDir :: string
  np_hasReleaser :: bool
  np_hasPorts :: bool
  np_Config :: instance_config

definition NewInstance :: "new_instance_params \<Rightarrow> inst outcome" where
  "NewInstance params =
     (if np_ID params = '''' then Panic ''k8senv: instance id must not be empty''
      else if np_DataDir params = '''' then Panic ''k8senv: instance data dir must not be empty''
      else if \<not> np_hasReleaser params then Panic ''k8senv: instance releaser must not be nil''
      else if \<not> np_hasPorts params then Panic ''k8senv: instance port registry must not be nil''
      else if ic_Validate (np_Config params) \<noteq> None then Panic ''k8senv: invalid instance config''
      else Ret \<lparr>in_cfg = np_Config params, in_id = np_ID params, in_dataDir = np_DataDir params,
        in_sqlitePath = filepath_Join [np_DataDir params, ''db'', ''state.db''],
        in_kubeconfig = filepath_Join [np_DataDir params, ''kubeconfig.yaml''],
        in_hasReleaser = np_hasReleaser params, in_hasPorts = np_hasPorts params, in_gen = 0,
        in_started = False, in_lastErr = None, in_clients = None, in_cancel = None, in_stack = None,
        in_purge = None\<rparr>)"

definition IsStarted :: "inst \<Rightarrow> bool" where "IsStarted i = in_started i"
definition IsBusy :: "inst \<Rightarrow> bool" where "IsBusy i \<longleftrightarrow> in_gen i mod 2 = 1"
definition Err :: "inst \<Rightarrow> go_error option" where "Err i = in_lastErr i"
definition setErr :: "inst \<Rightarrow> go_error \<Rightarrow> inst" where "setErr i e = i\<lparr>in_lastErr := Some e\<rparr>"

subsection \<open>The generation counter\<close>

definition markAcquired :: "inst \<Rightarrow> 64 word \<times> inst" where
  "markAcquired i = (in_gen i + 1, i\<lparr>in_gen := in_gen i + 1\<rparr>)"

definition tryRelease :: "inst \<Rightarrow> 64 word \<Rightarrow> bool \<times> inst" where
  "tryRelease i token =
     (if in_gen i = token then (True, i\<lparr>in_gen := token + 1\<rparr>) else (False, i))"

definition mustRelease :: "inst \<Rightarrow> 64 word \<Rightarrow> unit outcome \<times> inst" where
  "mustRelease i token =
     (case tryRelease i token of
        (True, i1) \<Rightarrow> (Ret (), i1)
      | (False, i1) \<Rightarrow> (Panic (''k8senv: double-release of instance '' @ in_id i), i1))"

definition isCurrentToken :: "inst \<Rightarrow> 64 word \<Rightarrow> bool" where
  "isCurrentToken i token \<longleftrightarrow> in_gen i = token"

subsection \<open>The client cache\<close>

text \<open>
  \<open>race k\<close> is what another goroutine does to the cache between the load and the compare-and-swap
  of round \<open>k\<close>: nothing, or the installation of a new pointer. \<open>n\<close> rounds are left.
\<close>

type_synonym race = "nat \<Rightarrow> client_cache option option"

definition no_race :: race where "no_race k = None"

fun casLoop ::
  "nat \<Rightarrow> race \<Rightarrow> (client_cache \<Rightarrow> client_cache option) \<Rightarrow> client_cache option \<Rightarrow>
   go_error option \<times> client_cache option" where
  "casLoop 0 race f cur =
     (Some (Errorf ''casClientCache did not converge after %d attempts'' [ArgInt (int maxCASRetries)]), cur)"
| "casLoop (Suc n) race f cur =
     (let base = (case cur of None \<Rightarrow> \<lparr>cc_config = None, cc_clientset = None\<rparr> | Some c \<Rightarrow> c)
      in case f base of
           None \<Rightarrow> (None, cur)
         | Some updated \<Rightarrow>
             (case race (maxCASRetries - Suc n) of
                None \<Rightarrow> (None, Some updated)
              | Some cur' \<Rightarrow> casLoop n race f cur'))"

definition casClientCache ::
  "inst \<Rightarrow> race \<Rightarrow> (client_cache \<Rightarrow> client_cache option) \<Rightarrow> go_error option \<times> inst" where
  "casClientCache i race f =
     (case casLoop maxCASRetries race f (in_clients i) of (e, c) \<Rightarrow> (e, i\<lparr>in_clients := c\<rparr>))"

definition getOrBuildRestConfig ::
  "'w os \<Rightarrow> race \<Rightarrow> inst \<Rightarrow> 'w \<Rightarrow> (go_error + rest_config) \<times> inst \<times> 'w" where
  "getOrBuildRestConfig sys race i w =
     (case Option.bind (in_clients i) cc_config of
        Some cfg \<Rightarrow> (Inr cfg, i, w)
      | None \<Rightarrow>
          (case os_build_config sys (in_kubeconfig i) w of
             (Inl e, w1) \<Rightarrow> (Inl (Wrapf ''build config from kubeconfig: %w'' [] e), i, w1)
           | (Inr cfg0, w1) \<Rightarrow>
               (let cfg = cfg0\<lparr>rc_QPS := instanceQPS, rc_Burst := instanceBurst\<rparr>
                in case casClientCache i race
                          (\<lambda>c. if cc_config c \<noteq> None then None else Some (c\<lparr>cc_config := Some cfg\<rparr>)) of
                     (Some e, i1) \<Rightarrow> (Inl (Wrapf ''cache rest config: %w'' [] e), i1, w1)
                   | (None, i1) \<Rightarrow> (Inr cfg, i1, w1))))"

definition inst_Config ::
  "'w os \<Rightarrow> race \<Rightarrow> inst \<Rightarrow> 'w \<Rightarrow> (go_error + rest_config) \<times> inst \<times> 'w" where
  "inst_Config sys race i w =
     (if \<not> IsBusy i then (Inl ErrInstanceReleased, i, w)
      else if \<not> in_started i then (Inl ErrNotStarted, i, w)
      else getOrBuildRestConfig sys race i w)"

definition getOrBuildInternalClient ::
  "'w os \<Rightarrow> race \<Rightarrow> inst \<Rightarrow> 'w \<Rightarrow> (go_error + nat) \<times> inst \<times> 'w" where
  "getOrBuildInternalClient sys race i w =
     (case Option.bind (in_clients i) cc_clientset of
        Some cl \<Rightarrow> (Inr cl, i, w)
      | None \<Rightarrow>
          (case getOrBuildRestConfig sys race i w of
             (Inl e, i1, w1) \<Rightarrow> (Inl (Wrapf ''build config for internal client: %w'' [] e), i1, w1)
           | (Inr cfg, i1, w1) \<Rightarrow>
               (case os_new_clientset sys (cfg\<lparr>rc_QPS := internalQPS, rc_Burst := internalBurst\<rparr>) of
                  Inl e \<Rightarrow> (Inl (Wrapf ''create internal client: %w'' [] e), i1, w1)
                | Inr client \<Rightarrow>
                    (case casClientCache i1 race
                            (\<lambda>cc. if cc_clientset cc \<noteq> None then None
                                  else Some (cc\<lparr>cc_clientset := Some client\<rparr>)) of
                       (Some e, i2) \<Rightarrow> (Inl (Wrapf ''cache internal client: %w'' [] e), i2, w1)
                     | (None, i2) \<Rightarrow> (Inr client, i2, w1)))))"

subsection \<open>Waiting for the system namespaces\<close>

definition namespaces_ready ::
  "'w os \<Rightarrow> nat \<Rightarrow> ctx \<Rightarrow> 'w \<Rightarrow> (go_error + bool) \<times> 'w" where
  "namespaces_ready sys client c w =
     (case os_list_namespaces sys client c w of
        (Inl e, w1) \<Rightarrow> (Inr False, w1)
      | (Inr items, w1) \<Rightarrow>
          (Inr (length (filter isSystemNamespace items) \<ge> length systemNamespaces), w1))"

text \<open>Called under \<^verbatim>\<open>startMu\<close> before \<^verbatim>\<open>started\<close> is set, when no other goroutine writes the cache.\<close>

definition waitForSystemNamespaces ::
  "'w os \<Rightarrow> inst \<Rightarrow> ctx \<Rightarrow> 'w \<Rightarrow> go_error option \<times> inst \<times> 'w" where
  "waitForSystemNamespaces sys i c w =
     (case getOrBuildInternalClient sys no_race i w of
        (Inl e, i1, w1) \<Rightarrow>
          (Some (Wrapf ''build internal client for namespace readiness: %w'' [] e), i1, w1)
      | (Inr client, i1, w1) \<Rightarrow>
          (case os_ctx_with_timeout sys c nsReadinessTimeout w1 of
             (pollCtx, w2) \<Rightarrow>
               (case os_poll_cancel sys pollCtx nsReadinessPollInterval True
                       (namespaces_ready sys client) w2 of
                  (r, w3) \<Rightarrow>
                    (map_option (Wrapf ''poll for system namespaces: %w'' []) r, i1,
                     os_ctx_cancel sys pollCtx w3))))"


subsection \<open>Start\<close>

definition inst_stack_config :: "inst \<Rightarrow> stack_config" where
  "inst_stack_config i = \<lparr>ks_DataDir = in_dataDir i, ks_SQLitePath = in_sqlitePath i,
     ks_KubeconfigPath = in_kubeconfig i, ks_KineBinary = ic_KineBinary (in_cfg i),
     ks_APIServerBinary = ic_KubeAPIServerBinary (in_cfg i),
     ks_CachedDBPath = ic_CachedDBPath (in_cfg i), ks_KineReadyTimeout = ic_StartTimeout (in_cfg i),
     ks_APIServerReadyTimeout = ic_StartTimeout (in_cfg i), ks_StopTimeout = ic_StopTimeout (in_cfg i),
     ks_hasPortRegistry = in_hasPorts i\<rparr>"

definition teardownFailedAttempt ::
  "'w os \<Rightarrow> inst \<Rightarrow> ctx \<Rightarrow> stack \<Rightarrow> port_registry \<Rightarrow> 'w \<Rightarrow> inst \<times> port_registry \<times> 'w" where
  "teardownFailedAttempt sys i processCtx s r w =
     (case stack_Stop sys s (ic_StopTimeout (in_cfg i)) r w of
        (e, s1, r1, w1) \<Rightarrow> (i\<lparr>in_clients := None\<rparr>, r1, os_ctx_cancel sys processCtx w1))"

text \<open>The result is the pair of the code: whether the caller is done, and the error.\<close>

definition tryStartAttempt ::
  "'w os \<Rightarrow> (kine_process, api_process, 'w) errgroup \<Rightarrow> inst \<Rightarrow> ctx \<Rightarrow> port_registry \<Rightarrow> 'w \<Rightarrow>
   (bool \<times> go_error option) \<times> inst \<times> port_registry \<times> 'w" where
  "tryStartAttempt sys grp i c r w =
     (case os_ctx_with_cancel sys Background w of
        (processCtx, w1) \<Rightarrow>
          (case StartWithRetry sys grp (Some processCtx) (Some c) (inst_stack_config i)
                  (ic_MaxStartRetries (in_cfg i)) r w1 of
             (Inl e, r1, w2) \<Rightarrow>
               ((True, Some (Wrapf ''start kubestack: %w'' [] e)), i, r1, os_ctx_cancel sys processCtx w2)
           | (Inr s, r1, w2) \<Rightarrow>
               (case waitForSystemNamespaces sys i c w2 of
                  (Some e, i1, w3) \<Rightarrow>
                    (case teardownFailedAttempt sys i1 processCtx s r1 w3 of
                       (i2, r2, w4) \<Rightarrow> ((False, Some e), i2, r2, w4))
                | (None, i1, w3) \<Rightarrow>
                    (case openPurgeHandle sys c (in_sqlitePath i1) w3 of
                       (Inl e, w4) \<Rightarrow>
                         (case teardownFailedAttempt sys i1 processCtx s r1 w4 of
                            (i2, r2, w5) \<Rightarrow>
                              ((False, Some (Wrapf ''open purge handle: %w'' [] e)), i2, r2, w5))
                     | (Inr h, w4) \<Rightarrow>
                         ((True, None),
                          i1\<lparr>in_purge := Some h, in_cancel := Some processCtx, in_stack := Some s,
                             in_started := True\<rparr>, r1, w4)))))"

text \<open>The loop of \<^verbatim>\<open>doStart\<close>, with the attempts left.\<close>

fun startAttempts ::
  "'w os \<Rightarrow> (kine_process, api_process, 'w) errgroup \<Rightarrow> nat \<Rightarrow> go_error option \<Rightarrow> inst \<Rightarrow> ctx \<Rightarrow>
   port_registry \<Rightarrow> 'w \<Rightarrow> go_error option \<times> inst \<times> port_registry \<times> 'w" where
  "startAttempts sys grp 0 lastNSErr i c r w =
     (Some (Wrapf ''wait for system namespaces: %w'' [] (the lastNSErr)), i, r, w)"
| "startAttempts sys grp (Suc n) lastNSErr i c r w =
     (case tryStartAttempt sys grp i c r w of
        ((True, e), i1, r1, w1) \<Rightarrow> (e, i1, r1, w1)
      | ((False, e), i1, r1, w1) \<Rightarrow> startAttempts sys grp n e i1 c r1 w1)"

definition doStart ::
  "'w os \<Rightarrow> (kine_process, api_process, 'w) errgroup \<Rightarrow> inst \<Rightarrow> ctx \<Rightarrow> port_registry \<Rightarrow> 'w \<Rightarrow>
   go_error option \<times> inst \<times> port_registry \<times> 'w" where
  "doStart sys grp i c r w =
     (case EnsureDir sys (in_dataDir i) w of
        (Some e, w1) \<Rightarrow> (Some (Wrapf ''mkdir data dir: %w'' [] e), i, r, w1)
      | (None, w1) \<Rightarrow> startAttempts sys grp maxNamespaceRetries None i c r w1)"

definition inst_Start ::
  "'w os \<Rightarrow> (kine_process, api_process, 'w) errgroup \<Rightarrow> inst \<Rightarrow> ctx \<Rightarrow> port_registry \<Rightarrow> 'w \<Rightarrow>
   go_error option \<times> inst \<times> port_registry \<times> 'w" where
  "inst_Start sys grp i c r w = (if IsStarted i then (None, i, r, w) else doStart sys grp i c r w)"

subsection \<open>Stop\<close>

definition effectiveStopTimeout :: "'w os \<Rightarrow> inst \<Rightarrow> ctx \<Rightarrow> 'w \<Rightarrow> duration" where
  "effectiveStopTimeout sys i c w =
     (let configured = ic_StopTimeout (in_cfg i);
          timeout = (case os_ctx_remaining sys c w of
                       None \<Rightarrow> configured
                     | Some remaining \<Rightarrow> if remaining < configured then remaining else configured)
      in if timeout \<le> 0 then Millisecond else timeout)"

definition inst_Stop ::
  "'w os \<Rightarrow> inst \<Rightarrow> ctx \<Rightarrow> port_registry \<Rightarrow> 'w \<Rightarrow> go_error option \<times> inst \<times> port_registry \<times> 'w" where
  "inst_Stop sys i c r w =
     (case os_ctx_err sys c w of
        Some ce \<Rightarrow> (Some (Wrapf ''stop instance: %w'' [] (Std ce)), i, r, w)
      | None \<Rightarrow>
          (let i1 = i\<lparr>in_stack := None, in_cancel := None, in_purge := None, in_clients := None,
                 in_started := False\<rparr>;
               w1 = (case in_purge i of None \<Rightarrow> w | Some h \<Rightarrow> snd (purge_Close sys h w));
               cancel = (\<lambda>v. case in_cancel i of None \<Rightarrow> v | Some pc \<Rightarrow> os_ctx_cancel sys pc v)
           in case in_stack i of
                None \<Rightarrow> (None, i1, r, cancel w1)
              | Some s \<Rightarrow>
                  (case stack_Stop sys s (effectiveStopTimeout sys i c w1) r w1 of
                     (e, s1, r1, w2) \<Rightarrow>
                       (map_option (Wrapf ''stop kubestack: %w'' []) e, i1, r1, cancel w2))))"

subsection \<open>The heap of instances\<close>

text \<open>
  \<open>co_heap\<close> maps addresses to instances, \<open>co_next\<close> is the next fresh address; the pool and the
  manager hold addresses. The registry is the manager's, shared by all instances.
\<close>

record 'w core =
  co_heap :: "nat \<Rightarrow> inst"
  co_next :: nat
  co_reg :: port_registry
  co_world :: 'w

definition set_inst :: "nat \<Rightarrow> inst \<Rightarrow> ('w, 'z) core_scheme \<Rightarrow> ('w, 'z) core_scheme" where
  "set_inst a i s = s\<lparr>co_heap := (co_heap s)(a := i)\<rparr>"

definition inst_call ::
  "nat \<Rightarrow> (inst \<Rightarrow> port_registry \<Rightarrow> 'w \<Rightarrow> 'r \<times> inst \<times> port_registry \<times> 'w) \<Rightarrow>
   ('w, 'z) core_scheme \<Rightarrow> 'r \<times> ('w, 'z) core_scheme" where
  "inst_call a f s =
     (case f (co_heap s a) (co_reg s) (co_world s) of
        (res, i, r, w) \<Rightarrow> (res, (set_inst a i s)\<lparr>co_reg := r, co_world := w\<rparr>))"

definition alloc_inst :: "inst \<Rightarrow> ('w, 'z) core_scheme \<Rightarrow> nat \<times> ('w, 'z) core_scheme" where
  "alloc_inst i s = (co_next s, (set_inst (co_next s) i s)\<lparr>co_next := Suc (co_next s)\<rparr>)"

subsection \<open>Release\<close>

text \<open>
  The two methods of \<^verbatim>\<open>InstanceReleaser\<close> are arguments. A panic is a result, with the state it
  leaves, since the deferred guard changes the state and panics again.
\<close>

type_synonym ('w, 'z, 'r) releaser_op =
  "nat \<Rightarrow> 64 word \<Rightarrow> ('w, 'z) core_scheme \<Rightarrow> 'r outcome \<times> ('w, 'z) core_scheme"

definition failRelease ::
  "('w, 'z, unit) releaser_op \<Rightarrow> nat \<Rightarrow> 64 word \<Rightarrow> string \<Rightarrow> go_error \<Rightarrow> ('w, 'z) core_scheme \<Rightarrow>
   go_error outcome \<times> ('w, 'z) core_scheme" where
  "failRelease releaseFailed a token msg err s =
     (let wrapped = Wrapf ''%s: %w'' [ArgStr msg] err
      in case releaseFailed a token (set_inst a (setErr (co_heap s a) wrapped) s) of
           (Ret _, s1) \<Rightarrow> (Ret wrapped, s1)
         | (Panic m, s1) \<Rightarrow> (Panic m, s1))"

definition releasePurge ::
  "'w os \<Rightarrow> ('w, 'z, unit) releaser_op \<Rightarrow> nat \<Rightarrow> 64 word \<Rightarrow> ('w, 'z) core_scheme \<Rightarrow>
   go_error option outcome \<times> ('w, 'z) core_scheme" where
  "releasePurge sys releaseFailed a token s =
     (if \<not> in_started (co_heap s a) then (Ret None, s)
      else (case in_purge (co_heap s a) of
              None \<Rightarrow>
                (case failRelease releaseFailed a token ''purge handle not initialized''
                        (errors_New ''nil purge handle (programming error)'') s of
                   (o1, s1) \<Rightarrow> (out_map Some o1, s1))
            | Some h \<Rightarrow>
                (case os_ctx_with_timeout sys Background (ic_CleanupTimeout (in_cfg (co_heap s a))) (co_world s) of
                   (cleanCtx, w1) \<Rightarrow>
                     (case purge_purge sys h cleanCtx w1 of
                        (Some e, w2) \<Rightarrow>
                          (case failRelease releaseFailed a token ''SQLite purge during release'' e
                                  (s\<lparr>co_world := w2\<rparr>) of
                             (o1, s1) \<Rightarrow>
                               (out_map Some o1, s1\<lparr>co_world := os_ctx_cancel sys cleanCtx (co_world s1)\<rparr>))
                      | (None, w2) \<Rightarrow>
                          (Ret None, s\<lparr>co_world := os_ctx_cancel sys cleanCtx w2\<rparr>)))))"

definition guardReleasePanic ::
  "('w, 'z, unit) releaser_op \<Rightarrow> nat \<Rightarrow> 64 word \<Rightarrow> 'r outcome \<times> ('w, 'z) core_scheme \<Rightarrow>
   'r outcome \<times> ('w, 'z) core_scheme" where
  "guardReleasePanic releaseFailed a token res =
     (case res of
        (Ret x, s) \<Rightarrow> (Ret x, s)
      | (Panic m, s) \<Rightarrow>
          (if isCurrentToken (co_heap s a) token
           then (case releaseFailed a token s of
                   (Ret _, s1) \<Rightarrow> (Panic m, s1)
                 | (Panic m', s1) \<Rightarrow> (Panic m', s1))
           else (Panic m, s)))"

definition inst_Release ::
  "'w os \<Rightarrow> ('w, 'z, bool) releaser_op \<Rightarrow> ('w, 'z, unit) releaser_op \<Rightarrow> nat \<Rightarrow> 64 word \<Rightarrow>
   ('w, 'z) core_scheme \<Rightarrow> go_error option outcome \<times> ('w, 'z) core_scheme" where
  "inst_Release sys releaseToPool releaseFailed a token s =
     (if \<not> in_hasReleaser (co_heap s a)
      then (Panic ''k8senv: Release called on instance with nil releaser'', s)
      else guardReleasePanic releaseFailed a token
        (if \<not> isCurrentToken (co_heap s a) token
         then (Panic (''k8senv: double-release of instance '' @ in_id (co_heap s a)), s)
         else (case releasePurge sys releaseFailed a token s of
                 (Panic m, s1) \<Rightarrow> (Panic m, s1)
               | (Ret (Some e), s1) \<Rightarrow> (Ret (Some e), s1)
               | (Ret None, s1) \<Rightarrow>
                   (case releaseToPool a token s1 of
                      (Ret _, s2) \<Rightarrow> (Ret None, s2)
                    | (Panic m, s2) \<Rightarrow> (Panic m, s2)))))"


subsection \<open>The invariant of an instance\<close>

text \<open>A started instance has its stack, its purge handle and its cancel function; one that is not
  started has none of them and no cached client.\<close>

definition inst_inv :: "inst \<Rightarrow> bool" where
  "inst_inv i \<longleftrightarrow> ic_Validate (in_cfg i) = None \<and>
     (if in_started i
      then (\<exists>s. in_stack i = Some s \<and> stack_up s) \<and> in_purge i \<noteq> None \<and> in_cancel i \<noteq> None
      else in_stack i = None \<and> in_purge i = None \<and> in_cancel i = None \<and> in_clients i = None)"

definition owned :: "inst \<Rightarrow> int set" where
  "owned i = (case in_stack i of None \<Rightarrow> {} | Some s \<Rightarrow> {st_kinePort s, st_apiPort s})"

lemma NewInstance_inv [inv_intros]: "NewInstance p = Ret i \<Longrightarrow> inst_inv i \<and> \<not> IsBusy i \<and> \<not> IsStarted i"
  by (auto simp: NewInstance_def inst_inv_def IsBusy_def IsStarted_def split: if_splits)

lemma markAcquired_inv [inv_intros]: "inst_inv i \<Longrightarrow> inst_inv (snd (markAcquired i))"
  by (simp add: inst_inv_def markAcquired_def)

lemma tryRelease_inv [inv_intros]: "inst_inv i \<Longrightarrow> inst_inv (snd (tryRelease i t))"
  by (auto simp: inst_inv_def tryRelease_def split: if_splits)

lemma setErr_inv [inv_intros]: "inst_inv i \<Longrightarrow> inst_inv (setErr i e)"
  by (simp add: inst_inv_def setErr_def)

text \<open>Building clients only changes the cache.\<close>

lemma getOrBuildRestConfig_frame:
  "getOrBuildRestConfig sys race i w = (res, i', w') \<Longrightarrow> \<exists>c. i' = i\<lparr>in_clients := c\<rparr>"
  by (auto simp: getOrBuildRestConfig_def casClientCache_def Let_def
      split: option.splits prod.splits sum.splits intro: exI [of _ "in_clients i"])

lemma getOrBuildInternalClient_frame:
  "getOrBuildInternalClient sys race i w = (res, i', w') \<Longrightarrow> \<exists>c. i' = i\<lparr>in_clients := c\<rparr>"
  by (auto simp: getOrBuildInternalClient_def casClientCache_def
      split: option.splits prod.splits sum.splits dest!: getOrBuildRestConfig_frame
      intro: exI [of _ "in_clients i"])

lemma waitForSystemNamespaces_frame:
  "waitForSystemNamespaces sys i c w = (res, i', w') \<Longrightarrow> \<exists>cc. i' = i\<lparr>in_clients := cc\<rparr>"
  by (auto simp: waitForSystemNamespaces_def split: prod.splits sum.splits
      dest!: getOrBuildInternalClient_frame)

lemma inst_Config_inv [inv_intros]:
  "inst_inv i \<Longrightarrow> inst_Config sys race i w = (res, i', w') \<Longrightarrow> inst_inv i'"
  by (auto simp: inst_Config_def inst_inv_def split: if_splits dest!: getOrBuildRestConfig_frame)

lemma teardown_ports:
  assumes "stack_up s" and "ic_Validate (in_cfg i) = None"
    and "teardownFailedAttempt sys i pc s r w = (i', r', w')"
  shows "i' = i\<lparr>in_clients := None\<rparr> \<and> r' = Release (Release r (st_kinePort s)) (st_apiPort s)"
  using assms
  by (auto simp: teardownFailedAttempt_def ic_Validate_None_iff split: prod.splits
      dest!: stack_Stop_up [OF assms(1)])

subsection \<open>A start accounts for its ports\<close>

text \<open>What an attempt leaves: not started and the registry as before, or started with the two
  fresh ports of its stack added.\<close>

definition start_post :: "inst \<Rightarrow> port_registry \<Rightarrow> inst \<Rightarrow> port_registry \<Rightarrow> bool \<Rightarrow> bool" where
  "start_post i r i' r' ok \<longleftrightarrow>
     inst_inv i' \<and> in_started i' = ok \<and> in_gen i' = in_gen i \<and> in_cfg i' = in_cfg i \<and>
     in_id i' = in_id i \<and> in_hasReleaser i' = in_hasReleaser i \<and> in_lastErr i' = in_lastErr i \<and>
     owned i' \<inter> ports r = {} \<and> ports r' = ports r \<union> owned i'"

lemma start_post_idle: "inst_inv i \<Longrightarrow> \<not> in_started i \<Longrightarrow> start_post i r i r False"
  by (auto simp: start_post_def inst_inv_def owned_def)

text \<open>What follows the start of the stack: everything is in place, or the attempt is torn down.\<close>

lemma stackStarted_post:
  assumes laws: "group_law grp" "net_law sys" and idle: "inst_inv i" "\<not> in_started i"
    and pc: "os_ctx_with_cancel sys Background w = (pc, w1)"
    and st: "StartWithRetry sys grp (Some pc) (Some c) (inst_stack_config i) (ic_MaxStartRetries (in_cfg i)) r w1 = (Inr s, r1, w2)"
    and run: "tryStartAttempt sys grp i c r w = ((done, e), i', r', w')"
  shows "start_post i r i' r' (e = None) \<and> (e = None \<longrightarrow> done)"
proof -
  from StartWithRetry_ok [OF laws(2)] st obtain v where
    v: "stack_Start sys grp (newStack (inst_stack_config i)) (Some pc) (Some c) r v = (None, s, r1, w2)" by blast
  note up = stack_Start_up [OF laws v]
  from stack_Start_ok [OF laws v] obtain u u' where
    al: "AllocatePortPair sys r u = (Inr (st_kinePort s, st_apiPort s), r1, u')" by blast
  note ports = preg.alloc_ok [OF al] preg.release_pair [OF al]
  obtain q i1 w3 where ns: "waitForSystemNamespaces sys i c w2 = (q, i1, w3)" by (metis prod_cases3)
  from waitForSystemNamespaces_frame [OF ns] obtain cc where i1: "i1 = i\<lparr>in_clients := cc\<rparr>" by blast
  have cfg: "ic_Validate (in_cfg i1) = None" using idle(1) i1 by (simp add: inst_inv_def)
  have torn: "start_post i r i2 r2 False" if "teardownFailedAttempt sys i1 pc s r1 x = (i2, r2, y)" for i2 r2 x y
    using teardown_ports [OF up cfg that] ports(2) idle i1 by (auto simp: start_post_def inst_inv_def owned_def)
  obtain o1 w4 where op: "openPurgeHandle sys c (in_sqlitePath i1) w3 = (o1, w4)" by fastforce
  consider "q \<noteq> None" | x where "q = None" "o1 = Inl x" | h where "q = None" "o1 = Inr h" by (cases o1) auto
  then show ?thesis
  proof cases
    case (3 h)
    with run pc st ns op have "e = None" "done" "r' = r1"
      "i' = i1\<lparr>in_purge := Some h, in_cancel := Some pc, in_stack := Some s, in_started := True\<rparr>"
      by (auto simp: tryStartAttempt_def)
    with i1 up cfg ports(1) show ?thesis by (auto simp: start_post_def inst_inv_def owned_def)
  qed (use run pc st ns op torn in \<open>auto simp: tryStartAttempt_def split: prod.splits\<close>)
qed

lemma tryStartAttempt_post:
  assumes "group_law grp" and "net_law sys" and "inst_inv i" and "\<not> in_started i"
    and run: "tryStartAttempt sys grp i c r w = ((done, e), i', r', w')"
  shows "start_post i r i' r' (e = None) \<and> (e = None \<longrightarrow> done)"
proof -
  obtain pc w1 where pc: "os_ctx_with_cancel sys Background w = (pc, w1)" by fastforce
  obtain res r1 w2 where st: "StartWithRetry sys grp (Some pc) (Some c) (inst_stack_config i)
      (ic_MaxStartRetries (in_cfg i)) r w1 = (res, r1, w2)" by (metis prod_cases3)
  show ?thesis
  proof (cases res)
    case (Inl x)
    from st StartWithRetry_error [OF assms(2)] Inl have "r1 = r" by blast
    with Inl pc st run start_post_idle [OF assms(3,4)] show ?thesis by (auto simp: tryStartAttempt_def)
  next
    case (Inr s)
    with stackStarted_post [OF assms(1-4) pc _ run] st show ?thesis by simp
  qed
qed

lemma startAttempts_post:
  assumes "group_law grp" and "net_law sys"
  shows "inst_inv i \<Longrightarrow> \<not> in_started i \<Longrightarrow> startAttempts sys grp n le i c r w = (e, i', r', w') \<Longrightarrow>
    start_post i r i' r' (e = None)"
proof (induction n arbitrary: le i r w)
  case 0
  then show ?case by (auto intro: start_post_idle)
next
  case (Suc n)
  obtain d e1 i1 r1 w1 where t: "tryStartAttempt sys grp i c r w = ((d, e1), i1, r1, w1)"
    by (metis prod_cases3 surj_pair)
  note post = tryStartAttempt_post [OF assms Suc.prems(1,2) t]
  show ?case
  proof (cases d)
    case True
    with t Suc.prems(3) post show ?thesis by simp
  next
    case False
    with post have idle: "inst_inv i1" "\<not> in_started i1" and r1: "r1 = r"
      by (auto simp: start_post_def inst_inv_def owned_def intro: port_registry_eqI)
    from False t Suc.prems(3) have "startAttempts sys grp n e1 i1 c r1 w1 = (e, i', r', w')" by simp
    from Suc.IH [OF idle this] post r1 show ?thesis by (auto simp: start_post_def)
  qed
qed

lemma inst_Start_post:
  assumes "group_law grp" and "net_law sys" and "inst_inv i" and "\<not> in_started i"
    and "inst_Start sys grp i c r w = (e, i', r', w')"
  shows "start_post i r i' r' (e = None)"
  using assms(4,5) startAttempts_post [OF assms(1-4)] start_post_idle [OF assms(3,4)]
  by (auto simp: inst_Start_def IsStarted_def doStart_def split: prod.splits option.splits)

lemma inst_Start_inv [inv_intros]:
  assumes "group_law grp" and "net_law sys" and "inst_inv i"
    and "inst_Start sys grp i c r w = (e, i', r', w')"
  shows "inst_inv i' \<and> in_gen i' = in_gen i \<and> (e = None \<longleftrightarrow> in_started i')"
proof (cases "in_started i")
  case True
  with assms show ?thesis by (simp add: inst_Start_def IsStarted_def)
next
  case False
  from inst_Start_post [OF assms(1-3) False assms(4)] show ?thesis by (auto simp: start_post_def)
qed

subsection \<open>A stop gives them back\<close>

lemma effectiveStopTimeout_pos: "0 < effectiveStopTimeout sys i c w"
  by (auto simp: effectiveStopTimeout_def Let_def split: option.splits)

lemma effectiveStopTimeout_le:
  "0 < ic_StopTimeout (in_cfg i) \<Longrightarrow>
     effectiveStopTimeout sys i c w \<le> max Millisecond (ic_StopTimeout (in_cfg i)) \<and>
     (\<forall>d. os_ctx_remaining sys c w = Some d \<and> 0 < d \<longrightarrow> effectiveStopTimeout sys i c w \<le> d)"
  by (auto simp: effectiveStopTimeout_def Let_def split: option.splits)

lemma inst_Stop_post:
  assumes "inst_inv i" and "inst_Stop sys i c r w = (e, i', r', w')"
  shows "if os_ctx_err sys c w = None
     then inst_inv i' \<and> \<not> in_started i' \<and> in_gen i' = in_gen i \<and> in_id i' = in_id i \<and>
       in_hasReleaser i' = in_hasReleaser i \<and> ports r' = ports r - owned i
     else e \<noteq> None \<and> i' = i \<and> r' = r \<and> w' = w"
  using assms
  by (cases "in_started i")
    (auto simp: inst_Stop_def inst_inv_def owned_def Let_def split: option.splits prod.splits
      dest!: stack_Stop_up [OF _ effectiveStopTimeout_pos])

lemma inst_Stop_inv [inv_intros]:
  "inst_inv i \<Longrightarrow> inst_Stop sys i c r w = (e, i', r', w') \<Longrightarrow> inst_inv i' \<and> in_gen i' = in_gen i"
  using inst_Stop_post [of i sys c r w e i' r' w'] by (auto split: if_splits)

lemma inst_Stop_idle:
  assumes "inst_inv i" and "\<not> in_started i" and "inst_Stop sys i c r w = (e, i', r', w')"
  shows "i' = i \<and> r' = r \<and> w' = w \<and> (e = None \<longleftrightarrow> os_ctx_err sys c w = None)"
  using assms by (auto simp: inst_Stop_def inst_inv_def Let_def split: option.splits)


subsection \<open>Generations\<close>

text \<open>Everything that moves the counter: an acquisition, or the release of the current holder.\<close>

datatype gen_op = Acq | Rel

fun gen_run :: "gen_op list \<Rightarrow> inst \<Rightarrow> inst" where
  "gen_run [] i = i"
| "gen_run (Acq # ops) i = gen_run ops (snd (markAcquired i))"
| "gen_run (Rel # ops) i = gen_run ops (snd (tryRelease i (in_gen i)))"

lemma gen_run_gen: "in_gen (gen_run ops i) = in_gen i + of_nat (length ops)"
  by (induction ops i rule: gen_run.induct) (simp_all add: markAcquired_def tryRelease_def)

lemma IsBusy_odd: "IsBusy i \<longleftrightarrow> odd (in_gen i)"
  by (simp add: IsBusy_def odd_iff_mod_2_eq_one)

lemma markAcquired_busy: "\<not> IsBusy i \<Longrightarrow> IsBusy (snd (markAcquired i))"
  by (simp add: IsBusy_odd markAcquired_def)

lemma tryRelease_free: "IsBusy i \<Longrightarrow> tryRelease i t = (True, i') \<Longrightarrow> \<not> IsBusy i'"
  by (auto simp: IsBusy_odd tryRelease_def split: if_splits)

lemma mustRelease_eq:
  "mustRelease i t =
     (if isCurrentToken i t then (Ret (), i\<lparr>in_gen := t + 1\<rparr>)
      else (Panic (''k8senv: double-release of instance '' @ in_id i), i))"
  by (simp add: mustRelease_def tryRelease_def isCurrentToken_def)

subsection \<open>The cache\<close>

lemma casLoop_config:
  assumes "\<And>c. f c = (if cc_config c \<noteq> None then None else Some (c\<lparr>cc_config := Some cfg\<rparr>))"
  shows "casLoop n race f cur = (None, cur') \<Longrightarrow> \<exists>c. cur' = Some c \<and> cc_config c \<noteq> None"
proof (induction n arbitrary: cur)
  case (Suc n)
  then show ?case
    by (cases cur) (auto simp: assms Let_def split: option.splits if_splits)
qed simp

lemma getOrBuildRestConfig_cached:
  assumes "getOrBuildRestConfig sys race i w = (Inr cfg, i', w')"
  shows "\<exists>c. in_clients i' = Some c \<and> cc_config c \<noteq> None"
  using assms casLoop_config
  by (fastforce simp: getOrBuildRestConfig_def casClientCache_def Let_def bind_eq_Some_conv
      split: option.splits prod.splits sum.splits)

lemma casLoop_no_race:
  "casLoop (Suc n) no_race f cur =
     (case f (case cur of None \<Rightarrow> \<lparr>cc_config = None, cc_clientset = None\<rparr> | Some c \<Rightarrow> c) of
        None \<Rightarrow> (None, cur) | Some u \<Rightarrow> (None, Some u))"
  by (simp add: no_race_def Let_def split: option.splits)

lemma getOrBuildRestConfig_no_race:
  assumes "getOrBuildRestConfig sys no_race i w = (Inr cfg, i', w')"
  shows "Option.bind (in_clients i') cc_config = Some cfg"
proof -
  have n: "maxCASRetries = Suc 99" by (simp add: maxCASRetries_def)
  show ?thesis
    using assms unfolding getOrBuildRestConfig_def casClientCache_def n casLoop_no_race
    by (auto simp: Let_def split: option.splits prod.splits sum.splits if_splits)
qed

subsection \<open>The namespaces\<close>

text \<open>\<^verbatim>\<open>PollUntilContextCancel\<close> returns nil only when the condition, called with a context, said so;
  the names the server lists are distinct.\<close>

definition poll_cancel_law :: "'w os \<Rightarrow> bool" where
  "poll_cancel_law sys \<longleftrightarrow>
     (\<forall>c d cond w w'. os_poll_cancel sys c d True cond w = (None, w') \<longrightarrow>
        (\<exists>c' v. cond c' v = (Inr True, w')))"

definition names_law :: "'w os \<Rightarrow> bool" where
  "names_law sys \<longleftrightarrow> (\<forall>cl c w items w'. os_list_namespaces sys cl c w = (Inr items, w') \<longrightarrow> distinct items)"

lemma distinct_systemNamespaces: "distinct systemNamespaces"
  by (simp add: systemNamespaces_def)

lemma namespaces_ready_all:
  assumes "names_law sys" and "namespaces_ready sys client c w = (Inr True, w')"
  shows "\<exists>items. os_list_namespaces sys client c w = (Inr items, w') \<and> set systemNamespaces \<subseteq> set items"
proof -
  from assms(2) obtain items where items: "os_list_namespaces sys client c w = (Inr items, w')"
    and len: "length systemNamespaces \<le> length (filter isSystemNamespace items)"
    by (auto simp: namespaces_ready_def split: prod.splits sum.splits)
  let ?f = "filter isSystemNamespace items"
  have "distinct ?f" using assms(1) items unfolding names_law_def by (blast intro: distinct_filter)
  then have "card (set systemNamespaces) \<le> card (set ?f)"
    using len distinct_systemNamespaces by (simp add: distinct_card del: set_filter)
  moreover have "set ?f \<subseteq> set systemNamespaces" by (auto simp: isSystemNamespace_def)
  ultimately have "set ?f = set systemNamespaces" by (intro card_seteq) simp_all
  with items show ?thesis by auto
qed

subsection \<open>Properties\<close>

text \<open>C36. A start that fails leaves the instance not started, with no stack, handle or client left
  over and the port registry as it was; a start that succeeds leaves it started, holding exactly
  the two fresh ports its stack added to the registry. The generation does not move.\<close>

theorem inst_Start_accounts:
  assumes "group_law grp" and "net_law sys" and "inst_inv i" and "\<not> in_started i"
    and "inst_Start sys grp i c r w = (e, i', r', w')"
  shows "inst_inv i' \<and> in_started i' = (e = None) \<and> in_gen i' = in_gen i \<and>
    owned i' \<inter> ports r = {} \<and> ports r' = ports r \<union> owned i' \<and> (e \<noteq> None \<longrightarrow> r' = r)"
proof -
  from inst_Start_post [OF assms] have post: "start_post i r i' r' (e = None)" .
  then have "e \<noteq> None \<longrightarrow> r' = r"
    by (auto simp: start_post_def inst_inv_def owned_def intro: port_registry_eqI)
  with post show ?thesis by (auto simp: start_post_def)
qed

text \<open>A stop under a live context leaves the instance stopped with everything cleared and its
  ports, and only those, out of the registry, even when the processes could not be stopped; a
  second stop changes nothing. Under a context that has ended nothing changes and the error is
  returned.\<close>

theorem inst_Stop_releases:
  assumes "inst_inv i" and "inst_Stop sys i c r w = (e, i', r', w')"
  shows "if os_ctx_err sys c w = None
    then inst_inv i' \<and> \<not> in_started i' \<and> owned i' = {} \<and> in_gen i' = in_gen i \<and> ports r' = ports r - owned i \<and>
      (\<forall>c2 w2. os_ctx_err sys c2 w2 = None \<longrightarrow> inst_Stop sys i' c2 r' w2 = (None, i', r', w2))
    else e \<noteq> None \<and> i' = i \<and> r' = r \<and> w' = w"
proof -
  note post = inst_Stop_post [OF assms]
  have again: "inst_Stop sys i' c2 r' w2 = (None, i', r', w2)"
    if "inst_inv i'" "\<not> in_started i'" "os_ctx_err sys c2 w2 = None" for c2 w2
    using inst_Stop_idle [OF that(1,2)] that(3) by (metis prod_cases4)
  from post again show ?thesis by (auto simp: owned_def inst_inv_def split: if_splits)
qed

text \<open>The timeout handed to the stack is always positive, at most the configured one (or one
  millisecond), and at most the time the context has left when it has any.\<close>

theorem effectiveStopTimeout_bounds:
  assumes "0 < ic_StopTimeout (in_cfg i)"
  shows "0 < effectiveStopTimeout sys i c w \<and>
    effectiveStopTimeout sys i c w \<le> max Millisecond (ic_StopTimeout (in_cfg i)) \<and>
    (\<forall>d. os_ctx_remaining sys c w = Some d \<and> 0 < d \<longrightarrow> effectiveStopTimeout sys i c w \<le> d)"
  using effectiveStopTimeout_pos [of sys i c w] effectiveStopTimeout_le [OF assms, of sys c w] by simp

text \<open>C37. A released token is dead: after any number of further acquisitions and releases it is
  current again only when the 64-bit counter has gone around, so until then a second release with
  it is refused, leaves the instance as it is, and panics in \<^verbatim>\<open>mustRelease\<close>.\<close>

theorem stale_token_rejected:
  assumes "tryRelease i t = (True, i1)"
  shows "(isCurrentToken (gen_run ops i1) t \<longleftrightarrow> 2 ^ 64 dvd Suc (length ops)) \<and>
    (Suc (length ops) < 2 ^ 64 \<longrightarrow>
       tryRelease (gen_run ops i1) t = (False, gen_run ops i1) \<and>
       (\<exists>m. mustRelease (gen_run ops i1) t = (Panic m, gen_run ops i1)))"
proof -
  have "in_gen (gen_run ops i1) = t + of_nat (Suc (length ops))"
    using assms by (auto simp: gen_run_gen tryRelease_def split: if_splits)
  then have eq: "isCurrentToken (gen_run ops i1) t \<longleftrightarrow> (of_nat (Suc (length ops)) :: 64 word) = 0"
    unfolding isCurrentToken_def by (simp only: add_cancel_left_right add.right_neutral)
  have "(of_nat (Suc (length ops)) :: 64 word) = 0 \<longleftrightarrow> 2 ^ 64 dvd Suc (length ops)"
    using word_of_nat_eq_0_iff [of "Suc (length ops)", where 'a = 64] by simp
  with eq have cur: "isCurrentToken (gen_run ops i1) t \<longleftrightarrow> 2 ^ 64 dvd Suc (length ops)" by simp
  moreover have "\<not> 2 ^ 64 dvd Suc (length ops)" if "Suc (length ops) < 2 ^ 64"
    using that by (metis dvd_imp_le not_less zero_less_Suc)
  ultimately show ?thesis by (auto simp: mustRelease_eq tryRelease_def isCurrentToken_def)
qed


text \<open>\<^verbatim>\<open>Config\<close> answers only the holder of a started instance, with \<^verbatim>\<open>ErrInstanceReleased\<close> before
  \<^verbatim>\<open>ErrNotStarted\<close> otherwise, and changes nothing then. When it answers, the cache holds a config
  whatever other goroutines did to it; without interference it is the config returned, and every
  later call returns it without reading the kubeconfig again.\<close>

theorem inst_Config_guarded:
  assumes "inst_Config sys race i w = (res, i', w')"
  shows "(\<not> IsBusy i \<longrightarrow> res = Inl ErrInstanceReleased \<and> i' = i \<and> w' = w) \<and>
    (IsBusy i \<and> \<not> in_started i \<longrightarrow> res = Inl ErrNotStarted \<and> i' = i \<and> w' = w) \<and>
    (\<forall>cfg. res = Inr cfg \<longrightarrow> IsBusy i \<and> in_started i \<and> Option.bind (in_clients i') cc_config \<noteq> None \<and>
      (race = no_race \<longrightarrow> (\<forall>v. inst_Config sys no_race i' v = (Inr cfg, i', v))))"
proof -
  have frame: "IsBusy i' = IsBusy i \<and> in_started i' = in_started i"
    if "getOrBuildRestConfig sys race i w = (res, i', w')"
    using getOrBuildRestConfig_frame [OF that] by (auto simp: IsBusy_def)
  show ?thesis
    using assms frame getOrBuildRestConfig_cached [of sys race i w _ i' w']
      getOrBuildRestConfig_no_race [of sys i w _ i' w']
    by (auto simp: inst_Config_def getOrBuildRestConfig_def [of sys no_race i'] split: if_splits)
qed


subsection \<open>The contract of InstanceReleaser\<close>

text \<open>
  What \<^verbatim>\<open>Release\<close> relies on: for a token the releaser accepts, both methods return, and the
  instance is then given back. Recording an error on the instance, and what happens in the world,
  matter neither before nor after.
\<close>

locale instance_releaser =
  fixes releaseToPool :: "('w, 'z, bool) releaser_op"
    and releaseFailed :: "('w, 'z, unit) releaser_op"
    and accepts :: "nat \<Rightarrow> 64 word \<Rightarrow> ('w, 'z) core_scheme \<Rightarrow> bool"
    and given_back :: "nat \<Rightarrow> 64 word \<Rightarrow> ('w, 'z) core_scheme \<Rightarrow> ('w, 'z) core_scheme \<Rightarrow> bool"
  assumes accepts_current: "accepts a t s \<Longrightarrow> in_hasReleaser (co_heap s a) \<and> isCurrentToken (co_heap s a) t"
    and toPool_returns: "accepts a t s \<Longrightarrow> \<exists>b s'. releaseToPool a t s = (Ret b, s') \<and> given_back a t s s'"
    and failed_returns: "accepts a t s \<Longrightarrow> \<exists>s'. releaseFailed a t s = (Ret (), s') \<and> given_back a t s s'"
    and accepts_setErr: "accepts a t s \<Longrightarrow> accepts a t (set_inst a (setErr (co_heap s a) e) s)"
    and accepts_world: "accepts a t s \<Longrightarrow> accepts a t (s\<lparr>co_world := w\<rparr>)"
    and back_setErr: "accepts a t s \<Longrightarrow> given_back a t (set_inst a (setErr (co_heap s a) e) s) s' \<Longrightarrow> given_back a t s s'"
    and back_world: "given_back a t (s\<lparr>co_world := w\<rparr>) s' \<Longrightarrow> given_back a t s s'"
    and back_world': "given_back a t s s' \<Longrightarrow> given_back a t s (s'\<lparr>co_world := w\<rparr>)"
begin

lemma failRelease_returns:
  assumes "accepts a t s"
  shows "\<exists>e' s'. failRelease releaseFailed a t msg e s = (Ret e', s') \<and> given_back a t s s'"
proof -
  from failed_returns [OF accepts_setErr [OF assms, where e = "Wrapf ''%s: %w'' [ArgStr msg] e"]] obtain s' where
    "releaseFailed a t (set_inst a (setErr (co_heap s a) (Wrapf ''%s: %w'' [ArgStr msg] e)) s) = (Ret (), s')"
    "given_back a t s s'" using back_setErr [OF assms] by blast
  then show ?thesis by (simp add: failRelease_def Let_def)
qed

lemma releasePurge_cases:
  assumes "accepts a t s"
  shows "(\<exists>w. releasePurge sys releaseFailed a t s = (Ret None, s\<lparr>co_world := w\<rparr>)) \<or>
    (\<exists>e s'. releasePurge sys releaseFailed a t s = (Ret (Some e), s') \<and> given_back a t s s')"
proof (cases "in_started (co_heap s a)")
  case False
  then have "releasePurge sys releaseFailed a t s = (Ret None, s\<lparr>co_world := co_world s\<rparr>)"
    by (simp add: releasePurge_def)
  then show ?thesis by blast
next
  case started: True
  show ?thesis
  proof (cases "in_purge (co_heap s a)")
    case None
    obtain e' s' where "failRelease releaseFailed a t ''purge handle not initialized''
        (errors_New ''nil purge handle (programming error)'') s = (Ret e', s')" "given_back a t s s'"
      using failRelease_returns [OF assms] by blast
    with started None show ?thesis by (auto simp: releasePurge_def)
  next
    case (Some h)
    obtain cc w1 where c: "os_ctx_with_timeout sys Background (ic_CleanupTimeout (in_cfg (co_heap s a)))
      (co_world s) = (cc, w1)" by fastforce
    obtain e w2 where q: "purge_purge sys h cc w1 = (e, w2)" by fastforce
    show ?thesis
    proof (cases e)
      case None
      with started Some c q show ?thesis by (auto simp: releasePurge_def)
    next
      case e: (Some x)
      obtain e' s' where f: "failRelease releaseFailed a t ''SQLite purge during release'' x (s\<lparr>co_world := w2\<rparr>) = (Ret e', s')"
        "given_back a t s s'"
        using failRelease_returns [OF accepts_world [OF assms]] back_world by blast
      with started Some c q e back_world' [OF f(2)] show ?thesis by (auto simp: releasePurge_def)
    qed
  qed
qed

lemma Release_returns:
  assumes "accepts a t s"
  shows "\<exists>r s'. inst_Release sys releaseToPool releaseFailed a t s = (Ret r, s') \<and> given_back a t s s'"
proof -
  have ok: "in_hasReleaser (co_heap s a)" "isCurrentToken (co_heap s a) t" using accepts_current [OF assms] by auto
  from releasePurge_cases [OF assms, of sys] show ?thesis
  proof (elim disjE exE conjE)
    fix w assume p: "releasePurge sys releaseFailed a t s = (Ret None, s\<lparr>co_world := w\<rparr>)"
    obtain b s' where "releaseToPool a t (s\<lparr>co_world := w\<rparr>) = (Ret b, s')" "given_back a t s s'"
      using toPool_returns [OF accepts_world [OF assms]] back_world by blast
    with p ok show ?thesis by (auto simp: inst_Release_def guardReleasePanic_def)
  next
    fix e s' assume "releasePurge sys releaseFailed a t s = (Ret (Some e), s')" "given_back a t s s'"
    with ok show ?thesis by (auto simp: inst_Release_def guardReleasePanic_def)
  qed
qed

lemma Release_stale:
  assumes "in_hasReleaser (co_heap s a)" and "\<not> isCurrentToken (co_heap s a) t"
  shows "\<exists>m. inst_Release sys releaseToPool releaseFailed a t s = (Panic m, s)"
  using assms by (simp add: inst_Release_def guardReleasePanic_def)

end


subsection \<open>Witnesses\<close>

definition sample_inst :: inst where
  "sample_inst = \<lparr>in_cfg = \<lparr>ic_StartTimeout = 5, ic_StopTimeout = 7, ic_CleanupTimeout = 5,
       ic_MaxStartRetries = 1, ic_CachedDBPath = [], ic_KineBinary = ''kine'',
       ic_KubeAPIServerBinary = ''kube-apiserver''\<rparr>,
     in_id = ''inst-0'', in_dataDir = ''/d'', in_sqlitePath = ''/c/x.db'', in_kubeconfig = ''/d/kc'',
     in_hasReleaser = True, in_hasPorts = True, in_gen = 1, in_started = False, in_lastErr = None,
     in_clients = None, in_cancel = None, in_stack = None, in_purge = None\<rparr>"

lemma sample_inst_inv: "inst_inv sample_inst" "\<not> in_started sample_inst"
  by (simp_all add: inst_inv_def ic_Validate_None_iff sample_inst_def)

lemma counting_net_quiet:
  "os_mkdir_all counting_net p m w = (None, w)" "os_ctx_with_cancel counting_net c w = (Suc c, w)"
  "os_build_config counting_net p w = (Inr \<lparr>rc_rest = p, rc_QPS = 5, rc_Burst = 10\<rparr>, w)"
  "os_new_clientset counting_net rc = Inr 1" "os_ctx_with_timeout counting_net c d w = (Suc c, w)"
  "os_poll_cancel counting_net = os_poll_cancel quiet_os" "os_ctx_cancel counting_net c w = w"
  "os_list_namespaces counting_net cl c w =
     (Inr [''default'', ''kube-system'', ''kube-public'', ''kube-node-lease''], w)"
  "os_sql_open counting_net drv p w = (Inr 1, w)" "os_sql_query_int counting_net n p w = (Inr 0, w)"
  "os_sql_prepare counting_net n p w = (Inr 1, w)"
  by (simp_all add: counting_net_def quiet_os_def)

lemma counting_ready:
  assumes "in_clients i = None"
  shows "\<exists>cc. waitForSystemNamespaces counting_net i c w = (None, i\<lparr>in_clients := cc\<rparr>, w)"
proof -
  have n: "maxCASRetries = Suc 99" by (simp add: maxCASRetries_def)
  show ?thesis
    unfolding waitForSystemNamespaces_def getOrBuildInternalClient_def getOrBuildRestConfig_def
      casClientCache_def n casLoop_no_race
    by (simp add: assms counting_net_quiet quiet_os_def namespaces_ready_def Let_def
        isSystemNamespace_def systemNamespaces_def nsReadinessPollInterval_def) (rule exI, rule refl)
qed

lemma counting_inst_Start:
  assumes "inst_inv i" and "\<not> in_started i" and "in_hasPorts i" and "ic_CachedDBPath (in_cfg i) = []" and "c \<noteq> 1"
    and "in_dataDir i \<noteq> []" and "in_sqlitePath i \<noteq> []" and "in_kubeconfig i \<noteq> []"
  shows "\<exists>i' r' w'. inst_Start counting_net seq_group i c NewPortRegistry 0 = (None, i', r', w')"
proof -
  have cfg: "ks_validate (inst_stack_config i) = None" "ks_CachedDBPath (inst_stack_config i) = []"
    "1 \<noteq> c" "0 < ic_MaxStartRetries (in_cfg i)"
    using assms by (simp_all add: ks_validate_def inst_stack_config_def inst_inv_def ic_Validate_None_iff)
  obtain s w' where run: "StartWithRetry counting_net seq_group (Some 1) (Some c) (inst_stack_config i)
      (ic_MaxStartRetries (in_cfg i)) NewPortRegistry 0 = (Inr s, \<lparr>ports = {40001, 40000}\<rparr>, w')"
    using counting_StartWithRetry [OF cfg] by blast
  have "in_clients i = None" using assms(1,2) by (simp add: inst_inv_def)
  then obtain cc where ready: "waitForSystemNamespaces counting_net i c w' = (None, i\<lparr>in_clients := cc\<rparr>, w')"
    using counting_ready by blast
  have "\<exists>h. openPurgeHandle counting_net c p w' = (Inr h, w')" for p
    by (simp add: openPurgeHandle_def baselineQueryRetries_def numeral_3_eq_3 counting_net_quiet)
  then obtain h where "openPurgeHandle counting_net c (in_sqlitePath i) w' = (Inr h, w')" by blast
  then have "\<exists>i'. tryStartAttempt counting_net seq_group i c NewPortRegistry 0 =
      ((True, None), i', \<lparr>ports = {40001, 40000}\<rparr>, w')"
    using run ready by (simp add: tryStartAttempt_def counting_net_quiet Background_def)
  then show ?thesis using assms(2,6)
    by (auto simp: inst_Start_def IsStarted_def doStart_def EnsureDir_def counting_net_quiet maxNamespaceRetries_def
        numeral_3_eq_3)
qed

lemma sample_attempt:
  "\<exists>i' r' w'. inst_Start counting_net seq_group sample_inst 2 NewPortRegistry 0 = (None, i', r', w')"
  by (rule counting_inst_Start [OF sample_inst_inv]) (simp_all add: sample_inst_def)

theorem inst_Start_accounts_witness:
  "\<exists>i' r' w'. inst_Start counting_net seq_group sample_inst 2 NewPortRegistry 0 = (None, i', r', w') \<and>
     in_started i' \<and> ports r' = owned i'"
proof -
  obtain i' r' w' where run:
    "inst_Start counting_net seq_group sample_inst 2 NewPortRegistry 0 = (None, i', r', w')"
    using sample_attempt by blast
  from inst_Start_accounts [OF seq_group_law counting_net_law sample_inst_inv run] run show ?thesis
    by (auto simp: NewPortRegistry_def)
qed

theorem inst_Stop_releases_witness:
  "\<exists>i' r' w' e i'' r'' w''. inst_Start counting_net seq_group sample_inst 2 NewPortRegistry 0 = (None, i', r', w') \<and>
     inst_Stop counting_net i' 3 r' w' = (e, i'', r'', w'') \<and> \<not> in_started i'' \<and> ports r'' = ports r' - owned i'"
proof -
  obtain i' r' w' where run:
    "inst_Start counting_net seq_group sample_inst 2 NewPortRegistry 0 = (None, i', r', w')"
    using sample_attempt by blast
  have inv: "inst_inv i'"
    using inst_Start_inv [OF seq_group_law counting_net_law sample_inst_inv(1) run] by simp
  obtain e i'' r'' w'' where stop: "inst_Stop counting_net i' 3 r' w' = (e, i'', r'', w'')"
    by (metis prod_cases4)
  have "os_ctx_err counting_net 3 w' = None" by (simp add: counting_net_def quiet_os_def)
  with inst_Stop_releases [OF inv stop] run stop show ?thesis by auto
qed

theorem effectiveStopTimeout_bounds_witness:
  "effectiveStopTimeout (quiet_os\<lparr>os_ctx_remaining := (\<lambda>c w. Some 3)\<rparr>) sample_inst 1 () \<le> 3"
  using effectiveStopTimeout_bounds [of sample_inst "quiet_os\<lparr>os_ctx_remaining := (\<lambda>c w. Some 3)\<rparr>" 1 "()"]
  by (simp add: sample_inst_def)

theorem stale_token_rejected_witness:
  "fst (tryRelease (gen_run [Acq, Rel, Acq] (snd (tryRelease sample_inst 1))) 1) = False"
proof -
  have run: "tryRelease sample_inst 1 = (True, sample_inst\<lparr>in_gen := 2\<rparr>)"
    by (simp add: tryRelease_def sample_inst_def)
  show ?thesis using stale_token_rejected [OF run, of "[Acq, Rel, Acq]"] run by simp
qed

theorem inst_Config_guarded_witness:
  "inst_Config quiet_os no_race sample_inst () = (Inl ErrNotStarted, sample_inst, ())"
proof -
  obtain res i' w' where run: "inst_Config quiet_os no_race sample_inst () = (res, i', w')"
    by (metis prod_cases3)
  have "IsBusy sample_inst" "\<not> in_started sample_inst" by (simp_all add: IsBusy_odd sample_inst_def)
  with inst_Config_guarded [OF run] run show ?thesis by simp
qed


end
