(* ===== verification/Pool.thy ===== *)
theory Pool
  imports Instance
begin

text \<open>
  \<^verbatim>\<open>internal/core/pool.go\<close>: the pool of instances with its free stack, its list of all instances
  and its counting semaphore. Every section of code that runs under the mutex, and every channel
  operation, is a definition of its own; the operations of the pool are their compositions.
\<close>

subsection \<open>State\<close>

text \<open>
  \<open>po_sem\<close> is the number of tokens in the semaphore channel, \<open>None\<close> for the nil channel of an
  unbounded pool; \<open>po_closeCh\<close> says whether the channel \<^verbatim>\<open>closeCh\<close> is closed, \<open>None\<close> when it is nil.
\<close>

record pool =
  po_free :: "nat list"
  po_all :: "nat list"
  po_nextIdx :: int
  po_closed :: bool
  po_maxSize :: nat
  po_sem :: "nat option"
  po_closeCh :: "bool option"

text \<open>A factory makes an instance for an index, on the heap.\<close>

type_synonym ('w, 'z) factory =
  "int \<Rightarrow> ('w, 'z) core_scheme \<Rightarrow> (go_error + nat) outcome \<times> ('w, 'z) core_scheme"

definition NewPool :: "bool \<Rightarrow> int \<Rightarrow> pool outcome" where
  "NewPool hasFactory maxSize =
     (if \<not> hasFactory then Panic ''k8senv: NewPool factory must not be nil''
      else if maxSize < 0 then Panic (''k8senv: NewPool maxSize must not be negative, got '' @ show_int maxSize)
      else Ret \<lparr>po_free = [], po_all = [], po_nextIdx = 0, po_closed = False, po_maxSize = nat maxSize,
        po_sem = (if maxSize > 0 then Some (nat maxSize) else None),
        po_closeCh = (if maxSize > 0 then Some False else None)\<rparr>)"

definition Instances :: "pool \<Rightarrow> nat list" where "Instances p = po_all p"

subsection \<open>Sections\<close>

text \<open>
  The \<^verbatim>\<open>select\<close> of \<^verbatim>\<open>Acquire\<close>: the branch the runtime takes, which must be ready. \<open>None\<close> means that
  this branch is not ready, so the goroutine does not go on with it.
\<close>

datatype sem_event = GotSlot | SawClosed | SawDone

definition takeSlot :: "'w os \<Rightarrow> ctx \<Rightarrow> sem_event \<Rightarrow> 'w \<Rightarrow> pool \<Rightarrow> (go_error option \<times> pool) option" where
  "takeSlot sys c ev w p =
     (case po_sem p of
        None \<Rightarrow> Some (None, p)
      | Some k \<Rightarrow>
          (case ev of
             GotSlot \<Rightarrow> (if k > 0 then Some (None, p\<lparr>po_sem := Some (k - 1)\<rparr>) else None)
           | SawClosed \<Rightarrow> (if po_closeCh p = Some True then Some (Some ErrPoolClosed, p) else None)
           | SawDone \<Rightarrow>
               (case os_ctx_err sys c w of
                  None \<Rightarrow> None
                | Some ce \<Rightarrow>
                    Some (Some (Wrapf ''context done while waiting for instance: %w'' [] (Std ce)), p))))"

definition returnSlot :: "pool \<Rightarrow> unit outcome \<times> pool" where
  "returnSlot p =
     (case po_sem p of
        None \<Rightarrow> (Ret (), p)
      | Some k \<Rightarrow>
          (if k < po_maxSize p then (Ret (), p\<lparr>po_sem := Some (Suc k)\<rparr>)
           else if po_closeCh p = Some True then (Ret (), p)
           else (Panic ''k8senv: returnSlot: semaphore full during normal operation'', p)))"

datatype acq_choice = AcqClosed | AcqPop nat | AcqNew int

text \<open>The first section of \<^verbatim>\<open>Acquire\<close> under the mutex.\<close>

definition popFree :: "pool \<Rightarrow> acq_choice \<times> pool" where
  "popFree p =
     (if po_closed p then (AcqClosed, p)
      else if length (po_free p) > 0
      then (AcqPop (last (po_free p)), p\<lparr>po_free := butlast (po_free p)\<rparr>)
      else (AcqNew (po_nextIdx p), p\<lparr>po_nextIdx := po_nextIdx p + 1\<rparr>))"

text \<open>The second one, after the factory: it tells whether the pool was closed meanwhile.\<close>

definition registerNew :: "nat \<Rightarrow> pool \<Rightarrow> bool \<times> pool" where
  "registerNew a p = (po_closed p, p\<lparr>po_all := po_all p @ [a]\<rparr>)"

text \<open>The section of \<^verbatim>\<open>Release\<close>: it tells whether the pool is closed.\<close>

definition pushFree :: "nat \<Rightarrow> pool \<Rightarrow> bool \<times> pool" where
  "pushFree a p = (if po_closed p then (True, p) else (False, p\<lparr>po_free := po_free p @ [a]\<rparr>))"

definition pool_Close :: "pool \<Rightarrow> pool" where
  "pool_Close p =
     p\<lparr>po_closed := True, po_free := [], po_closeCh := map_option (\<lambda>_. True) (po_closeCh p)\<rparr>"

subsection \<open>Operations\<close>

definition stopInstanceBestEffort :: "'w os \<Rightarrow> nat \<Rightarrow> ('w, 'z) core_scheme \<Rightarrow> ('w, 'z) core_scheme" where
  "stopInstanceBestEffort sys a s =
     (case os_ctx_with_timeout sys Background (ic_StopTimeout (in_cfg (co_heap s a))) (co_world s) of
        (c, w1) \<Rightarrow>
          (let s1 = snd (inst_call a (\<lambda>i r w. inst_Stop sys i c r w) (s\<lparr>co_world := w1\<rparr>))
           in s1\<lparr>co_world := os_ctx_cancel sys c (co_world s1)\<rparr>))"

text \<open>The part of \<^verbatim>\<open>Acquire\<close> after the slot; \<open>mid\<close> is what other goroutines do to the pool while the
  factory runs without the mutex.\<close>

definition acquireUnlocked ::
  "'w os \<Rightarrow> ('w, 'z) factory \<Rightarrow> (pool \<Rightarrow> pool) \<Rightarrow> pool \<Rightarrow> ('w, 'z) core_scheme \<Rightarrow>
   (go_error + nat \<times> 64 word) outcome \<times> pool \<times> ('w, 'z) core_scheme" where
  "acquireUnlocked sys factory mid p s =
     (case popFree p of
        (AcqClosed, p1) \<Rightarrow>
          (case returnSlot p1 of (o1, p2) \<Rightarrow> (out_map (\<lambda>_. Inl ErrPoolClosed) o1, p2, s))
      | (AcqPop a, p1) \<Rightarrow>
          (case markAcquired (co_heap s a) of (token, i) \<Rightarrow> (Ret (Inr (a, token)), p1, set_inst a i s))
      | (AcqNew idx, p1) \<Rightarrow>
          (case factory idx s of
             (Panic m, s1) \<Rightarrow> (Panic m, p1, s1)
           | (Ret (Inl e), s1) \<Rightarrow>
               (case returnSlot p1 of
                  (o1, p2) \<Rightarrow> (out_map (\<lambda>_. Inl (Wrapf ''creating instance: %w'' [] e)) o1, p2, s1))
           | (Ret (Inr a), s1) \<Rightarrow>
               (case registerNew a (mid p1) of
                  (True, p2) \<Rightarrow>
                    (case returnSlot p2 of
                       (Panic m, p3) \<Rightarrow> (Panic m, p3, s1)
                     | (Ret _, p3) \<Rightarrow> (Ret (Inl ErrPoolClosed), p3, stopInstanceBestEffort sys a s1))
                | (False, p2) \<Rightarrow>
                    (case markAcquired (co_heap s1 a) of
                       (token, i) \<Rightarrow> (Ret (Inr (a, token)), p2, set_inst a i s1)))))"

definition pool_Acquire ::
  "'w os \<Rightarrow> ('w, 'z) factory \<Rightarrow> (pool \<Rightarrow> pool) \<Rightarrow> ctx \<Rightarrow> sem_event \<Rightarrow> pool \<Rightarrow> ('w, 'z) core_scheme \<Rightarrow>
   ((go_error + nat \<times> 64 word) outcome \<times> pool \<times> ('w, 'z) core_scheme) option" where
  "pool_Acquire sys factory mid c ev p s =
     (case os_ctx_err sys c (co_world s) of
        Some ce \<Rightarrow>
          Some (Ret (Inl (Wrapf ''context done while waiting for instance: %w'' [] (Std ce))), p, s)
      | None \<Rightarrow>
          (case takeSlot sys c ev (co_world s) p of
             None \<Rightarrow> None
           | Some (Some e, p1) \<Rightarrow> Some (Ret (Inl e), p1, s)
           | Some (None, p1) \<Rightarrow> Some (acquireUnlocked sys factory mid p1 s)))"

definition pool_Release ::
  "'w os \<Rightarrow> nat \<Rightarrow> 64 word \<Rightarrow> pool \<Rightarrow> ('w, 'z) core_scheme \<Rightarrow>
   unit outcome \<times> pool \<times> ('w, 'z) core_scheme" where
  "pool_Release sys a token p s =
     (case mustRelease (co_heap s a) token of
        (Panic m, i) \<Rightarrow> (Panic m, p, s)
      | (Ret _, i) \<Rightarrow>
          (let s1 = set_inst a i s
           in case pushFree a p of
                (True, p1) \<Rightarrow>
                  (let s2 = stopInstanceBestEffort sys a s1
                   in case returnSlot p1 of (o1, p2) \<Rightarrow> (o1, p2, s2))
              | (False, p1) \<Rightarrow> (case returnSlot p1 of (o1, p2) \<Rightarrow> (o1, p2, s1))))"

definition pool_ReleaseFailed ::
  "'w os \<Rightarrow> nat \<Rightarrow> 64 word \<Rightarrow> pool \<Rightarrow> ('w, 'z) core_scheme \<Rightarrow>
   unit outcome \<times> pool \<times> ('w, 'z) core_scheme" where
  "pool_ReleaseFailed sys a token p s =
     (case mustRelease (co_heap s a) token of
        (Panic m, i) \<Rightarrow> (Panic m, p, s)
      | (Ret _, i) \<Rightarrow>
          (let s1 = stopInstanceBestEffort sys a (set_inst a i s)
           in case returnSlot p of (o1, p1) \<Rightarrow> (o1, p1, s1)))"


subsection \<open>The invariant\<close>

definition busy :: "pool \<Rightarrow> (nat \<Rightarrow> inst) \<Rightarrow> nat list" where
  "busy p h = filter (\<lambda>a. IsBusy (h a)) (po_all p)"

text \<open>The free stack holds distinct registered instances that nobody holds; a closed pool has an
  empty free stack; and the tokens in the semaphore and the instances in use together never exceed
  the size of a bounded pool.\<close>

definition pool_inv :: "pool \<Rightarrow> ('w, 'z) core_scheme \<Rightarrow> bool" where
  "pool_inv p s \<longleftrightarrow>
     distinct (po_all p) \<and> (\<forall>a \<in> set (po_all p). a < co_next s \<and> inst_inv (co_heap s a)) \<and>
     distinct (po_free p) \<and> set (po_free p) \<subseteq> set (po_all p) \<and>
     (\<forall>a \<in> set (po_free p). \<not> IsBusy (co_heap s a)) \<and>
     (po_closed p \<longrightarrow> po_free p = []) \<and>
     (po_sem p = None \<longleftrightarrow> po_maxSize p = 0) \<and>
     po_closeCh p = (if po_maxSize p = 0 then None else Some (po_closed p)) \<and>
     (\<forall>k. po_sem p = Some k \<longrightarrow> length (busy p (co_heap s)) + k \<le> po_maxSize p)"

lemma pool_inv_world: "pool_inv p s \<Longrightarrow> pool_inv p (s\<lparr>co_world := w\<rparr>)"
  by (simp add: pool_inv_def)

lemma stopInstanceBestEffort_heap:
  assumes "inst_inv (co_heap s a)"
  shows "\<exists>i. co_heap (stopInstanceBestEffort sys a s) = (co_heap s)(a := i) \<and> inst_inv i \<and>
    in_gen i = in_gen (co_heap s a) \<and> co_next (stopInstanceBestEffort sys a s) = co_next s"
proof -
  obtain c w1 where c: "os_ctx_with_timeout sys Background (ic_StopTimeout (in_cfg (co_heap s a)))
      (co_world s) = (c, w1)" by fastforce
  obtain e i r w2 where st: "inst_Stop sys (co_heap s a) c (co_reg s) w1 = (e, i, r, w2)"
    by (metis prod_cases4)
  from inst_Stop_inv [OF assms st] c st show ?thesis
    by (intro exI [of _ i]) (simp add: stopInstanceBestEffort_def inst_call_def set_inst_def Let_def)
qed

text \<open>A context made from the background context with a positive timeout is live at first.\<close>

definition ctx_law :: "'w os \<Rightarrow> bool" where
  "ctx_law sys \<longleftrightarrow> (\<forall>d w c w'. 0 < d \<and> os_ctx_with_timeout sys Background d w = (c, w') \<longrightarrow> os_ctx_err sys c w' = None)"

lemma stopInstanceBestEffort_stops:
  assumes "ctx_law sys" and "inst_inv (co_heap s a)"
  shows "\<not> in_started (co_heap (stopInstanceBestEffort sys a s) a) \<and>
    ports (co_reg (stopInstanceBestEffort sys a s)) = ports (co_reg s) - owned (co_heap s a)"
proof -
  obtain c w1 where c: "os_ctx_with_timeout sys Background (ic_StopTimeout (in_cfg (co_heap s a)))
      (co_world s) = (c, w1)" by fastforce
  have "0 < ic_StopTimeout (in_cfg (co_heap s a))"
    using assms(2) by (simp add: inst_inv_def ic_Validate_None_iff)
  with assms(1) c have live: "os_ctx_err sys c w1 = None" unfolding ctx_law_def by blast
  obtain e i r w2 where st: "inst_Stop sys (co_heap s a) c (co_reg s) w1 = (e, i, r, w2)"
    by (metis prod_cases4)
  from inst_Stop_post [OF assms(2) st] live c st show ?thesis
    by (simp add: stopInstanceBestEffort_def inst_call_def set_inst_def Let_def)
qed

lemma length_filter_update_busy:
  assumes "distinct xs"
  shows "length (filter (\<lambda>x. P ((h(a := i)) x)) xs) =
    (if a \<in> set xs then (if P i then 1 else 0) + length (filter (\<lambda>x. P (h x)) (remove1 a xs))
     else length (filter (\<lambda>x. P (h x)) xs))"
  using assms
proof (induction xs)
  case (Cons x xs)
  have "filter (\<lambda>y. P ((h(a := i)) y)) xs = filter (\<lambda>y. P (h y)) xs" if "a = x"
    using that Cons.prems by (intro filter_cong) auto
  with Cons show ?case by auto
qed simp

lemma length_filter_remove1:
  "distinct xs \<Longrightarrow> a \<in> set xs \<Longrightarrow>
     length (filter P xs) = (if P a then 1 else 0) + length (filter P (remove1 a xs))"
  by (induction xs) auto

text \<open>Replacing a registered instance by one of another generation changes the number in use by
  the obvious amount.\<close>

lemma busy_update:
  assumes "distinct (po_all p)"
  shows "length (busy p (h(a := i))) + (if a \<in> set (po_all p) \<and> IsBusy (h a) then 1 else 0) =
    length (busy p h) + (if a \<in> set (po_all p) \<and> IsBusy i then 1 else 0)"
  unfolding busy_def length_filter_update_busy [OF assms, of IsBusy]
  using length_filter_remove1 [OF assms, of a "\<lambda>x. IsBusy (h x)"] by auto

lemma pool_inv_update:
  assumes "pool_inv p s" and "inst_inv i" and "IsBusy i \<longleftrightarrow> IsBusy (co_heap s a)"
    and "co_heap s' = (co_heap s)(a := i)" and "co_next s' = co_next s"
  shows "pool_inv p s'"
proof -
  have "length (busy p (co_heap s')) = length (busy p (co_heap s))"
    using busy_update [of p "co_heap s" a i] assms by (auto simp: pool_inv_def split: if_splits)
  with assms show ?thesis by (auto simp: pool_inv_def)
qed

lemma stopInstanceBestEffort_inv [inv_intros]:
  assumes "pool_inv p s" and "inst_inv (co_heap s a)"
  shows "pool_inv p (stopInstanceBestEffort sys a s)"
proof -
  from stopInstanceBestEffort_heap [OF assms(2), of sys] obtain i where
    h: "co_heap (stopInstanceBestEffort sys a s) = (co_heap s)(a := i)" "inst_inv i"
    "in_gen i = in_gen (co_heap s a)" "co_next (stopInstanceBestEffort sys a s) = co_next s" by blast
  from h(3) have "IsBusy i \<longleftrightarrow> IsBusy (co_heap s a)" by (simp add: IsBusy_def)
  from pool_inv_update [OF assms(1) h(2) this h(1,4)] show ?thesis .
qed

lemma pool_Close_inv [inv_intros]: "pool_inv p s \<Longrightarrow> pool_inv (pool_Close p) s"
  by (auto simp: pool_inv_def pool_Close_def busy_def)

lemma NewPool_inv [inv_intros]: "NewPool f m = Ret p \<Longrightarrow> pool_inv p s \<and> int (po_maxSize p) = m"
  by (auto simp: NewPool_def pool_inv_def busy_def split: if_splits)

lemma returnSlot_room:
  assumes "\<And>k. po_sem p = Some k \<Longrightarrow> k < po_maxSize p"
  shows "returnSlot p = (Ret (), p\<lparr>po_sem := map_option Suc (po_sem p)\<rparr>)"
  using assms by (cases "po_sem p") (auto simp: returnSlot_def)


subsection \<open>Slots\<close>

text \<open>Somebody who has taken a slot and not yet an instance has room to return it.\<close>

definition room :: "pool \<Rightarrow> ('w, 'z) core_scheme \<Rightarrow> bool" where
  "room p s \<longleftrightarrow> (\<forall>k. po_sem p = Some k \<longrightarrow> length (busy p (co_heap s)) + k < po_maxSize p)"

lemma takeSlot_room:
  "pool_inv p s \<Longrightarrow> takeSlot sys c ev w p = Some (None, p') \<Longrightarrow> pool_inv p' s \<and> room p' s \<and> po_free p' = po_free p \<and>
     po_all p' = po_all p \<and> po_closed p' = po_closed p \<and> po_maxSize p' = po_maxSize p"
  by (auto simp: takeSlot_def pool_inv_def room_def busy_def split: option.splits sem_event.splits if_splits)

lemma takeSlot_fail: "takeSlot sys c ev w p = Some (Some e, p') \<Longrightarrow> p' = p"
  by (auto simp: takeSlot_def split: option.splits sem_event.splits if_splits)

lemma returnSlot_inv [inv_intros]:
  assumes "pool_inv p s" and "room p s"
  shows "\<exists>p'. returnSlot p = (Ret (), p') \<and> pool_inv p' s \<and> po_free p' = po_free p \<and> po_all p' = po_all p \<and>
    po_closed p' = po_closed p \<and> po_maxSize p' = po_maxSize p"
proof -
  have "returnSlot p = (Ret (), p\<lparr>po_sem := map_option Suc (po_sem p)\<rparr>)"
    using assms(2) by (intro returnSlot_room) (auto simp: room_def)
  with assms show ?thesis by (auto simp: pool_inv_def room_def busy_def)
qed

lemma pool_inv_markAcquired:
  assumes inv: "pool_inv p s" and rm: "room p s"
    and a: "a \<in> set (po_all p)" "a \<notin> set (po_free p)" "\<not> IsBusy (co_heap s a)"
  shows "pool_inv p (set_inst a (snd (markAcquired (co_heap s a))) s)"
proof -
  let ?i = "snd (markAcquired (co_heap s a))"
  have "IsBusy ?i" using a(3) by (rule markAcquired_busy)
  moreover have "inst_inv ?i" using inv a(1) by (intro markAcquired_inv) (auto simp: pool_inv_def)
  moreover have "length (busy p ((co_heap s)(a := ?i))) = Suc (length (busy p (co_heap s)))"
    using busy_update [of p "co_heap s" a ?i] inv a \<open>IsBusy ?i\<close> by (simp add: pool_inv_def)
  ultimately show ?thesis
    using inv rm a by (auto simp: pool_inv_def room_def set_inst_def)
qed

text \<open>After the token of a held instance was consumed there is room for its slot.\<close>

lemma pool_inv_consumed:
  assumes inv: "pool_inv p s" and a: "a \<in> set (po_all p)" "IsBusy (co_heap s a)"
    and s': "co_heap s' = (co_heap s)(a := i)" "co_next s' = co_next s" "inst_inv i" "\<not> IsBusy i"
  shows "pool_inv p s' \<and> room p s' \<and> a \<notin> set (po_free p)"
proof -
  have nf: "a \<notin> set (po_free p)" using inv a(2) by (auto simp: pool_inv_def)
  have "Suc (length (busy p (co_heap s'))) = length (busy p (co_heap s))"
    using busy_update [of p "co_heap s" a i] inv a s' by (simp add: pool_inv_def)
  with inv s' nf show ?thesis by (auto simp: pool_inv_def room_def)
qed

lemma mustRelease_heap:
  assumes "inst_inv (co_heap s a)" and "IsBusy (co_heap s a)" and "isCurrentToken (co_heap s a) t"
  shows "mustRelease (co_heap s a) t = (Ret (), (co_heap s a)\<lparr>in_gen := t + 1\<rparr>)"
    and "inst_inv ((co_heap s a)\<lparr>in_gen := t + 1\<rparr>)"
    and "\<not> IsBusy ((co_heap s a)\<lparr>in_gen := t + 1\<rparr>)"
  using assms tryRelease_inv [OF assms(1), of t] tryRelease_free [OF assms(2), of t]
  by (auto simp: mustRelease_eq tryRelease_def isCurrentToken_def)

text \<open>What \<^verbatim>\<open>Acquire\<close> promises: the invariant, and that a returned instance was not in use, is now held
  with the current token, and no other registered instance was touched.\<close>

definition acq_post ::
  "pool \<Rightarrow> ('w, 'z) core_scheme \<Rightarrow> (go_error + nat \<times> 64 word) outcome \<Rightarrow> pool \<Rightarrow> ('w, 'z) core_scheme \<Rightarrow> bool" where
  "acq_post p s out p' s' \<longleftrightarrow> pool_inv p' s' \<and>
     (\<forall>a t. out = Ret (Inr (a, t)) \<longrightarrow>
        a \<in> set (po_all p') \<and> isCurrentToken (co_heap s' a) t \<and> IsBusy (co_heap s' a) \<and>
        (a \<in> set (po_all p) \<longrightarrow> \<not> IsBusy (co_heap s a)) \<and>
        (\<forall>b \<in> set (po_all p). b \<noteq> a \<longrightarrow> co_heap s' b = co_heap s b))"

lemma acquire_pop:
  assumes inv: "pool_inv p s" and rm: "room p s" and pop: "popFree p = (AcqPop a, p1)"
    and run: "acquireUnlocked sys factory mid p s = (out, p', s')"
  shows "acq_post p s out p' s' \<and> out = Ret (Inr (a, in_gen (co_heap s a) + 1))"
proof -
  from pop have ne: "po_free p \<noteq> []" "\<not> po_closed p" "a = last (po_free p)"
    and p1: "p1 = p\<lparr>po_free := butlast (po_free p)\<rparr>"
    by (auto simp: popFree_def split: if_splits)
  then have free: "po_free p = butlast (po_free p) @ [a]" by simp
  then have dist: "distinct (butlast (po_free p) @ [a])" "set (butlast (po_free p) @ [a]) \<subseteq> set (po_all p)"
    "\<forall>b \<in> set (butlast (po_free p) @ [a]). \<not> IsBusy (co_heap s b)"
    using inv unfolding pool_inv_def by metis+
  have p: "pool_inv p1 s" "room p1 s" "a \<in> set (po_all p1)" "a \<notin> set (po_free p1)" "\<not> IsBusy (co_heap s a)"
    using inv rm ne(2) dist p1 by (auto simp: pool_inv_def room_def busy_def)
  have "out = Ret (Inr (a, in_gen (co_heap s a) + 1))" "p' = p1"
    "s' = set_inst a (snd (markAcquired (co_heap s a))) s"
    using run pop by (auto simp: acquireUnlocked_def markAcquired_def)
  with pool_inv_markAcquired [OF p] markAcquired_busy [OF p(5)] p(3,5) show ?thesis
    by (auto simp: set_inst_def isCurrentToken_def markAcquired_def acq_post_def)
qed

lemma in_gen_self [simp]: "(i :: inst)\<lparr>in_gen := in_gen i\<rparr> = i"
  by (cases i) simp

definition acq_frame ::
  "pool \<Rightarrow> ('w, 'z) core_scheme \<Rightarrow> (go_error + nat \<times> 64 word) outcome \<Rightarrow> pool \<Rightarrow> ('w, 'z) core_scheme \<Rightarrow> bool" where
  "acq_frame p s out p' s' \<longleftrightarrow> co_reg s' = co_reg s \<and> core.more s' = core.more s \<and>
     po_maxSize p' = po_maxSize p \<and>
     (\<forall>b \<in> set (po_all p). b \<in> set (po_all p') \<and> co_heap s' b = (co_heap s b)\<lparr>in_gen := in_gen (co_heap s' b)\<rparr> \<and>
        ((\<forall>t. out \<noteq> Ret (Inr (b, t))) \<longrightarrow> co_heap s' b = co_heap s b)) \<and>
     (\<forall>b \<in> set (po_all p') - set (po_all p). \<not> in_started (co_heap s' b) \<and> in_hasReleaser (co_heap s' b) \<and>
        ((\<forall>t. out \<noteq> Ret (Inr (b, t))) \<longrightarrow> \<not> IsBusy (co_heap s' b)))"

subsection \<open>The contract of an instance factory\<close>

text \<open>A factory that returns an instance puts it, free and not started, at a fresh address; when it
  fails it leaves the heap alone.\<close>

locale instance_factory =
  fixes factory :: "('w, 'z) factory"
  assumes factory_new: "factory idx s = (Ret (Inr a), s') \<Longrightarrow>
      a = co_next s \<and> co_next s' = Suc (co_next s) \<and>
      (\<exists>i. co_heap s' = (co_heap s)(a := i) \<and> inst_inv i \<and> \<not> IsBusy i \<and> \<not> in_started i \<and> in_hasReleaser i)"
    and factory_fail: "factory idx s = (Ret (Inl e), s') \<Longrightarrow> co_heap s' = co_heap s \<and> co_next s' = co_next s"
    and factory_panic: "factory idx s = (Panic m, s') \<Longrightarrow> co_heap s' = co_heap s \<and> co_next s' = co_next s"
    and factory_frame: "factory idx s = (out, s') \<Longrightarrow> co_reg s' = co_reg s \<and> core.more s' = core.more s"
begin

lemma registered:
  assumes inv: "pool_inv p s" and rm: "room p s" and f: "factory idx s = (Ret (Inr a), s')"
    and p': "p' = p\<lparr>po_all := po_all p @ [a]\<rparr>"
  shows "pool_inv p' s' \<and> room p' s' \<and> a \<notin> set (po_all p) \<and> \<not> IsBusy (co_heap s' a) \<and> inst_inv (co_heap s' a)"
proof -
  from factory_new [OF f] obtain i where i: "a = co_next s" "co_next s' = Suc a"
    "co_heap s' = (co_heap s)(a := i)" "inst_inv i" "\<not> IsBusy i" by blast
  have a: "a \<notin> set (po_all p)" using inv i(1) by (auto simp: pool_inv_def)
  then have "busy p' (co_heap s') = busy p (co_heap s)"
    using i p' by (auto simp: busy_def intro: filter_cong)
  with inv rm i p' a show ?thesis
    unfolding pool_inv_def room_def by (auto simp: less_Suc_eq)
qed

lemma acquire_new:
  assumes inv: "pool_inv p s" and rm: "room p s" and mid: "mid = id \<or> mid = pool_Close"
    and f: "factory idx s = (Ret (Inr a), s1)" and pop: "popFree p0 = (AcqNew idx, p)"
    and all: "po_all p0 = po_all p" and run: "acquireUnlocked sys factory mid p0 s = (out, p', s')"
  shows "acq_post p0 s out p' s' \<and> (\<forall>m. out \<noteq> Panic m)"
proof -
  let ?m = "mid p"
  let ?q = "?m\<lparr>po_all := po_all ?m @ [a]\<rparr>"
  have m: "pool_inv ?m s" "room ?m s" "po_all ?m = po_all p"
    using mid inv rm pool_Close_inv [OF inv] by (auto simp: pool_Close_def room_def busy_def)
  note reg = registered [OF m(1,2) f refl]
  from factory_new [OF f] obtain i where h: "co_heap s1 = (co_heap s)(a := i)" by blast
  have a: "a \<notin> set (po_free ?q)" using m(1) reg by (auto simp: pool_inv_def)
  show ?thesis
  proof (cases "po_closed ?m")
    case True
    from returnSlot_inv [of ?q s1] reg obtain q' where
      q': "returnSlot ?q = (Ret (), q')" "pool_inv q' s1" by blast
    from stopInstanceBestEffort_inv [OF q'(2), of a] reg q' True run pop f show ?thesis
      by (auto simp: acquireUnlocked_def registerNew_def acq_post_def)
  next
    case False
    have "out = Ret (Inr (a, in_gen (co_heap s1 a) + 1))" "p' = ?q"
      "s' = set_inst a (snd (markAcquired (co_heap s1 a))) s1"
      using False run pop f by (auto simp: acquireUnlocked_def registerNew_def markAcquired_def)
    with pool_inv_markAcquired [of ?q s1 a] markAcquired_busy [of "co_heap s1 a"] reg a h m(3) all
    show ?thesis by (auto simp: set_inst_def isCurrentToken_def markAcquired_def acq_post_def)
  qed
qed

lemma acquireUnlocked_spec:
  assumes inv: "pool_inv p s" and rm: "room p s" and mid: "mid = id \<or> mid = pool_Close"
    and run: "acquireUnlocked sys factory mid p s = (out, p', s')"
  shows "acq_post p s out p' s' \<and> (\<forall>m. out = Panic m \<longrightarrow> (\<exists>idx s1. factory idx s = (Panic m, s1)))"
proof (cases "fst (popFree p)")
  case AcqClosed
  with run returnSlot_inv [OF inv rm] show ?thesis
    by (auto simp: acquireUnlocked_def popFree_def acq_post_def split: if_splits)
next
  case (AcqPop a)
  then have "popFree p = (AcqPop a, snd (popFree p))" by (metis prod.collapse)
  from acquire_pop [OF inv rm this run] show ?thesis by auto
next
  case (AcqNew idx)
  let ?p = "p\<lparr>po_nextIdx := po_nextIdx p + 1\<rparr>"
  have p: "pool_inv ?p s" "room ?p s" using inv rm by (auto simp: pool_inv_def room_def busy_def)
  have pop: "popFree p = (AcqNew idx, ?p)" using AcqNew by (auto simp: popFree_def split: if_splits)
  obtain o1 s1 where f: "factory idx s = (o1, s1)" by fastforce
  consider (panic) m where "o1 = Panic m" | (fail) e where "o1 = Ret (Inl e)" | (ok) a where "o1 = Ret (Inr a)"
    by (metis outcome.exhaust sum.exhaust)
  then show ?thesis
  proof cases
    case panic
    with factory_panic f p(1) have "pool_inv ?p s1" by (auto simp: pool_inv_def)
    with panic f run pop show ?thesis by (auto simp: acquireUnlocked_def acq_post_def)
  next
    case fail
    with factory_fail f p have "pool_inv ?p s1" "room ?p s1" by (auto simp: pool_inv_def room_def)
    from returnSlot_inv [OF this] fail f run pop show ?thesis
      by (auto simp: acquireUnlocked_def acq_post_def)
  next
    case (ok a)
    with acquire_new [OF p mid _ pop _ run] f show ?thesis by auto
  qed
qed

text \<open>What else an acquisition leaves alone: the registry, the rest of the state, and every registered
  instance but the one it returns. What it registers is not started, and free unless returned.\<close>

lemma stop_fresh:
  assumes "inst_inv (co_heap s a)" and "\<not> in_started (co_heap s a)"
  shows "\<exists>w. stopInstanceBestEffort sys a s = s\<lparr>co_world := w\<rparr>"
proof -
  obtain c w1 where c: "os_ctx_with_timeout sys Background (ic_StopTimeout (in_cfg (co_heap s a)))
      (co_world s) = (c, w1)" by fastforce
  obtain e i r w2 where st: "inst_Stop sys (co_heap s a) c (co_reg s) w1 = (e, i, r, w2)"
    by (metis prod_cases4)
  from inst_Stop_idle [OF assms st] c st show ?thesis
    by (auto simp: stopInstanceBestEffort_def inst_call_def set_inst_def Let_def intro!: exI)
qed

lemma returnSlot_fields:
  "po_all (snd (returnSlot q)) = po_all q" "po_maxSize (snd (returnSlot q)) = po_maxSize q"
  by (simp_all add: returnSlot_def split: option.splits)

lemma made_frame:
  assumes inv: "pool_inv p s" and mid: "mid = id \<or> mid = pool_Close" and pop: "popFree p = (AcqNew idx, p\<lparr>po_nextIdx := po_nextIdx p + 1\<rparr>)"
    and f: "factory idx s = (Ret (Inr a), s1)" and run: "acquireUnlocked sys factory mid p s = (out, p', s')"
  shows "acq_frame p s out p' s'"
proof -
  note fr = factory_frame [OF f]
  from factory_new [OF f] obtain i where i: "a = co_next s" "co_heap s1 = (co_heap s)(a := i)" "inst_inv i"
    "\<not> IsBusy i" "\<not> in_started i" "in_hasReleaser i" by blast
  have a: "a \<notin> set (po_all p)" using inv i(1) by (auto simp: pool_inv_def)
  from stop_fresh [of s1 a sys] i obtain w where w: "stopInstanceBestEffort sys a s1 = s1\<lparr>co_world := w\<rparr>" by auto
  let ?m = "mid (p\<lparr>po_nextIdx := po_nextIdx p + 1\<rparr>)"
  let ?q = "?m\<lparr>po_all := po_all ?m @ [a]\<rparr>"
  have ms: "po_all ?m = po_all p" "po_maxSize ?m = po_maxSize p" using mid by (auto simp: pool_Close_def)
  show ?thesis
  proof (cases "po_closed ?m")
    case True
    with run pop f have "p' = snd (returnSlot ?q)" "\<And>x. out \<noteq> Ret (Inr x)"
      "co_heap s' = co_heap s1 \<and> co_reg s' = co_reg s1 \<and> core.more s' = core.more s1"
      by (auto simp: w acquireUnlocked_def registerNew_def split: prod.splits outcome.splits)
    with returnSlot_fields [of ?q] ms i a fr show ?thesis by (auto simp: acq_frame_def)
  next
    case False
    with run pop f have "p' = ?q" "out = Ret (Inr (a, in_gen i + 1))"
      "s' = set_inst a (i\<lparr>in_gen := in_gen i + 1\<rparr>) s1"
      using i(2) by (auto simp: acquireUnlocked_def registerNew_def markAcquired_def)
    with ms i a fr show ?thesis by (auto simp: acq_frame_def set_inst_def)
  qed
qed

lemma acquireUnlocked_frame:
  assumes inv: "pool_inv p s" and mid: "mid = id \<or> mid = pool_Close"
    and run: "acquireUnlocked sys factory mid p s = (out, p', s')"
  shows "acq_frame p s out p' s'"
proof (cases "fst (popFree p)")
  case AcqClosed
  with run show ?thesis
    by (auto simp: acquireUnlocked_def popFree_def acq_frame_def returnSlot_def split: if_splits option.splits)
next
  case (AcqPop a)
  with run show ?thesis
    by (auto simp: acquireUnlocked_def popFree_def acq_frame_def markAcquired_def set_inst_def split: if_splits)
next
  case (AcqNew idx)
  let ?q = "p\<lparr>po_nextIdx := po_nextIdx p + 1\<rparr>"
  from AcqNew have pop: "popFree p = (AcqNew idx, ?q)" by (auto simp: popFree_def split: if_splits)
  obtain o1 s1 where f: "factory idx s = (o1, s1)" by fastforce
  note fr = factory_frame [OF f]
  consider (panic) m where "o1 = Panic m" | (fail) e where "o1 = Ret (Inl e)" | (ok) a where "o1 = Ret (Inr a)"
    by (metis outcome.exhaust sum.exhaust)
  then show ?thesis
  proof cases
    case panic
    with factory_panic f fr run pop show ?thesis by (auto simp: acquireUnlocked_def acq_frame_def)
  next
    case fail
    from fail f run pop have "p' = snd (returnSlot ?q)" "s' = s1" "\<And>x. out \<noteq> Ret (Inr x)"
      by (auto simp: acquireUnlocked_def split: prod.splits outcome.splits)
    with returnSlot_fields [of ?q] factory_fail f fail fr show ?thesis by (simp add: acq_frame_def)
  next
    case ok
    with made_frame [OF inv mid pop _ run] f show ?thesis by simp
  qed
qed

end


subsection \<open>Release\<close>

lemma pool_Release_open:
  assumes inv: "pool_inv p s" and a: "a \<in> set (po_all p)" "IsBusy (co_heap s a)" "isCurrentToken (co_heap s a) t"
    and op: "\<not> po_closed p"
  shows "\<exists>p'. pool_Release sys a t p s = (Ret (), p', set_inst a ((co_heap s a)\<lparr>in_gen := t + 1\<rparr>) s) \<and>
    pool_inv p' (set_inst a ((co_heap s a)\<lparr>in_gen := t + 1\<rparr>) s) \<and> po_free p' = po_free p @ [a] \<and>
    po_all p' = po_all p \<and> \<not> po_closed p' \<and> po_maxSize p' = po_maxSize p"
proof -
  let ?i = "(co_heap s a)\<lparr>in_gen := t + 1\<rparr>" and ?q = "p\<lparr>po_free := po_free p @ [a]\<rparr>"
  let ?s = "set_inst a ?i s"
  have i: "inst_inv (co_heap s a)" using inv a(1) by (auto simp: pool_inv_def)
  note mr = mustRelease_heap [OF i a(2,3)]
  have "pool_inv p ?s \<and> room p ?s \<and> a \<notin> set (po_free p)"
    by (rule pool_inv_consumed [OF inv a(1,2) _ _ mr(2,3)]) (simp_all add: set_inst_def)
  then have "pool_inv ?q ?s" "room ?q ?s"
    using op a(1) mr(3) by (auto simp: pool_inv_def room_def busy_def set_inst_def)
  from returnSlot_inv [OF this] show ?thesis
    using mr(1) op by (auto simp: pool_Release_def pushFree_def Let_def)
qed

text \<open>The three ways an instance is given up for good share their ending.\<close>

lemma consumed_and_stopped:
  assumes inv: "pool_inv p s" and a: "a \<in> set (po_all p)" "IsBusy (co_heap s a)" "isCurrentToken (co_heap s a) t"
    and s': "s' = stopInstanceBestEffort sys a (set_inst a ((co_heap s a)\<lparr>in_gen := t + 1\<rparr>) s)"
  shows "pool_inv p s' \<and> room p s' \<and> in_gen (co_heap s' a) = t + 1 \<and> \<not> IsBusy (co_heap s' a)"
proof -
  let ?i = "(co_heap s a)\<lparr>in_gen := t + 1\<rparr>"
  let ?s = "set_inst a ?i s"
  have i: "inst_inv (co_heap s a)" using inv a(1) by (auto simp: pool_inv_def)
  note mr = mustRelease_heap [OF i a(2,3)]
  have "pool_inv p ?s \<and> room p ?s"
    using pool_inv_consumed [OF inv a(1,2) _ _ mr(2,3), of ?s] by (simp add: set_inst_def)
  moreover have "inst_inv (co_heap ?s a)" using mr(2) by (simp add: set_inst_def)
  moreover from stopInstanceBestEffort_heap [OF this, of sys] obtain j where
    j: "co_heap s' = (co_heap ?s)(a := j)" "in_gen j = t + 1" by (auto simp: s' set_inst_def)
  moreover have "\<not> IsBusy j" using mr(3) j(2) by (simp add: IsBusy_def)
  moreover have "pool_inv p s'" using calculation s' by (auto intro: stopInstanceBestEffort_inv)
  moreover have "length (busy p (co_heap s')) \<le> length (busy p (co_heap ?s))"
    using busy_update [of p "co_heap ?s" a j] calculation by (simp add: pool_inv_def split: if_splits)
  ultimately show ?thesis by (fastforce simp: room_def)
qed

lemma pool_Release_closed:
  assumes inv: "pool_inv p s" and a: "a \<in> set (po_all p)" "IsBusy (co_heap s a)" "isCurrentToken (co_heap s a) t"
    and cl: "po_closed p"
  shows "\<exists>p' s'. pool_Release sys a t p s = (Ret (), p', s') \<and> pool_inv p' s' \<and>
    in_gen (co_heap s' a) = t + 1 \<and> \<not> IsBusy (co_heap s' a) \<and> po_free p' = [] \<and> po_all p' = po_all p \<and>
    po_maxSize p' = po_maxSize p \<and> s' = stopInstanceBestEffort sys a (set_inst a ((co_heap s a)\<lparr>in_gen := t + 1\<rparr>) s)"
proof -
  have i: "inst_inv (co_heap s a)" using inv a(1) by (auto simp: pool_inv_def)
  note mr = mustRelease_heap [OF i a(2,3)]
  note st = consumed_and_stopped [OF inv a refl, of sys]
  from returnSlot_inv [of p] st obtain p' where
    "returnSlot p = (Ret (), p')" "pool_inv p' (stopInstanceBestEffort sys a (set_inst a ((co_heap s a)\<lparr>in_gen := t + 1\<rparr>) s))"
    "po_free p' = po_free p" "po_all p' = po_all p" "po_maxSize p' = po_maxSize p" by blast
  with st mr cl inv show ?thesis
    by (auto simp: pool_Release_def pushFree_def Let_def pool_inv_def)
qed

lemma pool_ReleaseFailed_ok:
  assumes inv: "pool_inv p s" and a: "a \<in> set (po_all p)" "IsBusy (co_heap s a)" "isCurrentToken (co_heap s a) t"
  shows "\<exists>p' s'. pool_ReleaseFailed sys a t p s = (Ret (), p', s') \<and> pool_inv p' s' \<and>
    in_gen (co_heap s' a) = t + 1 \<and> \<not> IsBusy (co_heap s' a) \<and> po_free p' = po_free p \<and> po_all p' = po_all p \<and>
    po_maxSize p' = po_maxSize p \<and> s' = stopInstanceBestEffort sys a (set_inst a ((co_heap s a)\<lparr>in_gen := t + 1\<rparr>) s)"
proof -
  have i: "inst_inv (co_heap s a)" using inv a(1) by (auto simp: pool_inv_def)
  note mr = mustRelease_heap [OF i a(2,3)]
  note st = consumed_and_stopped [OF inv a refl, of sys]
  from returnSlot_inv [of p] st mr show ?thesis
    by (fastforce simp: pool_ReleaseFailed_def Let_def)
qed

lemma pool_release_stale:
  assumes "\<not> isCurrentToken (co_heap s a) t"
  shows "\<exists>m. pool_Release sys a t p s = (Panic m, p, s) \<and> pool_ReleaseFailed sys a t p s = (Panic m, p, s)"
  using assms by (simp add: pool_Release_def pool_ReleaseFailed_def mustRelease_eq)

lemma pool_Acquire_post:
  assumes "instance_factory factory" and "pool_inv p s" and "mid = id \<or> mid = pool_Close"
    and "pool_Acquire sys factory mid c ev p s = Some (out, p', s')"
  shows "acq_post p s out p' s' \<and> acq_frame p s out p' s' \<and>
    (\<forall>m. out = Panic m \<longrightarrow> (\<exists>idx s1. factory idx s = (Panic m, s1)))"
proof -
  consider (early) e where "out = Ret (Inl e)" "p' = p" "s' = s"
    | (slot) p1 where "takeSlot sys c ev (co_world s) p = Some (None, p1)"
        "acquireUnlocked sys factory mid p1 s = (out, p', s')"
    using assms(4)
    by (auto simp: pool_Acquire_def split: option.splits dest!: takeSlot_fail)
  then show ?thesis
  proof cases
    case slot
    from takeSlot_room [OF assms(2) slot(1)] have
      p1: "pool_inv p1 s" "room p1 s" "po_all p1 = po_all p" "po_maxSize p1 = po_maxSize p" by auto
    from instance_factory.acquireUnlocked_spec [OF assms(1) p1(1,2) assms(3) slot(2)]
      instance_factory.acquireUnlocked_frame [OF assms(1) p1(1) assms(3) slot(2)] p1(3,4) show ?thesis
      by (simp add: acq_post_def acq_frame_def)
  qed (use assms(2) in \<open>simp add: acq_post_def acq_frame_def\<close>)
qed

subsection \<open>Properties\<close>

text \<open>\<^verbatim>\<open>Acquire\<close> hands out an instance to one holder: it was not in use before, it is in use with
  the returned token current afterwards, no other instance is touched, and the invariant of the
  pool (distinct free instances, tokens and instances in use within the size) is kept on every
  path, with the pool closed while the factory runs too. It panics only if the factory does.\<close>

theorem pool_Acquire_exclusive:
  assumes "instance_factory factory" and "pool_inv p s" and "mid = id \<or> mid = pool_Close"
    and "pool_Acquire sys factory mid c ev p s = Some (out, p', s')"
  shows "acq_post p s out p' s' \<and> (\<forall>m. out = Panic m \<longrightarrow> (\<exists>idx s1. factory idx s = (Panic m, s1)))"
  using pool_Acquire_post [OF assms] by blast

text \<open>Giving back a held instance with its token returns without a panic (the semaphore has
  room), consumes the token and keeps the invariant. In an open pool the instance, untouched, is on
  top of the free stack; in a closed one it is stopped and the free stack stays empty. A token that
  is not current panics and changes nothing.\<close>

theorem pool_Release_spec:
  assumes "pool_inv p s" and "a \<in> set (po_all p)" and "IsBusy (co_heap s a)"
  shows "if isCurrentToken (co_heap s a) t
    then \<exists>p' s'. pool_Release sys a t p s = (Ret (), p', s') \<and> pool_inv p' s' \<and>
      in_gen (co_heap s' a) = t + 1 \<and> \<not> IsBusy (co_heap s' a) \<and>
      (if po_closed p then po_free p' = []
       else po_free p' = po_free p @ [a] \<and> s' = set_inst a ((co_heap s a)\<lparr>in_gen := t + 1\<rparr>) s)
    else \<exists>m. pool_Release sys a t p s = (Panic m, p, s)"
proof (cases "isCurrentToken (co_heap s a) t")
  case True
  have i: "inst_inv (co_heap s a)" using assms(1,2) by (auto simp: pool_inv_def)
  show ?thesis
    using True pool_Release_closed [OF assms True, of sys] pool_Release_open [OF assms True, of sys]
      mustRelease_heap(3) [OF i assms(3) True]
    by (cases "po_closed p") (fastforce simp: set_inst_def)+
next
  case False
  with pool_release_stale [OF False, of sys p] show ?thesis by auto
qed

text \<open>The free stack is last in, first out: after a release into an open pool the next \<^verbatim>\<open>Acquire\<close>
  under a live context returns the same warm instance, with a token two generations on.\<close>

theorem pool_release_acquire:
  assumes "pool_inv p s" and "a \<in> set (po_all p)" and "IsBusy (co_heap s a)"
    and "isCurrentToken (co_heap s a) t" and "\<not> po_closed p"
    and "pool_Release sys a t p s = (out, p1, s1)" and "os_ctx_err sys c (co_world s1) = None"
  shows "\<exists>p2 s2. pool_Acquire sys factory mid c GotSlot p1 s1 = Some (Ret (Inr (a, t + 2)), p2, s2) \<and>
    in_stack (co_heap s2 a) = in_stack (co_heap s a) \<and> po_free p2 = po_free p"
proof -
  from pool_Release_open [OF assms(1-5), of sys] assms(6) have
    s1: "s1 = set_inst a ((co_heap s a)\<lparr>in_gen := t + 1\<rparr>) s" "pool_inv p1 s1"
      "po_free p1 = po_free p @ [a]" "\<not> po_closed p1" by auto
  have slot: "\<exists>p3. takeSlot sys c GotSlot w p1 = Some (None, p3) \<and> po_free p3 = po_free p1 \<and> \<not> po_closed p3" for w
  proof (cases "po_sem p1")
    case None
    then show ?thesis using s1(4) by (auto simp: takeSlot_def)
  next
    case (Some k)
    with assms(6) s1(4) pool_Release_open [OF assms(1-5), of sys] have "k > 0"
      using assms(1) mustRelease_heap(1) [of s a t] assms(2-5)
      by (auto simp: pool_Release_def pushFree_def returnSlot_def pool_inv_def Let_def
          split: option.splits if_splits)
    with Some s1(4) show ?thesis by (auto simp: takeSlot_def)
  qed
  from slot [of "co_world s1"] obtain p3 where
    p3: "takeSlot sys c GotSlot (co_world s1) p1 = Some (None, p3)" "po_free p3 = po_free p @ [a]" "\<not> po_closed p3"
    using s1(3) by auto
  with assms(7) s1(1) show ?thesis
    by (simp add: pool_Acquire_def acquireUnlocked_def popFree_def markAcquired_def set_inst_def)
qed


text \<open>A failed instance is retired: \<^verbatim>\<open>ReleaseFailed\<close> with the current token consumes it, stops the
  instance, takes its ports out of the registry and gives the slot back, without a panic and without
  putting the instance on the free stack; it stays in the list of all instances.\<close>

theorem pool_ReleaseFailed_retires:
  assumes "ctx_law sys" and "pool_inv p s" and "a \<in> set (po_all p)" and "IsBusy (co_heap s a)"
    and "isCurrentToken (co_heap s a) t"
  shows "\<exists>p' s'. pool_ReleaseFailed sys a t p s = (Ret (), p', s') \<and> pool_inv p' s' \<and>
    in_gen (co_heap s' a) = t + 1 \<and> \<not> in_started (co_heap s' a) \<and> a \<notin> set (po_free p') \<and>
    a \<in> set (po_all p') \<and> ports (co_reg s') = ports (co_reg s) - owned (co_heap s a)"
proof -
  let ?i = "(co_heap s a)\<lparr>in_gen := t + 1\<rparr>"
  have i: "inst_inv (co_heap s a)" and nf: "a \<notin> set (po_free p)" using assms by (auto simp: pool_inv_def)
  have "inst_inv ?i" by (rule mustRelease_heap(2) [OF i assms(4,5)])
  then have "inst_inv (co_heap (set_inst a ?i s) a)" by (simp add: set_inst_def)
  from stopInstanceBestEffort_stops [OF assms(1) this] have
    "\<not> in_started (co_heap (stopInstanceBestEffort sys a (set_inst a ?i s)) a) \<and>
     ports (co_reg (stopInstanceBestEffort sys a (set_inst a ?i s))) = ports (co_reg s) - owned (co_heap s a)"
    by (simp add: set_inst_def owned_def)
  with pool_ReleaseFailed_ok [OF assms(2-5), of sys] nf assms(3) show ?thesis by auto
qed

subsection \<open>Witnesses\<close>

text \<open>A factory that copies a template instance, and a heap of such instances.\<close>

definition template_inst :: inst where "template_inst = sample_inst\<lparr>in_gen := 0\<rparr>"

definition template_factory :: "('w, 'z) factory" where
  "template_factory idx s = (case alloc_inst template_inst s of (a, s1) \<Rightarrow> (Ret (Inr a), s1))"

lemma template_inv: "inst_inv template_inst" "\<not> IsBusy template_inst" "\<not> in_started template_inst"
    "in_hasReleaser template_inst"
  using sample_inst_inv by (simp_all add: template_inst_def inst_inv_def IsBusy_def) (simp add: sample_inst_def)

lemma template_factory_ok: "instance_factory template_factory"
  using template_inv
  by unfold_locales (auto simp: template_factory_def alloc_inst_def set_inst_def)

definition sample_core :: "unit core" where
  "sample_core = \<lparr>co_heap = (\<lambda>_. template_inst), co_next = 0, co_reg = NewPortRegistry, co_world = ()\<rparr>"

definition sample_pool :: pool where
  "sample_pool = \<lparr>po_free = [], po_all = [], po_nextIdx = 0, po_closed = False, po_maxSize = 1,
     po_sem = Some 1, po_closeCh = Some False\<rparr>"

definition held_core :: "unit core" where
  "held_core = sample_core\<lparr>co_heap := (\<lambda>_. template_inst)(0 := template_inst\<lparr>in_gen := 1\<rparr>), co_next := 1\<rparr>"

definition held_pool :: pool where
  "held_pool = sample_pool\<lparr>po_all := [0], po_nextIdx := 1, po_sem := Some 0\<rparr>"

lemma sample_pool_inv: "pool_inv sample_pool sample_core"
  by (simp add: pool_inv_def sample_pool_def busy_def)

lemma sample_acquire:
  "pool_Acquire quiet_os template_factory id 1 GotSlot sample_pool sample_core =
     Some (Ret (Inr (0, 1)), held_pool, held_core)"
  by (simp add: pool_Acquire_def takeSlot_def acquireUnlocked_def popFree_def template_factory_def alloc_inst_def
      registerNew_def markAcquired_def set_inst_def sample_pool_def sample_core_def held_pool_def held_core_def
      quiet_os_def template_inst_def sample_inst_def)

lemma held_facts:
  "0 \<in> set (po_all held_pool)" "IsBusy (co_heap held_core 0)" "isCurrentToken (co_heap held_core 0) 1"
  "\<not> po_closed held_pool"
  by (simp_all add: held_pool_def held_core_def sample_pool_def IsBusy_odd isCurrentToken_def)

lemma held_inv: "pool_inv held_pool held_core"
  using template_inv
  by (auto simp: pool_inv_def held_pool_def held_core_def sample_pool_def busy_def inst_inv_def)

theorem pool_Acquire_exclusive_witness:
  "pool_Acquire quiet_os template_factory id 1 GotSlot sample_pool sample_core =
     Some (Ret (Inr (0, 1)), held_pool, held_core) \<and> IsBusy (co_heap held_core 0)"
  using pool_Acquire_exclusive [OF template_factory_ok sample_pool_inv disjI1 [OF refl] sample_acquire]
    sample_acquire by (simp add: acq_post_def)

theorem pool_Release_spec_witness:
  "\<exists>p' s'. pool_Release quiet_os 0 1 held_pool held_core = (Ret (), p', s') \<and> po_free p' = [0] \<and>
     (\<exists>m. pool_Release quiet_os 0 3 held_pool held_core = (Panic m, held_pool, held_core))"
proof -
  have "\<not> isCurrentToken (co_heap held_core 0) 3"
    by (simp add: held_core_def isCurrentToken_def)
  then show ?thesis
    using pool_Release_spec [OF held_inv held_facts(1,2), of 1 quiet_os]
      pool_Release_spec [OF held_inv held_facts(1,2), of 3 quiet_os] held_facts(3,4)
    by (auto simp: held_pool_def sample_pool_def)
qed

theorem pool_release_acquire_witness:
  "\<exists>p1 s1 p2 s2. pool_Release quiet_os 0 1 held_pool held_core = (Ret (), p1, s1) \<and>
     pool_Acquire quiet_os template_factory id 1 GotSlot p1 s1 = Some (Ret (Inr (0, 3)), p2, s2)"
proof -
  obtain p1 s1 where run: "pool_Release quiet_os 0 1 held_pool held_core = (Ret (), p1, s1)"
    using pool_Release_open [OF held_inv held_facts, of quiet_os] by blast
  have "os_ctx_err quiet_os 1 (co_world s1) = None" by (simp add: quiet_os_def)
  from pool_release_acquire [OF held_inv held_facts run this, of template_factory id] run show ?thesis by auto
qed

theorem pool_ReleaseFailed_retires_witness:
  "\<exists>p' s'. pool_ReleaseFailed quiet_os 0 1 held_pool held_core = (Ret (), p', s') \<and> po_free p' = [] \<and>
     in_gen (co_heap s' 0) = 2"
proof -
  have law: "ctx_law quiet_os" by (simp add: ctx_law_def quiet_os_def)
  from pool_ReleaseFailed_retires [OF law held_inv held_facts(1-3)] pool_ReleaseFailed_ok [OF held_inv held_facts(1-3), of quiet_os]
  show ?thesis by (auto simp: held_pool_def sample_pool_def)
qed

text \<open>The size of a pool bounds the instances in use, not the instances ever created: in a pool
  of size one a failed instance is replaced by a second one at the next \<^verbatim>\<open>Acquire\<close>, while the comment
  on \<^verbatim>\<open>maxSize\<close> calls it the maximum number of instances the pool will create.\<close>

theorem pool_size_not_total:
  "\<exists>p1 s1 p2 s2. pool_ReleaseFailed quiet_os 0 1 held_pool held_core = (Ret (), p1, s1) \<and>
     pool_Acquire quiet_os template_factory id 1 GotSlot p1 s1 = Some (Ret (Inr (1, 1)), p2, s2) \<and>
     po_maxSize p2 = 1 \<and> length (Instances p2) = 2"
  by (simp add: pool_ReleaseFailed_def mustRelease_def tryRelease_def stopInstanceBestEffort_def inst_call_def
      inst_Stop_def returnSlot_def pool_Acquire_def takeSlot_def acquireUnlocked_def popFree_def
      template_factory_def alloc_inst_def registerNew_def markAcquired_def set_inst_def Instances_def Let_def
      sample_pool_def sample_core_def held_pool_def held_core_def quiet_os_def template_inst_def sample_inst_def)

end
