(* ===== verification/Manager.thy ===== *)
theory Manager
  imports Pool
begin

text \<open>
  \<^verbatim>\<open>internal/core/manager.go\<close>: the manager that owns the pool, its life cycle, and the releaser the
  instances call back. What other goroutines do between two sections of a handler is an argument of
  it; the interleavings themselves are the subject of the theory \<open>Protocol\<close>.
\<close>

subsection \<open>State\<close>

datatype managerState = managerCreated | managerInitializing | managerReady | managerShuttingDown

text \<open>The values of the constants, by which the states are ordered.\<close>

fun state_code :: "managerState \<Rightarrow> nat" where
  "state_code managerCreated = 0"
| "state_code managerInitializing = 1"
| "state_code managerReady = 2"
| "state_code managerShuttingDown = 3"

instantiation managerState :: linorder
begin

definition less_eq_managerState :: "managerState \<Rightarrow> managerState \<Rightarrow> bool" where
  "a \<le> b \<longleftrightarrow> state_code a \<le> state_code b"

definition less_managerState :: "managerState \<Rightarrow> managerState \<Rightarrow> bool" where
  "a < b \<longleftrightarrow> state_code a < state_code b"

instance
proof
  fix x y :: managerState
  assume "x \<le> y" and "y \<le> x"
  then show "x = y" by (cases x; cases y) (simp_all add: less_eq_managerState_def)
qed (auto simp: less_eq_managerState_def less_managerState_def)

end

record 'w mgr = "'w core" +
  mg_cfg :: manager_config
  mg_cachedDBPath :: string
  mg_pool :: "pool option"
  mg_state :: managerState
  mg_inflight :: int
  mg_inflightDone :: bool

text \<open>The zero value of \<^verbatim>\<open>Instance\<close>, which fills the heap where nothing is allocated.\<close>

definition zero_inst :: inst where
  "zero_inst = \<lparr>in_cfg = \<lparr>ic_StartTimeout = 0, ic_StopTimeout = 0, ic_CleanupTimeout = 0,
       ic_MaxStartRetries = 0, ic_CachedDBPath = [], ic_KineBinary = [], ic_KubeAPIServerBinary = []\<rparr>,
     in_id = [], in_dataDir = [], in_sqlitePath = [], in_kubeconfig = [], in_hasReleaser = False,
     in_hasPorts = False, in_gen = 0, in_started = False, in_lastErr = None, in_clients = None,
     in_cancel = None, in_stack = None, in_purge = None\<rparr>"

definition NewManagerWithConfig :: "manager_config \<Rightarrow> 'w \<Rightarrow> 'w mgr outcome" where
  "NewManagerWithConfig cfg w =
     (if mc_Validate cfg \<noteq> None then Panic ''k8senv: invalid manager config''
      else Ret \<lparr>co_heap = (\<lambda>_. zero_inst), co_next = 0, co_reg = NewPortRegistry, co_world = w,
        mg_cfg = cfg, mg_cachedDBPath = mc_PrepopulateDBPath cfg, mg_pool = None,
        mg_state = managerCreated, mg_inflight = 0, mg_inflightDone = False\<rparr>)"

definition IsShuttingDown :: "'w mgr \<Rightarrow> bool" where
  "IsShuttingDown m \<longleftrightarrow> mg_state m = managerShuttingDown"

subsection \<open>The factory\<close>

fun hex_digits :: "nat \<Rightarrow> nat \<Rightarrow> string" where
  "hex_digits 0 n = []"
| "hex_digits (Suc k) n = hex_digits k (n div 16) @ [''0123456789abcdef'' ! (n mod 16)]"

definition genID :: "'w os \<Rightarrow> 'w \<Rightarrow> string \<times> 'w" where
  "genID sys w = (case os_rand_uint32 sys w of (n, w1) \<Rightarrow> (hex_digits 8 (n mod 2 ^ 32), w1))"

definition instanceFactory :: "'w os \<Rightarrow> string \<Rightarrow> instance_config \<Rightarrow> ('w, 'z) factory" where
  "instanceFactory sys baseDataDir cfg index s =
     (case genID sys (co_world s) of
        (i, w1) \<Rightarrow>
          (let instID = ''inst-'' @ show_int index @ ''-'' @ i;
               s1 = s\<lparr>co_world := w1\<rparr>
           in case NewInstance \<lparr>np_ID = instID, np_DataDir = filepath_Join [baseDataDir, instID],
                     np_hasReleaser = True, np_hasPorts = True, np_Config = cfg\<rparr> of
                Panic msg \<Rightarrow> (Panic msg, s1)
              | Ret inst \<Rightarrow> (case alloc_inst inst s1 of (a, s2) \<Rightarrow> (Ret (Inr a), s2))))"

definition manager_inst_config :: "'w mgr \<Rightarrow> instance_config" where
  "manager_inst_config m = \<lparr>ic_StartTimeout = mc_InstanceStartTimeout (mg_cfg m),
     ic_StopTimeout = mc_InstanceStopTimeout (mg_cfg m), ic_CleanupTimeout = mc_CleanupTimeout (mg_cfg m),
     ic_MaxStartRetries = defaultMaxStartRetries, ic_CachedDBPath = mg_cachedDBPath m,
     ic_KineBinary = mc_KineBinary (mg_cfg m), ic_KubeAPIServerBinary = mc_KubeAPIServerBinary (mg_cfg m)\<rparr>"

text \<open>The factory closes over the configuration of the moment \<^verbatim>\<open>doInitialize\<close> ran; no later code
  changes what it read.\<close>

definition manager_factory :: "'w os \<Rightarrow> 'w mgr \<Rightarrow> ('w, 'z) factory" where
  "manager_factory sys m = instanceFactory sys (mc_BaseDataDir (mg_cfg m)) (manager_inst_config m)"

subsection \<open>Stopping all instances\<close>

text \<open>
  The goroutines run in an order the runtime chooses: \<open>sched\<close> arranges the instances. Each stops
  its own instance; the errors are kept by position.
\<close>

fun stopEach ::
  "'w os \<Rightarrow> duration \<Rightarrow> nat list \<Rightarrow> ('w, 'z) core_scheme \<Rightarrow>
   (nat \<times> go_error option) list \<times> ('w, 'z) core_scheme" where
  "stopEach sys timeout [] s = ([], s)"
| "stopEach sys timeout (a # as) s =
     (case os_ctx_with_timeout sys Background timeout (co_world s) of
        (c, w1) \<Rightarrow>
          (case inst_call a (\<lambda>i r w. inst_Stop sys i c r w) (s\<lparr>co_world := w1\<rparr>) of
             (e, s1) \<Rightarrow>
               (case stopEach sys timeout as (s1\<lparr>co_world := os_ctx_cancel sys c (co_world s1)\<rparr>) of
                  (es, s2) \<Rightarrow> ((a, e) # es, s2))))"

definition stopAllInstances ::
  "'w os \<Rightarrow> (nat list \<Rightarrow> nat list) \<Rightarrow> nat list \<Rightarrow> duration \<Rightarrow> ('w, 'z) core_scheme \<Rightarrow>
   go_error option \<times> ('w, 'z) core_scheme" where
  "stopAllInstances sys sched instances timeout s =
     (case stopEach sys timeout (sched instances) s of
        (es, s1) \<Rightarrow>
          (errors_Join (map (\<lambda>a. case map_of es a of Some e \<Rightarrow> e | None \<Rightarrow> None) instances), s1))"

subsection \<open>Initialize\<close>

text \<open>The CRD cache is an argument: from the configuration and the registry to the path of the
  cached database.\<close>

type_synonym 'w ensure_cache =
  "ctx \<Rightarrow> manager_config \<Rightarrow> port_registry \<Rightarrow> 'w \<Rightarrow> (go_error + string) \<times> port_registry \<times> 'w"

definition doInitialize ::
  "'w os \<Rightarrow> 'w ensure_cache \<Rightarrow> ctx \<Rightarrow> 'w mgr \<Rightarrow> go_error option outcome \<times> 'w mgr" where
  "doInitialize sys ensureCache c m =
     (case EnsureDir sys (mc_BaseDataDir (mg_cfg m)) (co_world m) of
        (Some e, w1) \<Rightarrow> (Ret (Some (Wrapf ''init base dir: %w'' [] e)), m\<lparr>co_world := w1\<rparr>)
      | (None, w1) \<Rightarrow>
          (case (if mc_CRDDir (mg_cfg m) \<noteq> ''''
                 then (case ensureCache c (mg_cfg m) (co_reg m) w1 of
                         (Inl e, r, w2) \<Rightarrow>
                           (Some (Wrapf ''ensure CRD cache: %w'' [] e), m\<lparr>co_reg := r, co_world := w2\<rparr>)
                       | (Inr path, r, w2) \<Rightarrow>
                           (None, m\<lparr>co_reg := r, co_world := w2, mg_cachedDBPath := path\<rparr>))
                 else (None, m\<lparr>co_world := w1\<rparr>)) of
             (Some e, m1) \<Rightarrow> (Ret (Some e), m1)
           | (None, m1) \<Rightarrow>
               (case NewPool True (mc_PoolSize (mg_cfg m1)) of
                  Panic msg \<Rightarrow> (Panic msg, m1)
                | Ret p \<Rightarrow> (Ret None, m1\<lparr>mg_pool := Some p\<rparr>))))"

text \<open>The rest of \<^verbatim>\<open>Initialize\<close> after \<^verbatim>\<open>doInitialize\<close>.\<close>

definition finishInitialize ::
  "'w os \<Rightarrow> (nat list \<Rightarrow> nat list) \<Rightarrow> go_error option outcome \<times> 'w mgr \<Rightarrow> go_error option outcome \<times> 'w mgr" where
  "finishInitialize sys sched res =
     (case res of
        (Panic msg, m2) \<Rightarrow> (Panic msg, m2)
      | (Ret (Some e), m2) \<Rightarrow>
          (let m3 = (case mg_pool m2 of
                       None \<Rightarrow> m2
                     | Some p \<Rightarrow>
                         snd (stopAllInstances sys sched (Instances p)
                                (mc_InstanceStopTimeout (mg_cfg m2)) m2))
           in (Ret (Some (Wrapf ''initialize: %w'' [] e)),
               m3\<lparr>mg_pool := None, mg_cachedDBPath := mc_PrepopulateDBPath (mg_cfg m3),
                  mg_state := managerCreated\<rparr>))
      | (Ret None, m2) \<Rightarrow> (Ret None, m2\<lparr>mg_state := managerReady\<rparr>))"

definition Initialize ::
  "'w os \<Rightarrow> 'w ensure_cache \<Rightarrow> (nat list \<Rightarrow> nat list) \<Rightarrow> ctx \<Rightarrow> 'w mgr \<Rightarrow>
   go_error option outcome \<times> 'w mgr" where
  "Initialize sys ensureCache sched c m =
     (case mg_state m of
        managerReady \<Rightarrow> (Ret None, m)
      | managerShuttingDown \<Rightarrow> (Ret (Some ErrShuttingDown), m)
      | _ \<Rightarrow>
          (let m1 = m\<lparr>mg_state := managerInitializing\<rparr>
           in case mc_Validate (mg_cfg m1) of
                Some e \<Rightarrow>
                  (Ret (Some (Wrapf ''invalid config: %w'' [] e)), m1\<lparr>mg_state := managerCreated\<rparr>)
              | None \<Rightarrow> finishInitialize sys sched (doInitialize sys ensureCache c m1)))"


subsection \<open>The releaser\<close>

definition stopInstanceDuringShutdown ::
  "'w os \<Rightarrow> ctx \<Rightarrow> nat \<Rightarrow> 64 word \<Rightarrow> 'w mgr \<Rightarrow> unit outcome \<times> 'w mgr" where
  "stopInstanceDuringShutdown sys c a token m =
     (case mustRelease (co_heap m a) token of
        (Panic msg, i) \<Rightarrow> (Panic msg, m)
      | (Ret _, i) \<Rightarrow> (Ret (), snd (inst_call a (\<lambda>j r w. inst_Stop sys j c r w) (set_inst a i m))))"

text \<open>The deferred decrement, which runs after a panic too: first the counter, then the look at the
  state.\<close>

definition noteDrained :: "bool \<Rightarrow> 'w mgr \<Rightarrow> 'w mgr" where
  "noteDrained zero m = (if zero \<and> mg_state m = managerShuttingDown then m\<lparr>mg_inflightDone := True\<rparr> else m)"

definition decInflight :: "'w mgr \<Rightarrow> bool \<times> 'w mgr" where
  "decInflight m = (mg_inflight m - 1 = 0, m\<lparr>mg_inflight := mg_inflight m - 1\<rparr>)"

definition leaveInflight :: "'w mgr \<Rightarrow> 'w mgr" where
  "leaveInflight m = (case decInflight m of (zero, m1) \<Rightarrow> noteDrained zero m1)"

definition tryReleaseToPool ::
  "'w os \<Rightarrow> nat \<Rightarrow> 64 word \<Rightarrow> 'w mgr \<Rightarrow> bool outcome \<times> 'w mgr" where
  "tryReleaseToPool sys a token m =
     (let m1 = m\<lparr>mg_inflight := mg_inflight m + 1\<rparr>
      in if mg_state m1 = managerShuttingDown then (Ret False, leaveInflight m1)
         else (case mg_pool m1 of
                 None \<Rightarrow> (Ret False, leaveInflight m1)
               | Some p \<Rightarrow>
                   (case pool_Release sys a token p m1 of
                      (o1, p1, m2) \<Rightarrow>
                        (out_map (\<lambda>_. True) o1, leaveInflight (m2\<lparr>mg_pool := Some p1\<rparr>)))))"

definition ReleaseToPool :: "'w os \<Rightarrow> nat \<Rightarrow> 64 word \<Rightarrow> 'w mgr \<Rightarrow> bool outcome \<times> 'w mgr" where
  "ReleaseToPool sys a token m =
     (case tryReleaseToPool sys a token m of
        (Panic msg, m1) \<Rightarrow> (Panic msg, m1)
      | (Ret True, m1) \<Rightarrow> (Ret True, m1)
      | (Ret False, m1) \<Rightarrow>
          (case os_ctx_with_timeout sys Background (mc_InstanceStopTimeout (mg_cfg m1)) (co_world m1) of
             (c, w1) \<Rightarrow>
               (case stopInstanceDuringShutdown sys c a token (m1\<lparr>co_world := w1\<rparr>) of
                  (o1, m2) \<Rightarrow>
                    (out_map (\<lambda>_. False) o1, m2\<lparr>co_world := os_ctx_cancel sys c (co_world m2)\<rparr>))))"

definition ReleaseFailed :: "'w os \<Rightarrow> nat \<Rightarrow> 64 word \<Rightarrow> 'w mgr \<Rightarrow> unit outcome \<times> 'w mgr" where
  "ReleaseFailed sys a token m =
     (case mg_pool m of
        None \<Rightarrow> (Ret (), m)
      | Some p \<Rightarrow>
          (case pool_ReleaseFailed sys a token p m of
             (o1, p1, m1) \<Rightarrow> (o1, m1\<lparr>mg_pool := Some p1\<rparr>)))"

definition manager_Release ::
  "'w os \<Rightarrow> nat \<Rightarrow> 64 word \<Rightarrow> 'w mgr \<Rightarrow> go_error option outcome \<times> 'w mgr" where
  "manager_Release sys = inst_Release sys (ReleaseToPool sys) (ReleaseFailed sys)"

subsection \<open>Acquire\<close>

text \<open>
  \<open>interf\<close> is what other goroutines do between the answer of the pool and the second look at the
  state. The result is the option of the pool: \<open>None\<close> when the chosen branch of its \<^verbatim>\<open>select\<close> is not
  ready. The pool of a manager that was ready is never replaced, so the pool the handler holds and
  the manager's are the same.
\<close>

text \<open>The lazy start, after the second look at the state.\<close>

definition startHeld ::
  "'w os \<Rightarrow> (kine_process, api_process, 'w) errgroup \<Rightarrow> ctx \<Rightarrow> nat \<Rightarrow> 64 word \<Rightarrow> 'w mgr \<Rightarrow>
   (go_error + nat \<times> 64 word) outcome \<times> 'w mgr" where
  "startHeld sys grp acquireCtx a token m =
     (if \<not> IsStarted (co_heap m a)
      then (case inst_call a (\<lambda>i r w. inst_Start sys grp i acquireCtx r w) m of
              (None, m1) \<Rightarrow> (Ret (Inr (a, token)), m1)
            | (Some e, m1) \<Rightarrow>
                (case ReleaseFailed sys a token (set_inst a (setErr (co_heap m1 a) e) m1) of
                   (o1, m2) \<Rightarrow> (out_map (\<lambda>_. Inl (Wrapf ''start instance: %w'' [] e)) o1, m2)))
      else (Ret (Inr (a, token)), m))"

definition acquireStarted ::
  "'w os \<Rightarrow> (kine_process, api_process, 'w) errgroup \<Rightarrow> ctx \<Rightarrow> nat \<Rightarrow> 64 word \<Rightarrow> 'w mgr \<Rightarrow>
   (go_error + nat \<times> 64 word) outcome \<times> 'w mgr" where
  "acquireStarted sys grp acquireCtx a token m =
     (if mg_state m = managerShuttingDown
      then (case os_ctx_with_timeout sys Background (mc_InstanceStopTimeout (mg_cfg m)) (co_world m) of
              (stopCtx, w1) \<Rightarrow>
                (case stopInstanceDuringShutdown sys stopCtx a token (m\<lparr>co_world := w1\<rparr>) of
                   (o1, m1) \<Rightarrow>
                     (out_map (\<lambda>_. Inl ErrShuttingDown) o1,
                      m1\<lparr>co_world := os_ctx_cancel sys stopCtx (co_world m1)\<rparr>)))
      else startHeld sys grp acquireCtx a token m)"

definition manager_Acquire ::
  "'w os \<Rightarrow> (kine_process, api_process, 'w) errgroup \<Rightarrow> (pool \<Rightarrow> pool) \<Rightarrow> ('w mgr \<Rightarrow> 'w mgr) \<Rightarrow> ctx \<Rightarrow>
   sem_event \<Rightarrow> 'w mgr \<Rightarrow> ((go_error + nat \<times> 64 word) outcome \<times> 'w mgr) option" where
  "manager_Acquire sys grp mid interf c ev m =
     (case mg_state m of
        managerShuttingDown \<Rightarrow> Some (Ret (Inl ErrShuttingDown), m)
      | managerReady \<Rightarrow>
          (case mg_pool m of
             None \<Rightarrow> Some (Ret (Inl ErrNotInitialized), m)
           | Some p \<Rightarrow>
               (case os_ctx_with_timeout sys c (mc_AcquireTimeout (mg_cfg m)) (co_world m) of
                  (acquireCtx, w1) \<Rightarrow>
                    (case pool_Acquire sys (manager_factory sys m) mid acquireCtx ev p (m\<lparr>co_world := w1\<rparr>) of
                       None \<Rightarrow> None
                     | Some (Panic msg, p1, m1) \<Rightarrow>
                         Some (Panic msg, m1\<lparr>mg_pool := Some p1,
                           co_world := os_ctx_cancel sys acquireCtx (co_world m1)\<rparr>)
                     | Some (Ret (Inl e), p1, m1) \<Rightarrow>
                         Some (Ret (Inl (Wrapf ''acquire instance from pool: %w'' [] e)),
                           m1\<lparr>mg_pool := Some p1, co_world := os_ctx_cancel sys acquireCtx (co_world m1)\<rparr>)
                     | Some (Ret (Inr (a, token)), p1, m1) \<Rightarrow>
                         (case acquireStarted sys grp acquireCtx a token (interf (m1\<lparr>mg_pool := Some p1\<rparr>)) of
                            (o1, m2) \<Rightarrow>
                              Some (o1, m2\<lparr>co_world := os_ctx_cancel sys acquireCtx (co_world m2)\<rparr>)))))
      | _ \<Rightarrow> Some (Ret (Inl ErrNotInitialized), m))"

subsection \<open>Shutdown\<close>

text \<open>
  \<open>drained\<close> is the branch of the \<^verbatim>\<open>select\<close>: the channel \<^verbatim>\<open>inflightDone\<close>, which must be closed, or the
  timer. \<open>interf\<close> is what other goroutines do while it waits.
\<close>

definition beginShutdown :: "'w mgr \<Rightarrow> 'w mgr" where
  "beginShutdown m =
     (let m1 = m\<lparr>mg_state := managerShuttingDown\<rparr>
      in if mg_inflight m1 = 0 then m1\<lparr>mg_inflightDone := True\<rparr> else m1)"

definition finishShutdown ::
  "'w os \<Rightarrow> (nat list \<Rightarrow> nat list) \<Rightarrow> 'w mgr \<Rightarrow> go_error option \<times> 'w mgr" where
  "finishShutdown sys sched m =
     (case mg_pool m of
        None \<Rightarrow> (None, m)
      | Some p \<Rightarrow>
          (let p1 = pool_Close p
           in stopAllInstances sys sched (Instances p1) (mc_InstanceStopTimeout (mg_cfg m))
                (m\<lparr>mg_pool := Some p1\<rparr>)))"

definition Shutdown ::
  "'w os \<Rightarrow> (nat list \<Rightarrow> nat list) \<Rightarrow> ('w mgr \<Rightarrow> 'w mgr) \<Rightarrow> bool \<Rightarrow> 'w mgr \<Rightarrow>
   (go_error option \<times> 'w mgr) option" where
  "Shutdown sys sched interf drained m =
     (let m1 = interf (beginShutdown m)
      in if drained \<and> \<not> mg_inflightDone m1 then None else Some (finishShutdown sys sched m1))"


subsection \<open>Accounts\<close>

text \<open>Every reserved port belongs to exactly one instance of a set, which is that of the registered ones.\<close>

definition accounts_on :: "nat set \<Rightarrow> ('w, 'z) core_scheme \<Rightarrow> bool" where
  "accounts_on A s \<longleftrightarrow> ports (co_reg s) = (\<Union>a \<in> A. owned (co_heap s a)) \<and>
     (\<forall>a \<in> A. \<forall>b \<in> A. a \<noteq> b \<longrightarrow> owned (co_heap s a) \<inter> owned (co_heap s b) = {})"

abbreviation accounts :: "pool \<Rightarrow> ('w, 'z) core_scheme \<Rightarrow> bool" where
  "accounts p \<equiv> accounts_on (set (po_all p))"

text \<open>A step that changes one instance, and either leaves its ports alone or gives all of them back.\<close>

definition touch :: "nat \<Rightarrow> ('w, 'z) core_scheme \<Rightarrow> ('w, 'z) core_scheme \<Rightarrow> bool" where
  "touch a s s' \<longleftrightarrow> co_heap s' = (co_heap s)(a := co_heap s' a) \<and> co_next s' = co_next s \<and>
     core.more s' = core.more s \<and> inst_inv (co_heap s' a) \<and> in_hasReleaser (co_heap s' a) = in_hasReleaser (co_heap s a) \<and>
     (owned (co_heap s' a) = owned (co_heap s a) \<and> ports (co_reg s') = ports (co_reg s) \<or>
      owned (co_heap s' a) = {} \<and> ports (co_reg s') = ports (co_reg s) - owned (co_heap s a))"

lemma touch_trans: "touch a s s1 \<Longrightarrow> touch a s1 s2 \<Longrightarrow> touch a s s2"
  unfolding touch_def by (metis Diff_empty fun_upd_upd)

lemma touch_world: "touch a s s' \<Longrightarrow> touch a s (s'\<lparr>co_world := w\<rparr>)" "touch a (s\<lparr>co_world := w\<rparr>) s' \<Longrightarrow> touch a s s'"
  by (simp_all add: touch_def)

lemma touch_set_inst:
  "inst_inv i \<Longrightarrow> owned i = owned (co_heap s a) \<Longrightarrow> in_hasReleaser i = in_hasReleaser (co_heap s a) \<Longrightarrow>
     touch a s (set_inst a i s)"
  by (simp add: touch_def set_inst_def)

lemma touch_stop:
  assumes "inst_inv (co_heap s a)"
  shows "touch a s (snd (inst_call a (\<lambda>i r w. inst_Stop sys i c r w) s))"
proof -
  obtain e i r w where st: "inst_Stop sys (co_heap s a) c (co_reg s) (co_world s) = (e, i, r, w)"
    by (metis prod_cases4)
  from inst_Stop_post [OF assms st] st assms show ?thesis
    by (auto simp: touch_def inst_call_def set_inst_def owned_def inst_inv_def split: if_splits)
qed

lemma touch_stopBestEffort:
  "inst_inv (co_heap s a) \<Longrightarrow> touch a s (stopInstanceBestEffort sys a s)"
  unfolding stopInstanceBestEffort_def Let_def
  by (auto split: prod.splits intro!: touch_world(1) touch_world(2) [OF touch_stop])

lemma accounts_touch:
  assumes "accounts_on A s" and "touch a s s'" and "a \<in> A"
  shows "accounts_on A s'"
proof -
  have other: "co_heap s' b = co_heap s b" if "b \<noteq> a" for b
    using assms(2) that unfolding touch_def by (metis fun_upd_other)
  have dis: "owned (co_heap s a) \<inter> owned (co_heap s b) = {}" if "b \<in> A" "b \<noteq> a" for b
    using assms(1,3) that by (auto simp: accounts_on_def)
  let ?rest = "\<Union>b \<in> A - {a}. owned (co_heap s b)"
  have split: "(\<Union>b \<in> A. owned (h b)) = owned (h a) \<union> ?rest"
    if "\<And>b. b \<noteq> a \<Longrightarrow> h b = co_heap s b" for h
    using assms(3) that by fastforce
  have "owned (co_heap s a) \<inter> ?rest = {}" using dis by blast
  moreover have "ports (co_reg s) = owned (co_heap s a) \<union> ?rest"
    using assms(1) split [of "co_heap s"] by (simp add: accounts_on_def)
  ultimately have "ports (co_reg s') = (\<Union>b \<in> A. owned (co_heap s' b))"
    using assms(2) split [of "co_heap s'", OF other] unfolding touch_def by (elim conjE disjE) auto
  moreover have "owned (co_heap s' b) \<inter> owned (co_heap s' d) = {}"
    if "b \<in> A" "d \<in> A" "b \<noteq> d" for b d
  proof -
    have sub: "owned (co_heap s' x) \<subseteq> owned (co_heap s x)" for x
      using assms(2) other unfolding touch_def by (cases "x = a") auto
    have "owned (co_heap s b) \<inter> owned (co_heap s d) = {}" using assms(1) that unfolding accounts_on_def by blast
    with sub [of b] sub [of d] show ?thesis by blast
  qed
  ultimately show ?thesis unfolding accounts_on_def by blast
qed


text \<open>Giving back a held instance, on either path of the pool, touches that instance only.\<close>

definition gave_back :: "nat \<Rightarrow> 64 word \<Rightarrow> pool \<Rightarrow> ('w, 'z) core_scheme \<Rightarrow> pool \<Rightarrow> ('w, 'z) core_scheme \<Rightarrow> bool" where
  "gave_back a t p s p' s' \<longleftrightarrow> pool_inv p' s' \<and> po_all p' = po_all p \<and> po_maxSize p' = po_maxSize p \<and> touch a s s' \<and>
     in_gen (co_heap s' a) = t + 1 \<and> \<not> IsBusy (co_heap s' a)"

lemma touch_consumed:
  assumes "inst_inv (co_heap s a)" and "IsBusy (co_heap s a)" and "isCurrentToken (co_heap s a) t"
  shows "touch a s (set_inst a ((co_heap s a)\<lparr>in_gen := t + 1\<rparr>) s)"
    and "touch a s (stopInstanceBestEffort sys a (set_inst a ((co_heap s a)\<lparr>in_gen := t + 1\<rparr>) s))"
proof -
  let ?s = "set_inst a ((co_heap s a)\<lparr>in_gen := t + 1\<rparr>) s"
  have i: "inst_inv ((co_heap s a)\<lparr>in_gen := t + 1\<rparr>)" by (rule mustRelease_heap(2) [OF assms])
  then show one: "touch a s ?s" by (rule touch_set_inst) (simp_all add: owned_def)
  show "touch a s (stopInstanceBestEffort sys a ?s)"
    by (rule touch_trans [OF one touch_stopBestEffort]) (simp add: set_inst_def i)
qed

lemma pool_Release_back:
  assumes "pool_inv p s" and "a \<in> set (po_all p)" and "IsBusy (co_heap s a)" and "isCurrentToken (co_heap s a) t"
  shows "\<exists>p' s'. pool_Release sys a t p s = (Ret (), p', s') \<and> gave_back a t p s p' s'"
proof -
  have i: "inst_inv (co_heap s a)" using assms(1,2) by (auto simp: pool_inv_def)
  note tc = touch_consumed [OF i assms(3,4)]
  show ?thesis
  proof (cases "po_closed p")
    case True
    from pool_Release_closed [OF assms True, of sys] tc(2) show ?thesis by (auto simp: gave_back_def)
  next
    case False
    from pool_Release_open [OF assms False, of sys] tc(1) mustRelease_heap(3) [OF i assms(3,4)] show ?thesis
      by (fastforce simp: gave_back_def set_inst_def)
  qed
qed

lemma pool_ReleaseFailed_back:
  assumes "pool_inv p s" and "a \<in> set (po_all p)" and "IsBusy (co_heap s a)" and "isCurrentToken (co_heap s a) t"
  shows "\<exists>p' s'. pool_ReleaseFailed sys a t p s = (Ret (), p', s') \<and> gave_back a t p s p' s'"
proof -
  have i: "inst_inv (co_heap s a)" using assms(1,2) by (auto simp: pool_inv_def)
  from pool_ReleaseFailed_ok [OF assms, of sys] touch_consumed(2) [OF i assms(3,4)] show ?thesis
    by (auto simp: gave_back_def)
qed

subsection \<open>The invariant of the manager\<close>

text \<open>Without a pool nothing is reserved and the manager is not ready; with one, the pool's
  invariant holds, the ports are accounted for and every instance can be released.\<close>

definition mgr_inv :: "'w mgr \<Rightarrow> bool" where
  "mgr_inv m \<longleftrightarrow> mc_Validate (mg_cfg m) = None \<and>
     (case mg_pool m of
        None \<Rightarrow> mg_state m \<noteq> managerReady \<and> ports (co_reg m) = {}
      | Some p \<Rightarrow> mg_state m \<in> {managerReady, managerShuttingDown} \<and> pool_inv p m \<and> accounts p m \<and>
          int (po_maxSize p) = mc_PoolSize (mg_cfg m) \<and>
          (\<forall>a \<in> set (po_all p). in_hasReleaser (co_heap m a)))"

text \<open>What the manager owes its clients, abstractly: a map from the instances that are held to the
  tokens that hold them.\<close>

definition leases :: "'w mgr \<Rightarrow> nat \<rightharpoonup> 64 word" where
  "leases m a = (case mg_pool m of
       None \<Rightarrow> None
     | Some p \<Rightarrow> if a \<in> set (po_all p) \<and> IsBusy (co_heap m a) then Some (in_gen (co_heap m a)) else None)"

lemma leases_Some_iff:
  "leases m a = Some t \<longleftrightarrow>
     (\<exists>p. mg_pool m = Some p \<and> a \<in> set (po_all p) \<and> IsBusy (co_heap m a) \<and> isCurrentToken (co_heap m a) t)"
  by (auto simp: leases_def isCurrentToken_def split: option.splits)

definition registered :: "'w mgr \<Rightarrow> nat set" where
  "registered m = (case mg_pool m of None \<Rightarrow> {} | Some p \<Rightarrow> set (po_all p))"

lemma registered_irrelevant [simp]:
  "registered (m\<lparr>co_world := w\<rparr>) = registered m" "registered (m\<lparr>mg_inflight := n\<rparr>) = registered m"
  "registered (m\<lparr>mg_inflightDone := b\<rparr>) = registered m" "registered (m\<lparr>mg_state := s\<rparr>) = registered m"
  "registered (set_inst a i m) = registered m"
  by (simp_all add: registered_def set_inst_def)

lemma set_inst_frame [simp]: "mg_cfg (set_inst a i m) = mg_cfg m" "mg_state (set_inst a i m) = mg_state m"
  by (simp_all add: set_inst_def)

lemma mgr_inv_irrelevant [simp]:
  "mgr_inv (m\<lparr>co_world := w\<rparr>) = mgr_inv m" "mgr_inv (m\<lparr>mg_inflight := n\<rparr>) = mgr_inv m"
  "mgr_inv (m\<lparr>mg_inflightDone := b\<rparr>) = mgr_inv m"
  by (simp_all add: mgr_inv_def pool_inv_def accounts_on_def split: option.splits)

lemma leases_irrelevant [simp]:
  "leases (m\<lparr>co_world := w\<rparr>) = leases m" "leases (m\<lparr>mg_inflight := n\<rparr>) = leases m"
  "leases (m\<lparr>mg_inflightDone := b\<rparr>) = leases m"
  by (simp_all add: leases_def fun_eq_iff split: option.splits)

text \<open>A step that touches one registered instance.\<close>

lemma mgr_touch:
  assumes "mgr_inv m" and "mg_pool m = Some p" and "a \<in> set (po_all p)"
    and "touch a m m1" and "pool_inv p' m1" and "po_all p' = po_all p" and "po_maxSize p' = po_maxSize p"
  shows "mgr_inv (m1\<lparr>mg_pool := Some p'\<rparr>)"
    and "leases (m1\<lparr>mg_pool := Some p'\<rparr>) =
      (leases m)(a := if IsBusy (co_heap m1 a) then Some (in_gen (co_heap m1 a)) else None)"
proof -
  have h: "co_heap m1 = (co_heap m)(a := co_heap m1 a)" and more: "core.more m1 = core.more m"
    and rel: "in_hasReleaser (co_heap m1 a) = in_hasReleaser (co_heap m a)"
    using assms(4) by (auto simp: touch_def)
  from more have f: "mg_cfg m1 = mg_cfg m" "mg_state m1 = mg_state m" by (cases m; cases m1; simp)+
  have other: "co_heap m1 b = co_heap m b" if "b \<noteq> a" for b using h that by (metis fun_upd_other)
  have "accounts p m1" using assms(1-4) by (auto simp: mgr_inv_def intro: accounts_touch)
  moreover have "in_hasReleaser (co_heap m1 b)" if "b \<in> set (po_all p)" for b
    using assms(1,2) that rel other [of b] by (cases "b = a") (auto simp: mgr_inv_def)
  ultimately show "mgr_inv (m1\<lparr>mg_pool := Some p'\<rparr>)"
    using assms f by (simp add: mgr_inv_def pool_inv_def accounts_on_def)
  show "leases (m1\<lparr>mg_pool := Some p'\<rparr>) =
      (leases m)(a := if IsBusy (co_heap m1 a) then Some (in_gen (co_heap m1 a)) else None)"
    using assms(2,3,6) other by (auto simp: leases_def fun_eq_iff)
qed


subsection \<open>Giving back\<close>

definition mgr_back :: "nat \<Rightarrow> 64 word \<Rightarrow> 'w mgr \<Rightarrow> 'w mgr \<Rightarrow> bool" where
  "mgr_back a t m m' \<longleftrightarrow> mgr_inv m' \<and> leases m' = (leases m)(a := None) \<and> in_gen (co_heap m' a) = t + 1 \<and>
     registered m' = registered m \<and> mg_cfg m' = mg_cfg m \<and> mg_state m' = mg_state m"

lemma leaveInflight_frame [simp]:
  "mgr_inv (leaveInflight m) = mgr_inv m" "leases (leaveInflight m) = leases m"
  "co_heap (leaveInflight m) = co_heap m" "mg_cfg (leaveInflight m) = mg_cfg m"
  "mg_state (leaveInflight m) = mg_state m" "co_world (leaveInflight m) = co_world m"
  "registered (leaveInflight m) = registered m"
  by (simp_all add: leaveInflight_def decInflight_def noteDrained_def)

lemma mgr_back_frame [simp]:
  "mgr_back a t (m\<lparr>co_world := w\<rparr>) m' = mgr_back a t m m'" "mgr_back a t m (m'\<lparr>co_world := w\<rparr>) = mgr_back a t m m'"
  "mgr_back a t (m\<lparr>mg_inflight := n\<rparr>) m' = mgr_back a t m m'" "mgr_back a t m (leaveInflight m') = mgr_back a t m m'"
  "mgr_back a t (leaveInflight m) m' = mgr_back a t m m'"
  by (simp_all add: mgr_back_def)

lemma gave_back_mgr:
  assumes "mgr_inv m" and "mg_pool m = Some p" and "a \<in> set (po_all p)" and "gave_back a t p m p' m1"
  shows "mgr_back a t m (m1\<lparr>mg_pool := Some p'\<rparr>)"
proof -
  have gb: "touch a m m1" "pool_inv p' m1" "po_all p' = po_all p" "po_maxSize p' = po_maxSize p" "in_gen (co_heap m1 a) = t + 1"
    "\<not> IsBusy (co_heap m1 a)" using assms(4) by (auto simp: gave_back_def)
  from gb(1) have "core.more m1 = core.more m" by (simp add: touch_def)
  then have "mg_cfg m1 = mg_cfg m" "mg_state m1 = mg_state m" by (cases m; cases m1; simp)+
  with mgr_touch [OF assms(1-3) gb(1-4)] gb assms(2) show ?thesis by (simp add: mgr_back_def registered_def)
qed

lemma leaseE:
  assumes "mgr_inv m" and "leases m a = Some t"
  obtains p where "mg_pool m = Some p" "pool_inv p m" "a \<in> set (po_all p)" "IsBusy (co_heap m a)"
    "isCurrentToken (co_heap m a) t" "in_hasReleaser (co_heap m a)" "inst_inv (co_heap m a)"
  using assms by (auto simp: leases_Some_iff mgr_inv_def pool_inv_def)

lemma tryReleaseToPool_back:
  assumes "mgr_inv m" and "leases m a = Some t"
  shows "\<exists>b m'. tryReleaseToPool sys a t m = (Ret b, m') \<and> (b \<longleftrightarrow> mg_state m \<noteq> managerShuttingDown) \<and>
    (if b then mgr_back a t m m' else m' = leaveInflight (m\<lparr>mg_inflight := mg_inflight m + 1\<rparr>))"
proof (cases "mg_state m = managerShuttingDown")
  case True
  then show ?thesis by (intro exI [of _ False]) (simp add: tryReleaseToPool_def Let_def)
next
  case False
  let ?m = "m\<lparr>mg_inflight := mg_inflight m + 1\<rparr>"
  from assms have m: "mgr_inv ?m" "leases ?m a = Some t" by simp_all
  from m(1,2) obtain p where p: "mg_pool ?m = Some p" "pool_inv p ?m" "a \<in> set (po_all p)" "IsBusy (co_heap ?m a)"
    "isCurrentToken (co_heap ?m a) t" by (rule leaseE)
  from pool_Release_back [OF p(2-5), of sys] obtain p' m1 where
    r: "pool_Release sys a t p ?m = (Ret (), p', m1)" "gave_back a t p ?m p' m1" by blast
  from gave_back_mgr [OF m(1) p(1,3) r(2)] r(1) p(1) False show ?thesis
    by (intro exI [of _ True]) (simp add: tryReleaseToPool_def Let_def)
qed

lemma stopInstanceDuringShutdown_back:
  assumes "mgr_inv m" and "leases m a = Some t"
  shows "\<exists>m'. stopInstanceDuringShutdown sys c a t m = (Ret (), m') \<and> mgr_back a t m m'"
proof -
  from assms obtain p where p: "mg_pool m = Some p" "pool_inv p m" "a \<in> set (po_all p)" "IsBusy (co_heap m a)"
    "isCurrentToken (co_heap m a) t" "inst_inv (co_heap m a)" by (rule leaseE)
  let ?i = "(co_heap m a)\<lparr>in_gen := t + 1\<rparr>"
  let ?m = "set_inst a ?i m"
  let ?m1 = "snd (inst_call a (\<lambda>j r w. inst_Stop sys j c r w) ?m)"
  note mr = mustRelease_heap [OF p(6,4,5)]
  have at: "co_heap ?m a = ?i" by (simp add: set_inst_def)
  have tch: "touch a m ?m1"
    using touch_trans [OF touch_consumed(1) [OF p(6,4,5)] touch_stop] mr(2) at by simp
  obtain e j r w where st: "inst_Stop sys ?i c (co_reg ?m) (co_world ?m) = (e, j, r, w)" by (metis prod_cases4)
  have j: "inst_inv j" "in_gen j = t + 1" using inst_Stop_inv [OF mr(2) st] by simp_all
  have h: "co_heap ?m1 = (co_heap m)(a := j)" "co_next ?m1 = co_next m"
    using st by (simp_all add: inst_call_def set_inst_def)
  have nb: "\<not> IsBusy j" using mr(3) j(2) by (simp add: IsBusy_def)
  from pool_inv_consumed [OF p(2-4) h j(1) nb] tch h(1) j nb have "gave_back a t p m p ?m1"
    by (simp add: gave_back_def)
  from gave_back_mgr [OF assms(1) p(1,3) this] have "mgr_back a t m (?m1\<lparr>mg_pool := Some p\<rparr>)" .
  moreover have "?m1\<lparr>mg_pool := Some p\<rparr> = ?m1" using p(1) st by (simp add: inst_call_def set_inst_def)
  ultimately show ?thesis using mr(1) by (simp add: stopInstanceDuringShutdown_def)
qed

lemma ReleaseToPool_back:
  assumes "mgr_inv m" and "leases m a = Some t"
  shows "\<exists>m'. ReleaseToPool sys a t m = (Ret (mg_state m \<noteq> managerShuttingDown), m') \<and> mgr_back a t m m'"
proof -
  from tryReleaseToPool_back [OF assms, of sys] obtain b m1 where
    t: "tryReleaseToPool sys a t m = (Ret b, m1)" "b \<longleftrightarrow> mg_state m \<noteq> managerShuttingDown"
    "if b then mgr_back a t m m1 else m1 = leaveInflight (m\<lparr>mg_inflight := mg_inflight m + 1\<rparr>)" by blast
  show ?thesis
  proof (cases b)
    case True
    with t show ?thesis by (simp add: ReleaseToPool_def)
  next
    case False
    obtain c w1 where c: "os_ctx_with_timeout sys Background (mc_InstanceStopTimeout (mg_cfg m1)) (co_world m1) = (c, w1)"
      by fastforce
    have "mgr_inv (m1\<lparr>co_world := w1\<rparr>)" "leases (m1\<lparr>co_world := w1\<rparr>) a = Some t" using False t(3) assms by simp_all
    from stopInstanceDuringShutdown_back [OF this, of sys c] t False c show ?thesis
      by (auto simp: ReleaseToPool_def)
  qed
qed

lemma ReleaseFailed_back:
  assumes "mgr_inv m" and "leases m a = Some t"
  shows "\<exists>m'. ReleaseFailed sys a t m = (Ret (), m') \<and> mgr_back a t m m'"
proof -
  from assms obtain p where p: "mg_pool m = Some p" "pool_inv p m" "a \<in> set (po_all p)" "IsBusy (co_heap m a)"
    "isCurrentToken (co_heap m a) t" by (rule leaseE)
  from pool_ReleaseFailed_back [OF p(2-5), of sys] gave_back_mgr [OF assms(1) p(1,3)] p(1) show ?thesis
    by (fastforce simp: ReleaseFailed_def)
qed


text \<open>The manager keeps the contract the instances rely on.\<close>

lemma mgr_setErr:
  assumes "mgr_inv m" and "leases m a = Some t"
  shows "mgr_inv (set_inst a (setErr (co_heap m a) e) m)"
    and "leases (set_inst a (setErr (co_heap m a) e) m) = leases m"
proof -
  from assms obtain p where p: "mg_pool m = Some p" "pool_inv p m" "a \<in> set (po_all p)" "IsBusy (co_heap m a)"
    "isCurrentToken (co_heap m a) t" "inst_inv (co_heap m a)" by (rule leaseE)
  let ?i = "setErr (co_heap m a) e"
  let ?m = "set_inst a ?i m"
  have i: "inst_inv ?i" "in_gen ?i = in_gen (co_heap m a)" "IsBusy ?i"
    using setErr_inv [OF p(6)] p(4) by (simp_all add: setErr_def IsBusy_def)
  have t: "touch a m ?m" using i(1) by (rule touch_set_inst) (simp_all add: setErr_def owned_def)
  have pi: "pool_inv p ?m"
    by (rule pool_inv_update [OF p(2) i(1), where a = a]) (simp_all add: set_inst_def i(3) p(4))
  have eq: "?m\<lparr>mg_pool := Some p\<rparr> = ?m" using p(1) by (simp add: set_inst_def)
  note mt = mgr_touch [OF assms(1) p(1,3) t pi refl refl, unfolded eq]
  from mt(1) show "mgr_inv ?m" .
  have "leases m a = Some (in_gen (co_heap m a))" using assms(2) p(5) by (simp add: isCurrentToken_def)
  with mt(2) i(2,3) show "leases ?m = leases m" by (auto simp: set_inst_def)
qed

interpretation mr: instance_releaser "ReleaseToPool sys" "ReleaseFailed sys"
    "\<lambda>a t m. mgr_inv m \<and> leases m a = Some t" mgr_back
  for sys :: "'w os"
proof
  fix a t and s :: "'w mgr" and e
  assume acc: "mgr_inv s \<and> leases s a = Some t"
  then show "in_hasReleaser (co_heap s a) \<and> isCurrentToken (co_heap s a) t" by (auto elim: leaseE)
  show "\<exists>b s'. ReleaseToPool sys a t s = (Ret b, s') \<and> mgr_back a t s s'"
    using ReleaseToPool_back [of s a t sys] acc by blast
  show "\<exists>s'. ReleaseFailed sys a t s = (Ret (), s') \<and> mgr_back a t s s'"
    using ReleaseFailed_back [of s a t sys] acc by blast
  show "mgr_inv (set_inst a (setErr (co_heap s a) e) s) \<and> leases (set_inst a (setErr (co_heap s a) e) s) a = Some t"
    using mgr_setErr [of s a t e] acc by simp
  show "mgr_back a t s s'" if "mgr_back a t (set_inst a (setErr (co_heap s a) e) s) s'" for s'
    using that mgr_setErr(2) [of s a t e] acc by (simp add: mgr_back_def)
qed simp_all


subsection \<open>The factory keeps its contract\<close>

interpretation mf: instance_factory "instanceFactory sys base cfg :: ('w, 'z) factory"
  for sys :: "'w os" and base cfg
proof
  fix idx a e m out and s s' :: "('w, 'z) core_scheme"
  note defs = instanceFactory_def alloc_inst_def set_inst_def Let_def
  show "a = co_next s \<and> co_next s' = Suc (co_next s) \<and> (\<exists>i. co_heap s' = (co_heap s)(a := i) \<and> inst_inv i \<and>
      \<not> IsBusy i \<and> \<not> in_started i \<and> in_hasReleaser i)"
    if "instanceFactory sys base cfg idx s = (Ret (Inr a), s')"
  proof -
    from that obtain params i w where "NewInstance params = Ret i" "np_hasReleaser params"
      "a = co_next s" "s' = (set_inst a i (s\<lparr>co_world := w\<rparr>))\<lparr>co_next := Suc a\<rparr>"
      by (auto simp: instanceFactory_def alloc_inst_def Let_def split: prod.splits outcome.splits)
    moreover from this have "in_hasReleaser i" by (auto simp: NewInstance_def split: if_splits)
    ultimately show ?thesis using NewInstance_inv [of params i] by (auto simp: set_inst_def IsStarted_def)
  qed
  show "co_heap s' = co_heap s \<and> co_next s' = co_next s" if "instanceFactory sys base cfg idx s = (Ret (Inl e), s')"
    using that by (auto simp: defs split: prod.splits outcome.splits)
  show "co_heap s' = co_heap s \<and> co_next s' = co_next s" if "instanceFactory sys base cfg idx s = (Panic m, s')"
    using that by (auto simp: defs split: prod.splits outcome.splits)
  show "co_reg s' = co_reg s \<and> core.more s' = core.more s" if "instanceFactory sys base cfg idx s = (out, s')"
    using that by (auto simp: defs split: prod.splits outcome.splits)
qed

lemma instanceFactory_no_panic:
  assumes "ic_Validate cfg = None"
  shows "instanceFactory sys base cfg idx s \<noteq> (Panic m, s')"
proof -
  have "filepath_Join [base, ''inst-'' @ x] \<noteq> []" for x
    by (rule filepath_Join_not_Nil [of "''inst-'' @ x"]) simp_all
  with assms show ?thesis
    by (auto simp: instanceFactory_def alloc_inst_def NewInstance_def Let_def split: prod.splits)
qed

lemma manager_inst_config_valid: "mc_Validate (mg_cfg m) = None \<Longrightarrow> ic_Validate (manager_inst_config m) = None"
  by (simp add: mc_Validate_None_iff ic_Validate_None_iff manager_inst_config_def defaultMaxStartRetries_def)

subsection \<open>Acquiring\<close>

text \<open>The pool's acquisition, seen from the manager: the invariant, and one lease more or none.\<close>

definition granted :: "(go_error + nat \<times> 64 word) outcome \<Rightarrow> 'w mgr \<Rightarrow> 'w mgr \<Rightarrow> bool" where
  "granted out m m' \<longleftrightarrow> mgr_inv m' \<and> mg_cfg m' = mg_cfg m \<and> mg_state m' = mg_state m \<and>
     registered m \<subseteq> registered m' \<and>
     (case out of
        Ret (Inr (a, t)) \<Rightarrow> leases m a = None \<and> leases m' = (leases m)(a \<mapsto> t)
      | _ \<Rightarrow> leases m' = leases m)"

lemma accounts_acquired:
  assumes "accounts p s" and "pool_inv p' s'" and "acq_frame p s out p' s'"
  shows "accounts p' s'"
proof -
  have old: "owned (co_heap s' b) = owned (co_heap s b)" if "b \<in> set (po_all p)" for b
  proof -
    have "co_heap s' b = (co_heap s b)\<lparr>in_gen := in_gen (co_heap s' b)\<rparr>" using assms(3) that by (simp add: acq_frame_def)
    then have "in_stack (co_heap s' b) = in_stack (co_heap s b)" by (metis inst.ext_inject inst.surjective inst.update_convs(8))
    then show ?thesis by (simp add: owned_def)
  qed
  have new: "owned (co_heap s' b) = {}" if "b \<in> set (po_all p')" "b \<notin> set (po_all p)" for b
    using assms(2,3) that by (auto simp: acq_frame_def pool_inv_def inst_inv_def owned_def)
  have sub: "set (po_all p) \<subseteq> set (po_all p')" using assms(3) by (auto simp: acq_frame_def)
  have "(\<Union>b \<in> set (po_all p'). owned (co_heap s' b)) = (\<Union>b \<in> set (po_all p). owned (co_heap s b))"
    using old new sub by fastforce
  moreover have "owned (co_heap s' b) \<inter> owned (co_heap s' d) = {}"
    if "b \<in> set (po_all p')" "d \<in> set (po_all p')" "b \<noteq> d" for b d
  proof (cases "b \<in> set (po_all p) \<and> d \<in> set (po_all p)")
    case True
    then show ?thesis using assms(1) that(3) old by (simp add: accounts_on_def)
  qed (use new that in auto)
  ultimately show ?thesis using assms(1,3) by (simp add: accounts_on_def acq_frame_def)
qed


lemma pool_granted:
  assumes inv: "mgr_inv m" and p: "mg_pool m = Some p" and mid: "mid = id \<or> mid = pool_Close"
    and cfg: "ic_Validate cfg = None"
    and run: "pool_Acquire sys (instanceFactory sys base cfg) mid c ev p m = Some (out, p', m1)"
  shows "granted out m (m1\<lparr>mg_pool := Some p'\<rparr>) \<and> (\<forall>x. out \<noteq> Panic x)"
proof -
  let ?m = "m1\<lparr>mg_pool := Some p'\<rparr>"
  have pi: "pool_inv p m" "accounts p m" using inv p by (simp_all add: mgr_inv_def)
  note post = pool_Acquire_post [OF mf.instance_factory_axioms pi(1) mid run]
  then have acq: "acq_post p m out p' m1" and fr: "acq_frame p m out p' m1" by auto
  have np: "out \<noteq> Panic x" for x using post instanceFactory_no_panic [OF cfg] by blast
  have more: "core.more m1 = core.more m" using fr by (simp add: acq_frame_def)
  then have f: "mg_cfg m1 = mg_cfg m" "mg_state m1 = mg_state m" by (cases m; cases m1; simp)+
  have "accounts p' m1" using accounts_acquired [OF pi(2) _ fr] acq by (simp add: acq_post_def)
  moreover have "in_hasReleaser (co_heap m1 b)" if "b \<in> set (po_all p')" for b
  proof (cases "b \<in> set (po_all p)")
    case True
    then have "co_heap m1 b = (co_heap m b)\<lparr>in_gen := in_gen (co_heap m1 b)\<rparr>" using fr by (simp add: acq_frame_def)
    then have "in_hasReleaser (co_heap m1 b) = in_hasReleaser (co_heap m b)"
      by (metis inst.ext_inject inst.surjective inst.update_convs(8))
    with inv p True show ?thesis by (simp add: mgr_inv_def)
  qed (use fr that in \<open>simp add: acq_frame_def\<close>)
  ultimately have minv: "mgr_inv ?m"
    using inv p f acq fr by (simp add: mgr_inv_def acq_post_def acq_frame_def pool_inv_def accounts_on_def)
  have keep: "leases ?m b = leases m b" if "\<And>t. out \<noteq> Ret (Inr (b, t))" for b
  proof (cases "b \<in> set (po_all p)")
    case True
    with fr that have "b \<in> set (po_all p')" "co_heap m1 b = co_heap m b" unfolding acq_frame_def by blast+
    with True p show ?thesis by (simp add: leases_def)
  next
    case False
    with fr that have "b \<in> set (po_all p') \<longrightarrow> \<not> IsBusy (co_heap m1 b)" unfolding acq_frame_def by blast
    with False p show ?thesis by (simp add: leases_def)
  qed
  have "leases m a = None \<and> leases ?m = (leases m)(a \<mapsto> t)" if "out = Ret (Inr (a, t))" for a t
    using acq that keep p by (auto simp: acq_post_def leases_def isCurrentToken_def fun_eq_iff)
  moreover have "registered m \<subseteq> registered ?m" using fr p by (auto simp: registered_def acq_frame_def)
  ultimately show ?thesis
    using keep minv f np by (auto simp: granted_def fun_eq_iff split: outcome.splits sum.splits)
qed

lemma accounts_started:
  assumes "accounts_on A s" and "a \<in> A" and "owned (co_heap s a) = {}"
    and "co_heap s' = (co_heap s)(a := i)" and "owned i \<inter> ports (co_reg s) = {}"
    and "ports (co_reg s') = ports (co_reg s) \<union> owned i"
  shows "accounts_on A s'"
proof -
  have sub: "owned (co_heap s b) \<subseteq> ports (co_reg s)" if "b \<in> A" for b
    using assms(1) that by (auto simp: accounts_on_def)
  have "ports (co_reg s') = (\<Union>b \<in> A. owned (co_heap s' b))"
    using assms by (fastforce simp: accounts_on_def split: if_splits)
  moreover have "owned (co_heap s' b) \<inter> owned (co_heap s' d) = {}"
    if "b \<in> A" "d \<in> A" "b \<noteq> d" for b d
    using assms(1,4,5) that sub [OF that(1)] sub [OF that(2)] by (auto simp: accounts_on_def)
  ultimately show ?thesis by (simp add: accounts_on_def)
qed

lemma mgr_started:
  assumes laws: "group_law grp" "net_law sys" and inv: "mgr_inv m" and lease: "leases m a = Some t"
    and idle: "\<not> in_started (co_heap m a)"
    and run: "inst_call a (\<lambda>i r w. inst_Start sys grp i c r w) m = (e, m1)"
  shows "mgr_inv m1 \<and> leases m1 = leases m \<and> mg_cfg m1 = mg_cfg m \<and> mg_state m1 = mg_state m \<and>
    registered m1 = registered m \<and> in_started (co_heap m1 a) = (e = None)"
proof -
  from inv lease obtain p where p: "mg_pool m = Some p" "pool_inv p m" "a \<in> set (po_all p)" "IsBusy (co_heap m a)"
    "isCurrentToken (co_heap m a) t" "in_hasReleaser (co_heap m a)" "inst_inv (co_heap m a)" by (rule leaseE)
  obtain i r w where st: "inst_Start sys grp (co_heap m a) c (co_reg m) (co_world m) = (e, i, r, w)"
    and m1: "m1 = (set_inst a i m)\<lparr>co_reg := r, co_world := w\<rparr>"
    using run by (auto simp: inst_call_def split: prod.splits)
  have post: "start_post (co_heap m a) (co_reg m) i r (e = None)" by (rule inst_Start_post [OF laws p(7) idle st])
  have h: "co_heap m1 = (co_heap m)(a := i)" "co_next m1 = co_next m" "mg_pool m1 = Some p" "co_reg m1 = r"
    using m1 p(1) by (simp_all add: set_inst_def)
  have i: "inst_inv i" "IsBusy i \<longleftrightarrow> IsBusy (co_heap m a)" "in_hasReleaser i" "in_gen i = in_gen (co_heap m a)"
    using post p(6) by (auto simp: start_post_def IsBusy_def)
  have "owned (co_heap m a) = {}" using p(7) idle by (simp add: inst_inv_def owned_def)
  then have "accounts p m1"
    using accounts_started [of "set (po_all p)" m a m1 i] inv p(1,3) h post by (simp add: mgr_inv_def start_post_def)
  moreover have "pool_inv p m1" by (rule pool_inv_update [OF p(2) i(1,2) h(1,2)])
  ultimately have "mgr_inv m1" using inv p(1) h i m1 by (auto simp: mgr_inv_def set_inst_def)
  moreover have "leases m1 = leases m" using h i p(1) by (auto simp: leases_def fun_eq_iff)
  ultimately show ?thesis using m1 post h(1) by (simp add: set_inst_def start_post_def registered_def)
qed


lemma acquireStarted_lease:
  assumes laws: "group_law grp" "net_law sys" and inv: "mgr_inv m" and lease: "leases m a = Some t"
    and run: "acquireStarted sys grp c a t m = (out, m')"
  shows "mgr_inv m' \<and> mg_cfg m' = mg_cfg m \<and> mg_state m' = mg_state m \<and> registered m' = registered m \<and>
    (out = Ret (Inr (a, t)) \<and> mg_state m \<noteq> managerShuttingDown \<and> leases m' = leases m \<and> in_started (co_heap m' a) \<or>
     (\<exists>e. out = Ret (Inl e)) \<and> leases m' = (leases m)(a := None))"
proof -
  consider (shut) "mg_state m = managerShuttingDown"
    | (start) "mg_state m \<noteq> managerShuttingDown" "\<not> in_started (co_heap m a)"
    | (warm) "mg_state m \<noteq> managerShuttingDown" "in_started (co_heap m a)" by blast
  then show ?thesis
  proof cases
    case shut
    obtain sc w1 where sc: "os_ctx_with_timeout sys Background (mc_InstanceStopTimeout (mg_cfg m)) (co_world m) = (sc, w1)"
      by fastforce
    obtain m1 where m1: "stopInstanceDuringShutdown sys sc a t (m\<lparr>co_world := w1\<rparr>) = (Ret (), m1)"
      "mgr_back a t m m1"
      using stopInstanceDuringShutdown_back [of "m\<lparr>co_world := w1\<rparr>" a t sys sc] inv lease by auto
    with shut sc run have "out = Ret (Inl ErrShuttingDown)" "m' = m1\<lparr>co_world := os_ctx_cancel sys sc (co_world m1)\<rparr>"
      by (simp_all add: acquireStarted_def)
    with m1(2) show ?thesis by (simp add: mgr_back_def)
  next
    case start
    obtain e m1 where st: "inst_call a (\<lambda>i r w. inst_Start sys grp i c r w) m = (e, m1)" by fastforce
    note ms = mgr_started [OF laws inv lease start(2) st]
    show ?thesis
    proof (cases e)
      case None
      with ms st start run show ?thesis by (simp add: acquireStarted_def startHeld_def IsStarted_def)
    next
      case (Some x)
      from ms lease have m1: "mgr_inv m1" "leases m1 a = Some t" by simp_all
      note se = mgr_setErr [OF m1, of x]
      obtain m2 where m2: "ReleaseFailed sys a t (set_inst a (setErr (co_heap m1 a) x) m1) = (Ret (), m2)"
        "mgr_back a t (set_inst a (setErr (co_heap m1 a) x) m1) m2"
        using ReleaseFailed_back [OF se(1), of a t sys] se(2) m1(2) by auto
      with Some st start run have "out = Ret (Inl (Wrapf ''start instance: %w'' [] x))" "m' = m2"
        by (simp_all add: acquireStarted_def startHeld_def IsStarted_def)
      with m2(2) ms se(2) show ?thesis by (simp add: mgr_back_def)
    qed
  next
    case warm
    with run inv show ?thesis by (simp add: acquireStarted_def startHeld_def IsStarted_def)
  qed
qed

text \<open>What other goroutines may do while an acquisition goes on: anything that keeps the invariant
  and the lease.\<close>

definition rely :: "('w mgr \<Rightarrow> 'w mgr) \<Rightarrow> bool" where
  "rely f \<longleftrightarrow> (\<forall>m a t. mgr_inv m \<and> leases m a = Some t \<longrightarrow> mgr_inv (f m) \<and> leases (f m) a = Some t)"

definition acquired :: "(go_error + nat \<times> 64 word) outcome \<Rightarrow> 'w mgr \<Rightarrow> bool" where
  "acquired out m' \<longleftrightarrow> mgr_inv m' \<and> (\<exists>r. out = Ret r) \<and>
     (\<forall>a t. out = Ret (Inr (a, t)) \<longrightarrow>
        leases m' a = Some t \<and> in_started (co_heap m' a) \<and> mg_state m' \<noteq> managerShuttingDown)"

lemma manager_Acquire_cases:
  assumes inv: "mgr_inv m" and mid: "mid = id \<or> mid = pool_Close"
    and run: "manager_Acquire sys grp mid interf c ev m = Some (out, m')"
  obtains (refused) e where "out = Ret (Inl e)" "m' = m" "mg_state m \<noteq> managerReady"
  | (pool) e m1 w where "out = Ret (Inl e)" "granted out m m1" "m' = m1\<lparr>co_world := w\<rparr>" "mg_state m = managerReady"
  | (slot) a t m1 ac m2 w where "granted (Ret (Inr (a, t))) m m1" "mg_state m = managerReady"
      "acquireStarted sys grp ac a t (interf m1) = (out, m2)" "m' = m2\<lparr>co_world := w\<rparr>"
proof (cases "mg_state m = managerReady")
  case False
  then have "\<exists>e. out = Ret (Inl e)" "m' = m"
    using run by (auto simp: manager_Acquire_def split: managerState.splits)
  with False that(1) show ?thesis by blast
next
  case True
  with inv obtain p where p: "mg_pool m = Some p" by (auto simp: mgr_inv_def split: option.splits)
  obtain ac w1 where ac: "os_ctx_with_timeout sys c (mc_AcquireTimeout (mg_cfg m)) (co_world m) = (ac, w1)" by fastforce
  let ?m = "m\<lparr>co_world := w1\<rparr>"
  have valid: "ic_Validate (manager_inst_config m) = None"
    using inv by (intro manager_inst_config_valid) (simp add: mgr_inv_def)
  from True p ac run obtain o1 p1 m1 where
    q: "pool_Acquire sys (instanceFactory sys (mc_BaseDataDir (mg_cfg m)) (manager_inst_config m)) mid ac ev p ?m =
      Some (o1, p1, m1)"
    by (auto simp: manager_Acquire_def manager_factory_def split: option.splits)
  have "mgr_inv ?m" "mg_pool ?m = Some p" using inv p by simp_all
  from pool_granted [OF this mid valid q] have g: "granted o1 m (m1\<lparr>mg_pool := Some p1\<rparr>)" "\<And>x. o1 \<noteq> Panic x"
    by (auto simp: granted_def split: outcome.splits sum.splits)
  then obtain r where r: "o1 = Ret r" by (metis outcome.exhaust)
  show ?thesis
  proof (cases r)
    case (Inl e)
    from True p ac q r Inl run obtain e' where e': "out = Ret (Inl e')"
      "m' = (m1\<lparr>mg_pool := Some p1\<rparr>)\<lparr>co_world := os_ctx_cancel sys ac (co_world m1)\<rparr>"
      by (auto simp: manager_Acquire_def manager_factory_def)
    from g(1) r Inl e'(1) have "granted out m (m1\<lparr>mg_pool := Some p1\<rparr>)" by (simp add: granted_def)
    from that(2) [OF e'(1) this e'(2) True] show ?thesis .
  next
    case (Inr at)
    obtain a t where at: "at = (a, t)" by fastforce
    obtain o2 m2 where "acquireStarted sys grp ac a t (interf (m1\<lparr>mg_pool := Some p1\<rparr>)) = (o2, m2)" by fastforce
    with True p ac q r Inr at run g(1) that(3) show ?thesis
      by (auto simp: manager_Acquire_def manager_factory_def)
  qed
qed

lemma manager_Acquire_acquired:
  assumes laws: "group_law grp" "net_law sys" and inv: "mgr_inv m" and mid: "mid = id \<or> mid = pool_Close"
    and interf: "rely interf" and run: "manager_Acquire sys grp mid interf c ev m = Some (out, m')"
  shows "acquired out m'"
  using inv mid run
proof (cases rule: manager_Acquire_cases)
  case refused
  then show ?thesis using inv by (simp add: acquired_def)
next
  case pool
  then show ?thesis by (simp add: acquired_def granted_def)
next
  case (slot a t m1 ac m2 w)
  then have "mgr_inv m1" "leases m1 a = Some t" by (simp_all add: granted_def)
  with interf have "mgr_inv (interf m1)" "leases (interf m1) a = Some t" unfolding rely_def by blast+
  from acquireStarted_lease [OF laws this slot(3)] slot(4) this show ?thesis by (auto simp: acquired_def)
qed

text \<open>Alone, an acquisition adds the returned lease and nothing else.\<close>

lemma manager_Acquire_alone:
  assumes laws: "group_law grp" "net_law sys" and inv: "mgr_inv m" and mid: "mid = id \<or> mid = pool_Close"
    and run: "manager_Acquire sys grp mid id c ev m = Some (out, m')"
  shows "granted out m m'"
  using inv mid run
proof (cases rule: manager_Acquire_cases)
  case refused
  then show ?thesis using inv by (simp add: granted_def)
next
  case pool
  then show ?thesis by (simp add: granted_def)
next
  case (slot a t m1 ac m2 w)
  then have "mgr_inv m1" "leases m1 a = Some t" "leases m a = None" "leases m1 = (leases m)(a \<mapsto> t)"
    "mg_cfg m1 = mg_cfg m" "mg_state m1 = mg_state m" "registered m \<subseteq> registered m1" by (simp_all add: granted_def)
  with acquireStarted_lease [OF laws, of m1 a t ac out m2] slot(3,4) show ?thesis
    by (auto simp: granted_def fun_upd_idem_iff)
qed


subsection \<open>Stopping\<close>

text \<open>What a series of stops keeps, and that an instance once stopped stays stopped.\<close>

definition stops :: "pool \<Rightarrow> ('w, 'z) core_scheme \<Rightarrow> ('w, 'z) core_scheme \<Rightarrow> bool" where
  "stops p s s' \<longleftrightarrow> pool_inv p s' \<and> accounts p s' \<and> core.more s' = core.more s \<and>
     (\<forall>b. in_gen (co_heap s' b) = in_gen (co_heap s b) \<and> in_hasReleaser (co_heap s' b) = in_hasReleaser (co_heap s b) \<and>
        (in_started (co_heap s' b) \<longrightarrow> in_started (co_heap s b)))"

lemma stops_refl: "pool_inv p s \<Longrightarrow> accounts p s \<Longrightarrow> stops p s s"
  by (simp add: stops_def)

lemma stops_trans: "stops p s s1 \<Longrightarrow> stops p s1 s2 \<Longrightarrow> stops p s s2"
  by (simp add: stops_def)

lemma stops_world: "stops p (s\<lparr>co_world := w\<rparr>) s' = stops p s s'" "stops p s (s'\<lparr>co_world := w\<rparr>) = stops p s s'"
  by (simp_all add: stops_def pool_inv_def accounts_on_def)

lemma stop_one:
  assumes "pool_inv p s" and "accounts p s" and "a \<in> set (po_all p)"
    and run: "inst_call a (\<lambda>i r w. inst_Stop sys i c r w) s = (e, s')"
  shows "stops p s s' \<and> (os_ctx_err sys c (co_world s) = None \<longrightarrow> \<not> in_started (co_heap s' a))"
proof -
  have i: "inst_inv (co_heap s a)" using assms(1,3) by (auto simp: pool_inv_def)
  obtain j r w where st: "inst_Stop sys (co_heap s a) c (co_reg s) (co_world s) = (e, j, r, w)"
    and s': "s' = (set_inst a j s)\<lparr>co_reg := r, co_world := w\<rparr>"
    using run by (auto simp: inst_call_def split: prod.splits)
  have h: "co_heap s' = (co_heap s)(a := j)" "co_next s' = co_next s" "core.more s' = core.more s"
    using s' by (simp_all add: set_inst_def)
  have j: "inst_inv j" "in_gen j = in_gen (co_heap s a)" using inst_Stop_inv [OF i st] by auto
  then have "pool_inv p s'" using pool_inv_update [OF assms(1) j(1) _ h(1,2)] by (simp add: IsBusy_def)
  moreover have "accounts p s'" using accounts_touch [OF assms(2) touch_stop [OF i] assms(3)] run by (metis snd_conv)
  ultimately show ?thesis
    using inst_Stop_post [OF i st] h j by (auto simp: stops_def split: if_splits)
qed

lemma stopEach_stops:
  assumes "ctx_law sys" and "0 < d"
  shows "pool_inv p s \<Longrightarrow> accounts p s \<Longrightarrow> set as \<subseteq> set (po_all p) \<Longrightarrow> stopEach sys d as s = (es, s') \<Longrightarrow>
    stops p s s' \<and> (\<forall>a \<in> set as. \<not> in_started (co_heap s' a))"
proof (induction as arbitrary: s es)
  case Nil
  then show ?case by (simp add: stops_refl)
next
  case (Cons a as)
  obtain c w1 where c: "os_ctx_with_timeout sys Background d (co_world s) = (c, w1)" by fastforce
  obtain e s1 where st: "inst_call a (\<lambda>i r w. inst_Stop sys i c r w) (s\<lparr>co_world := w1\<rparr>) = (e, s1)" by fastforce
  let ?s = "s1\<lparr>co_world := os_ctx_cancel sys c (co_world s1)\<rparr>"
  obtain es2 where rest: "stopEach sys d as ?s = (es2, s')"
    using Cons.prems(4) c st by (auto split: prod.splits)
  have live: "os_ctx_err sys c w1 = None" using assms c unfolding ctx_law_def by blast
  have "pool_inv p (s\<lparr>co_world := w1\<rparr>)" "accounts p (s\<lparr>co_world := w1\<rparr>)"
    using Cons.prems(1,2) by (simp_all add: pool_inv_def accounts_on_def)
  from stop_one [OF this _ st] Cons.prems(3) live have one: "stops p s ?s" "\<not> in_started (co_heap ?s a)"
    by (simp_all add: stops_world)
  then have "pool_inv p ?s" "accounts p ?s" by (simp_all add: stops_def)
  from Cons.IH [OF this _ rest] Cons.prems(3) have two: "stops p ?s s'" "\<forall>b \<in> set as. \<not> in_started (co_heap s' b)"
    by auto
  from one(2) two have "\<not> in_started (co_heap s' a)" unfolding stops_def by blast
  with two stops_trans [OF one(1) two(1)] show ?case by simp
qed

lemma stopAllInstances_stops:
  assumes "ctx_law sys" and "0 < d" and "pool_inv p s" and "accounts p s" and "set (sched (po_all p)) = set (po_all p)"
    and "stopAllInstances sys sched (po_all p) d s = (e, s')"
  shows "stops p s s' \<and> (\<forall>a \<in> set (po_all p). \<not> in_started (co_heap s' a)) \<and> ports (co_reg s') = {}"
proof -
  obtain es where "stopEach sys d (sched (po_all p)) s = (es, s')"
    using assms(6) by (auto simp: stopAllInstances_def split: prod.splits)
  from stopEach_stops [OF assms(1-4) _ this] assms(5) have
    st: "stops p s s'" "\<forall>a \<in> set (po_all p). \<not> in_started (co_heap s' a)" by auto
  then have "\<forall>a \<in> set (po_all p). owned (co_heap s' a) = {}"
    by (auto simp: stops_def pool_inv_def inst_inv_def owned_def)
  with st show ?thesis by (auto simp: stops_def accounts_on_def)
qed

lemma stops_mgr:
  assumes "mgr_inv m" and "mg_pool m = Some p" and "stops p m m'"
  shows "mgr_inv m' \<and> leases m' = leases m \<and> mg_pool m' = Some p \<and> mg_state m' = mg_state m \<and> mg_cfg m' = mg_cfg m"
proof -
  have "core.more m' = core.more m" using assms(3) by (simp add: stops_def)
  then have f: "mg_pool m' = mg_pool m" "mg_cfg m' = mg_cfg m" "mg_state m' = mg_state m" by (cases m; cases m'; simp)+
  with assms show ?thesis by (auto simp: stops_def mgr_inv_def leases_def IsBusy_def fun_eq_iff)
qed

subsection \<open>Shutting down\<close>

definition shut_down :: "'w mgr \<Rightarrow> bool" where
  "shut_down m \<longleftrightarrow> mgr_inv m \<and> mg_state m = managerShuttingDown \<and> ports (co_reg m) = {} \<and>
     (\<forall>p. mg_pool m = Some p \<longrightarrow> po_closed p \<and> po_free p = [] \<and> (\<forall>a \<in> set (po_all p). \<not> in_started (co_heap m a)))"

lemma mgr_inv_state:
  "mgr_inv m \<Longrightarrow> mgr_inv (m\<lparr>mg_state := managerShuttingDown\<rparr>)" "leases (m\<lparr>mg_state := s\<rparr>) = leases m"
  by (cases "mg_pool m"; simp add: mgr_inv_def pool_inv_def accounts_on_def)
    (cases "mg_pool m"; simp add: leases_def fun_eq_iff)

lemma beginShutdown_inv:
  "mgr_inv m \<Longrightarrow> mgr_inv (beginShutdown m) \<and> leases (beginShutdown m) = leases m \<and>
     mg_state (beginShutdown m) = managerShuttingDown \<and> mg_pool (beginShutdown m) = mg_pool m"
  by (simp add: beginShutdown_def Let_def mgr_inv_state)

lemma finishShutdown_shut:
  assumes "ctx_law sys" and "mgr_inv m" and "mg_state m = managerShuttingDown"
    and "\<forall>xs. set (sched xs) = set xs" and "finishShutdown sys sched m = (e, m')"
  shows "shut_down m' \<and> leases m' = leases m \<and> registered m' = registered m"
proof (cases "mg_pool m")
  case None
  with assms show ?thesis by (auto simp: finishShutdown_def shut_down_def mgr_inv_def)
next
  case (Some p)
  let ?p = "pool_Close p"
  let ?m = "m\<lparr>mg_pool := Some ?p\<rparr>"
  have all: "po_all ?p = po_all p" "po_closed ?p" "po_free ?p = []" "po_maxSize ?p = po_maxSize p" by (simp_all add: pool_Close_def)
  have "pool_inv p m" "accounts p m" using assms(2) Some by (simp_all add: mgr_inv_def)
  then have inv: "pool_inv ?p ?m" "accounts ?p ?m" using pool_Close_inv [of p m] all(1)
    by (simp_all add: pool_inv_def accounts_on_def)
  then have m: "mgr_inv ?m" "leases ?m = leases m" "mg_state ?m = managerShuttingDown"
    using assms(2,3) Some all by (auto simp: mgr_inv_def leases_def fun_eq_iff)
  have "0 < mc_InstanceStopTimeout (mg_cfg m)" using assms(2) by (simp add: mgr_inv_def mc_Validate_None_iff)
  moreover have "stopAllInstances sys sched (po_all ?p) (mc_InstanceStopTimeout (mg_cfg m)) ?m = (e, m')"
    using assms(5) Some by (simp add: finishShutdown_def Instances_def Let_def)
  ultimately have st: "stops ?p ?m m'" "\<forall>a \<in> set (po_all ?p). \<not> in_started (co_heap m' a)" "ports (co_reg m') = {}"
    using stopAllInstances_stops [OF assms(1) _ inv] assms(4) by blast+
  from stops_mgr [OF m(1) _ st(1)] st(2,3) m all Some show ?thesis by (simp add: shut_down_def registered_def)
qed


lemma Shutdown_shut:
  assumes "ctx_law sys" and "mgr_inv m" and "\<forall>xs. set (sched xs) = set xs"
    and "\<forall>m1. mgr_inv m1 \<and> mg_state m1 = managerShuttingDown \<longrightarrow>
      mgr_inv (interf m1) \<and> mg_state (interf m1) = managerShuttingDown"
    and "Shutdown sys sched interf drained m = Some (e, m')"
  shows "shut_down m' \<and> leases m' = leases (interf (beginShutdown m)) \<and>
    registered m' = registered (interf (beginShutdown m))"
proof -
  have b: "mgr_inv (interf (beginShutdown m))" "mg_state (interf (beginShutdown m)) = managerShuttingDown"
    using assms(4) beginShutdown_inv [OF assms(2)] by blast+
  have "finishShutdown sys sched (interf (beginShutdown m)) = (e, m')"
    using assms(5) by (auto simp: Shutdown_def Let_def split: if_splits)
  from finishShutdown_shut [OF assms(1) b assms(3) this] show ?thesis .
qed

text \<open>With no release in flight the drain is over at once; with the timer it ends anyhow.\<close>

lemma Shutdown_returns:
  "mg_inflight m = 0 \<or> \<not> drained \<Longrightarrow> \<exists>e m'. Shutdown sys sched id drained m = Some (e, m')"
  by (auto simp: Shutdown_def beginShutdown_def Let_def)

subsection \<open>Initializing\<close>

text \<open>What \<^verbatim>\<open>EnsureCache\<close> does to the registry it is lent: every port it reserves is given back.\<close>

definition cache_law :: "'w ensure_cache \<Rightarrow> bool" where
  "cache_law ensureCache \<longleftrightarrow> (\<forall>c cfg r w res r' w'. ensureCache c cfg r w = (res, r', w') \<longrightarrow> r' = r)"

lemma doInitialize_frame:
  assumes "cache_law ensureCache" and "0 \<le> mc_PoolSize (mg_cfg m)" and "mg_pool m = None"
    and "doInitialize sys ensureCache c m = (out, m')"
  shows "\<exists>r path w. out = Ret r \<and>
    m' = m\<lparr>co_world := w, mg_cachedDBPath := path, mg_pool := (if r = None then
       Some (case NewPool True (mc_PoolSize (mg_cfg m)) of Ret p \<Rightarrow> p) else None)\<rparr>"
proof -
  obtain p where p: "NewPool True (mc_PoolSize (mg_cfg m)) = Ret p" using assms(2) by (simp add: NewPool_def)
  obtain e w1 where d: "EnsureDir sys (mc_BaseDataDir (mg_cfg m)) (co_world m) = (e, w1)" by fastforce
  obtain res r w2 where k: "ensureCache c (mg_cfg m) (co_reg m) w1 = (res, r, w2)" by (metis prod_cases3)
  have r: "r = co_reg m" using assms(1) k unfolding cache_law_def by blast
  show ?thesis
    using assms(3,4) p d k r
    by (cases m, cases e; cases res; cases "mc_CRDDir (mg_cfg m) = ''''")
      (auto simp: doInitialize_def intro!: exI)
qed


lemma mgr_inv_fresh:
  assumes "mgr_inv m" and "mg_pool m = None" and "NewPool True (mc_PoolSize (mg_cfg m)) = Ret p"
  shows "mgr_inv (m\<lparr>co_world := w, mg_cachedDBPath := path, mg_pool := Some p, mg_state := managerReady\<rparr>)"
proof -
  have p: "po_all p = []" using assms(3) by (auto simp: NewPool_def split: if_splits)
  with NewPool_inv [OF assms(3), of m] assms show ?thesis by (simp add: mgr_inv_def pool_inv_def accounts_on_def)
qed

definition init_post :: "go_error option \<Rightarrow> 'w mgr \<Rightarrow> 'w mgr \<Rightarrow> bool" where
  "init_post r m m' \<longleftrightarrow>
     (case mg_state m of
        managerReady \<Rightarrow> r = None \<and> m' = m
      | managerShuttingDown \<Rightarrow> r = Some ErrShuttingDown \<and> m' = m
      | _ \<Rightarrow>
          (if r = None
           then mg_state m' = managerReady \<and>
             (\<exists>p. mg_pool m' = Some p \<and> po_all p = [] \<and> \<not> po_closed p \<and> int (po_maxSize p) = mc_PoolSize (mg_cfg m))
           else \<exists>w. m' = m\<lparr>co_world := w, mg_cachedDBPath := mc_PrepopulateDBPath (mg_cfg m),
                    mg_pool := None, mg_state := managerCreated\<rparr>))"

text \<open>\<^verbatim>\<open>Initialize\<close> of a manager that is not ready yet.\<close>

lemma Initialize_fresh:
  assumes law: "cache_law ensureCache" and inv: "mgr_inv m"
    and fresh: "mg_state m = managerCreated \<or> mg_state m = managerInitializing" and np: "mg_pool m = None"
    and p: "NewPool True (mc_PoolSize (mg_cfg m)) = Ret p"
  shows "\<exists>path w e. Initialize sys ensureCache sched c m =
      (Ret None, m\<lparr>co_world := w, mg_cachedDBPath := path, mg_pool := Some p, mg_state := managerReady\<rparr>) \<or>
    Initialize sys ensureCache sched c m = (Ret (Some e), m\<lparr>co_world := w, mg_cachedDBPath := mc_PrepopulateDBPath (mg_cfg m),
      mg_pool := None, mg_state := managerCreated\<rparr>)"
proof -
  let ?m = "m\<lparr>mg_state := managerInitializing\<rparr>"
  have valid: "mc_Validate (mg_cfg ?m) = None" "0 \<le> mc_PoolSize (mg_cfg ?m)"
    using inv by (simp_all add: mgr_inv_def mc_Validate_None_iff)
  obtain o1 m1 where d: "doInitialize sys ensureCache c ?m = (o1, m1)" by fastforce
  have p': "NewPool True (mc_PoolSize (mg_cfg ?m)) = Ret p" using p by simp
  from doInitialize_frame [OF law valid(2) _ d, unfolded p' outcome.case] np obtain r path w where o1: "o1 = Ret r"
    and m1: "m1 = ?m\<lparr>co_world := w, mg_cachedDBPath := path, mg_pool := (if r = None then Some p else None)\<rparr>" by auto
  have init: "Initialize sys ensureCache sched c m =
      (case r of
         None \<Rightarrow> (Ret None, m1\<lparr>mg_state := managerReady\<rparr>)
       | Some e \<Rightarrow> (Ret (Some (Wrapf ''initialize: %w'' [] e)), m1\<lparr>mg_pool := None,
           mg_cachedDBPath := mc_PrepopulateDBPath (mg_cfg m1), mg_state := managerCreated\<rparr>))"
    using fresh valid d o1 m1 unfolding Initialize_def finishInitialize_def Let_def by (elim disjE; cases r; simp)
  show ?thesis
  proof (cases r)
    case None
    with init m1 show ?thesis by auto
  next
    case (Some e)
    have "m1\<lparr>mg_pool := None, mg_cachedDBPath := mc_PrepopulateDBPath (mg_cfg m1), mg_state := managerCreated\<rparr> =
      m\<lparr>co_world := w, mg_cachedDBPath := mc_PrepopulateDBPath (mg_cfg m), mg_pool := None, mg_state := managerCreated\<rparr>"
      using m1 by simp
    with Some init show ?thesis by auto
  qed
qed

lemma Initialize_ok:
  assumes "cache_law ensureCache" and "mgr_inv m" and "Initialize sys ensureCache sched c m = (out, m')"
  shows "\<exists>r. out = Ret r \<and> init_post r m m' \<and> mgr_inv m' \<and> leases m' = leases m \<and> registered m \<subseteq> registered m'"
proof (cases "mg_state m \<in> {managerReady, managerShuttingDown}")
  case True
  then show ?thesis using assms(2,3) by (cases "mg_state m"; simp add: Initialize_def init_post_def)
next
  case False
  then have fresh: "mg_state m = managerCreated \<or> mg_state m = managerInitializing" by (cases "mg_state m") simp_all
  from False assms(2) have np: "mg_pool m = None" by (auto simp: mgr_inv_def split: option.splits)
  have size: "0 \<le> mc_PoolSize (mg_cfg m)" using assms(2) by (simp add: mgr_inv_def mc_Validate_None_iff)
  then obtain p where p: "NewPool True (mc_PoolSize (mg_cfg m)) = Ret p" by (simp add: NewPool_def)
  then have pf: "po_all p = []" "\<not> po_closed p" "int (po_maxSize p) = mc_PoolSize (mg_cfg m)"
    using size by (auto simp: NewPool_def split: if_splits)
  from Initialize_fresh [OF assms(1,2) fresh np p, of sys sched c] assms(3) obtain path w e where
    "out = Ret None \<and> m' = m\<lparr>co_world := w, mg_cachedDBPath := path, mg_pool := Some p, mg_state := managerReady\<rparr> \<or>
     out = Ret (Some e) \<and> m' = m\<lparr>co_world := w, mg_cachedDBPath := mc_PrepopulateDBPath (mg_cfg m), mg_pool := None,
       mg_state := managerCreated\<rparr>" by auto
  then show ?thesis
  proof (elim disjE conjE)
    assume "out = Ret None" "m' = m\<lparr>co_world := w, mg_cachedDBPath := path, mg_pool := Some p, mg_state := managerReady\<rparr>"
    with mgr_inv_fresh [OF assms(2) np p] np pf fresh show ?thesis
      by (elim disjE; simp add: init_post_def leases_def registered_def fun_eq_iff)
  next
    assume out: "out = Ret (Some e)" and m': "m' = m\<lparr>co_world := w, mg_cachedDBPath := mc_PrepopulateDBPath (mg_cfg m), mg_pool := None,
        mg_state := managerCreated\<rparr>"
    have "init_post (Some e) m m'"
      unfolding init_post_def using fresh m' by (elim disjE) (simp_all only: managerState.case option.distinct if_False, blast+)
    with assms(2) np m' out show ?thesis by (auto simp: mgr_inv_def leases_def registered_def fun_eq_iff)
  qed
qed


subsection \<open>Properties\<close>


text \<open>\<^verbatim>\<open>Release\<close> of a lease returns (with the purge error, if any), ends exactly that lease and keeps
  the invariant, in a ready manager and in one that is shutting down; \<^verbatim>\<open>Release\<close> of a registered
  instance with a token that is not current panics and changes nothing.\<close>

theorem manager_Release_ends_lease:
  assumes "mgr_inv m"
  shows "(leases m a = Some t \<longrightarrow>
      (\<exists>r m'. manager_Release sys a t m = (Ret r, m') \<and> mgr_inv m' \<and> leases m' = (leases m)(a := None) \<and>
         mg_state m' = mg_state m)) \<and>
    (in_hasReleaser (co_heap m a) \<and> \<not> isCurrentToken (co_heap m a) t \<longrightarrow>
      (\<exists>msg. manager_Release sys a t m = (Panic msg, m)))"
proof -
  have "\<exists>r m'. manager_Release sys a t m = (Ret r, m') \<and> mgr_back a t m m'" if "leases m a = Some t"
    unfolding manager_Release_def using assms that mr.Release_returns by blast
  moreover have "\<exists>msg. manager_Release sys a t m = (Panic msg, m)"
    if "in_hasReleaser (co_heap m a)" "\<not> isCurrentToken (co_heap m a) t"
    unfolding manager_Release_def using that mr.Release_stale by blast
  ultimately show ?thesis by (auto simp: mgr_back_def)
qed

text \<open>C27. \<^verbatim>\<open>Initialize\<close> returns. On a ready manager it does nothing; on one that is shutting down it
  returns \<^verbatim>\<open>ErrShuttingDown\<close> and does nothing; otherwise it either succeeds, with an empty open pool
  of the configured size in a ready manager, or fails and leaves everything but the outside world
  as in a new manager (no pool, the configured database path, state created), so that it can be
  tried again. Leases never change.\<close>

theorem Initialize_all_or_nothing:
  assumes "cache_law ensureCache" and "mgr_inv m" and "Initialize sys ensureCache sched c m = (out, m')"
  shows "\<exists>r. out = Ret r \<and> mgr_inv m' \<and> leases m' = leases m \<and>
    (case mg_state m of
       managerReady \<Rightarrow> r = None \<and> m' = m
     | managerShuttingDown \<Rightarrow> r = Some ErrShuttingDown \<and> m' = m
     | _ \<Rightarrow>
         (if r = None
          then mg_state m' = managerReady \<and>
            (\<exists>p. mg_pool m' = Some p \<and> po_all p = [] \<and> \<not> po_closed p \<and> int (po_maxSize p) = mc_PoolSize (mg_cfg m))
          else \<exists>w. m' = m\<lparr>co_world := w, mg_cachedDBPath := mc_PrepopulateDBPath (mg_cfg m),
                   mg_pool := None, mg_state := managerCreated\<rparr>))"
  using Initialize_ok [OF assms] unfolding init_post_def by blast

text \<open>C26. \<^verbatim>\<open>Shutdown\<close> leaves every registered instance stopped, the registry without ports and the pool
  closed with an empty free stack; whatever order the stops run in and whatever the others do during
  the drain, as long as they keep the invariant and the state. Leases stay, so holders can still
  release. Afterwards \<^verbatim>\<open>Acquire\<close> and \<^verbatim>\<open>Initialize\<close> are refused.\<close>

theorem Shutdown_stops_all:
  assumes "ctx_law sys" and "mgr_inv m" and "\<forall>xs. set (sched xs) = set xs"
    and "\<forall>m1. mgr_inv m1 \<and> mg_state m1 = managerShuttingDown \<longrightarrow>
      mgr_inv (interf m1) \<and> mg_state (interf m1) = managerShuttingDown"
    and "Shutdown sys sched interf drained m = Some (e, m')"
  shows "mgr_inv m' \<and> ports (co_reg m') = {} \<and> leases m' = leases (interf (beginShutdown m)) \<and>
    (\<forall>p. mg_pool m' = Some p \<longrightarrow> po_closed p \<and> po_free p = [] \<and> (\<forall>a \<in> set (po_all p). \<not> in_started (co_heap m' a))) \<and>
    manager_Acquire sys grp mid f c ev m' = Some (Ret (Inl ErrShuttingDown), m') \<and>
    Initialize sys ensureCache sched c m' = (Ret (Some ErrShuttingDown), m')"
proof -
  from Shutdown_shut [OF assms] have sh: "shut_down m'" "leases m' = leases (interf (beginShutdown m))" by auto
  then have "mg_state m' = managerShuttingDown" by (simp add: shut_down_def)
  then have "manager_Acquire sys grp mid f c ev m' = Some (Ret (Inl ErrShuttingDown), m')"
    "Initialize sys ensureCache sched c m' = (Ret (Some ErrShuttingDown), m')"
    by (simp_all add: manager_Acquire_def Initialize_def)
  with sh show ?thesis by (simp add: shut_down_def)
qed

subsection \<open>Witnesses\<close>

definition sample_cfg :: manager_config where
  "sample_cfg = \<lparr>mc_KineBinary = ''kine'', mc_KubeAPIServerBinary = ''kube-apiserver'', mc_AcquireTimeout = 30,
     mc_PrepopulateDBPath = [], mc_BaseDataDir = ''/b'', mc_CRDDir = [], mc_PoolSize = 1, mc_CRDCacheTimeout = 5,
     mc_InstanceStartTimeout = 5, mc_InstanceStopTimeout = 7, mc_CleanupTimeout = 5, mc_ShutdownDrainTimeout = 9\<rparr>"

text \<open>A ready manager with one free cold instance, and the same with that instance held.\<close>

definition idle_mgr :: "nat mgr" where
  "idle_mgr = \<lparr>co_heap = (\<lambda>_. template_inst), co_next = 1, co_reg = NewPortRegistry, co_world = 0,
     mg_cfg = sample_cfg, mg_cachedDBPath = [],
     mg_pool = Some (sample_pool\<lparr>po_free := [0], po_all := [0], po_nextIdx := 1\<rparr>),
     mg_state = managerReady, mg_inflight = 0, mg_inflightDone = False\<rparr>"

definition held_mgr :: "nat mgr" where
  "held_mgr = idle_mgr\<lparr>co_heap := (\<lambda>_. template_inst)(0 := template_inst\<lparr>in_gen := 1\<rparr>),
     mg_pool := Some held_pool\<rparr>"

lemma sample_cfg_valid: "mc_Validate sample_cfg = None" "mc_PoolSize sample_cfg = 1"
  by (simp_all add: mc_Validate_None_iff sample_cfg_def)

lemma template_owned: "owned template_inst = {}" "owned (template_inst\<lparr>in_gen := g\<rparr>) = {}"
  by (simp_all add: owned_def template_inst_def sample_inst_def)

lemma idle_mgr_inv: "mgr_inv idle_mgr"
  using template_inv sample_cfg_valid template_owned
  by (simp add: mgr_inv_def idle_mgr_def sample_pool_def pool_inv_def accounts_on_def busy_def NewPortRegistry_def)

lemma held_mgr_inv: "mgr_inv held_mgr"
proof -
  have "inst_inv (template_inst\<lparr>in_gen := 1\<rparr>)" using template_inv(1) by (simp add: inst_inv_def)
  with sample_cfg_valid template_owned template_inv(4) show ?thesis
    by (simp add: mgr_inv_def held_mgr_def idle_mgr_def held_pool_def sample_pool_def pool_inv_def accounts_on_def
        busy_def NewPortRegistry_def)
qed

lemma held_mgr_lease: "leases held_mgr 0 = Some 1"
  by (simp add: leases_def held_mgr_def held_pool_def sample_pool_def IsBusy_odd)


theorem manager_Release_ends_lease_witness:
  "(\<exists>r m'. manager_Release counting_net 0 1 held_mgr = (Ret r, m') \<and> leases m' 0 = None) \<and>
   (\<exists>msg. manager_Release counting_net 0 3 held_mgr = (Panic msg, held_mgr))"
proof -
  have "in_hasReleaser (co_heap held_mgr 0)" "\<not> isCurrentToken (co_heap held_mgr 0) 3"
    using template_inv(4) by (simp_all add: held_mgr_def isCurrentToken_def)
  with manager_Release_ends_lease [OF held_mgr_inv, of 0 1 counting_net]
    manager_Release_ends_lease [OF held_mgr_inv, of 0 3 counting_net] held_mgr_lease
  show ?thesis by auto
qed

lemma counting_net_ctx: "ctx_law counting_net"
  by (simp add: ctx_law_def counting_net_def quiet_os_def)

theorem Initialize_all_or_nothing_witness:
  "\<exists>m m'. NewManagerWithConfig sample_cfg 0 = Ret m \<and>
     Initialize counting_net (\<lambda>c cfg r w. (Inr ''/c'', r, w)) id 1 m = (Ret None, m') \<and>
     mg_state m' = managerReady \<and> mgr_inv m'"
proof -
  obtain m where m: "NewManagerWithConfig sample_cfg (0 :: nat) = Ret m" "mg_state m = managerCreated" "mgr_inv m"
    using sample_cfg_valid by (simp add: NewManagerWithConfig_def mgr_inv_def NewPortRegistry_def)
  let ?cache = "(\<lambda>c cfg r w. (Inr ''/c'', r, w)) :: nat ensure_cache"
  have law: "cache_law ?cache" by (simp add: cache_law_def)
  have "\<exists>m'. Initialize counting_net ?cache id 1 m = (Ret None, m')"
    using m(1) sample_cfg_valid
    by (auto simp: NewManagerWithConfig_def Initialize_def finishInitialize_def doInitialize_def EnsureDir_def counting_net_quiet
        sample_cfg_def NewPool_def Let_def)
  then obtain m' where run: "Initialize counting_net ?cache id 1 m = (Ret None, m')" ..
  from Initialize_all_or_nothing [OF law m(3) run] m(1,2) run show ?thesis by auto
qed

theorem Shutdown_stops_all_witness:
  "\<exists>e m'. Shutdown counting_net id id True held_mgr = Some (e, m') \<and> ports (co_reg m') = {} \<and> leases m' 0 = Some 1"
proof -
  have "mg_inflight held_mgr = 0" by (simp add: held_mgr_def idle_mgr_def)
  then obtain e m' where run: "Shutdown counting_net id id True held_mgr = Some (e, m')"
    using Shutdown_returns by blast
  have "\<forall>m1 :: nat mgr. mgr_inv m1 \<and> mg_state m1 = managerShuttingDown \<longrightarrow>
      mgr_inv (id m1) \<and> mg_state (id m1) = managerShuttingDown" by simp
  from Shutdown_stops_all [OF counting_net_ctx held_mgr_inv _ this run] run held_mgr_lease
    beginShutdown_inv [OF held_mgr_inv] show ?thesis by auto
qed

end
