(* ===== verification/Leases.thy ===== *)
theory Leases
  imports Manager "HOL-Library.Multiset"
begin

text \<open>
  The whole core package against an abstract specification: a manager is a table of leases. Every
  run of calls of \<^verbatim>\<open>Initialize\<close>, \<^verbatim>\<open>Acquire\<close>, \<^verbatim>\<open>Release\<close> and \<^verbatim>\<open>Shutdown\<close> on a new manager shows its
  clients a history that the table allows.
\<close>

subsection \<open>The specification\<close>

datatype lease_event =
    Granted nat "64 word"
  | Refused
  | Returned nat "64 word"
  | Rejected nat "64 word"

text \<open>An instance is granted only when nobody holds it, returned only under the token that holds it,
  and a release under any other token is rejected.\<close>

fun lease_step :: "lease_event \<Rightarrow> (nat \<rightharpoonup> 64 word) \<Rightarrow> (nat \<rightharpoonup> 64 word) option" where
  "lease_step (Granted a t) L = (if L a = None then Some (L(a \<mapsto> t)) else None)"
| "lease_step Refused L = Some L"
| "lease_step (Returned a t) L = (if L a = Some t then Some (L(a := None)) else None)"
| "lease_step (Rejected a t) L = (if L a \<noteq> Some t then Some L else None)"

fun lease_run :: "lease_event list \<Rightarrow> (nat \<rightharpoonup> 64 word) \<Rightarrow> (nat \<rightharpoonup> 64 word) option" where
  "lease_run [] L = Some L"
| "lease_run (e # es) L = Option.bind (lease_step e L) (lease_run es)"

lemma lease_run_append: "lease_run (es @ fs) L = Option.bind (lease_run es L) (lease_run fs)"
proof (induction es arbitrary: L)
  case (Cons e es)
  then show ?case by (cases "lease_step e L") simp_all
qed simp

definition grants :: "nat \<Rightarrow> lease_event list \<Rightarrow> nat" where
  "grants a es = length (filter (\<lambda>e. \<exists>t. e = Granted a t) es)"

definition returns :: "nat \<Rightarrow> lease_event list \<Rightarrow> nat" where
  "returns a es = length (filter (\<lambda>e. \<exists>t. e = Returned a t) es)"

lemma lease_run_balance:
  "lease_run es L = Some L' \<Longrightarrow>
     grants a es + (if L a = None then 0 else 1) = returns a es + (if L' a = None then 0 else 1)"
proof (induction es arbitrary: L)
  case (Cons e es)
  from Cons.prems obtain L1 where L1: "lease_step e L = Some L1" "lease_run es L1 = Some L'"
    by (auto simp: bind_eq_Some_conv)
  from Cons.IH [OF L1(2)] L1(1) show ?case
    by (cases e) (auto simp: grants_def returns_def split: if_splits)
qed (simp add: grants_def returns_def)

subsection \<open>Runs of the manager\<close>

text \<open>One call at a time, each run to its end. A client releases only what it was granted at some
  time; it may do so again.\<close>

inductive manager_run ::
  "'w os \<Rightarrow> (kine_process, api_process, 'w) errgroup \<Rightarrow> 'w ensure_cache \<Rightarrow> manager_config \<Rightarrow>
   lease_event list \<Rightarrow> 'w mgr \<Rightarrow> bool"
  for sys grp ensureCache cfg where
  run_new: "NewManagerWithConfig cfg w = Ret m \<Longrightarrow> manager_run sys grp ensureCache cfg [] m"
| run_init: "manager_run sys grp ensureCache cfg es m \<Longrightarrow>
    Initialize sys ensureCache sched c m = (Ret r, m') \<Longrightarrow> manager_run sys grp ensureCache cfg es m'"
| run_grant: "manager_run sys grp ensureCache cfg es m \<Longrightarrow>
    manager_Acquire sys grp id id c ev m = Some (Ret (Inr (a, t)), m') \<Longrightarrow>
    manager_run sys grp ensureCache cfg (es @ [Granted a t]) m'"
| run_refuse: "manager_run sys grp ensureCache cfg es m \<Longrightarrow>
    manager_Acquire sys grp id id c ev m = Some (Ret (Inl e), m') \<Longrightarrow>
    manager_run sys grp ensureCache cfg (es @ [Refused]) m'"
| run_return: "manager_run sys grp ensureCache cfg es m \<Longrightarrow> Granted a t \<in> set es \<Longrightarrow>
    manager_Release sys a t m = (Ret r, m') \<Longrightarrow>
    manager_run sys grp ensureCache cfg (es @ [Returned a t]) m'"
| run_reject: "manager_run sys grp ensureCache cfg es m \<Longrightarrow> Granted a t \<in> set es \<Longrightarrow>
    manager_Release sys a t m = (Panic msg, m') \<Longrightarrow>
    manager_run sys grp ensureCache cfg (es @ [Rejected a t]) m'"
| run_shutdown: "manager_run sys grp ensureCache cfg es m \<Longrightarrow> \<forall>xs. mset (sched xs) = mset xs \<Longrightarrow>
    Shutdown sys sched id drained m = Some (e, m') \<Longrightarrow> manager_run sys grp ensureCache cfg es m'"

text \<open>The simulation relation: the invariant, the history leads to the leases, and every granted
  handle is an odd token of a registered instance.\<close>

definition sim :: "lease_event list \<Rightarrow> 'w mgr \<Rightarrow> bool" where
  "sim es m \<longleftrightarrow> mgr_inv m \<and> lease_run es Map.empty = Some (leases m) \<and>
     (\<forall>a t. Granted a t \<in> set es \<longrightarrow> odd t \<and> a \<in> registered m)"

lemma registered_releaser: "mgr_inv m \<Longrightarrow> a \<in> registered m \<Longrightarrow> in_hasReleaser (co_heap m a)"
  by (auto simp: mgr_inv_def registered_def split: option.splits)

lemma lease_odd: "leases m a = Some t \<Longrightarrow> odd t \<and> a \<in> registered m"
  by (auto simp: leases_def registered_def IsBusy_odd split: option.splits if_splits)

lemma stale_handle:
  assumes "mgr_inv m" and "a \<in> registered m" and "odd t" and "leases m a \<noteq> Some t"
  shows "\<not> isCurrentToken (co_heap m a) t"
  using assms by (auto simp: leases_def registered_def isCurrentToken_def IsBusy_odd split: option.splits)

lemma sim_silent:
  "sim es m \<Longrightarrow> mgr_inv m' \<Longrightarrow> leases m' = leases m \<Longrightarrow> registered m \<subseteq> registered m' \<Longrightarrow> sim es m'"
  by (auto simp: sim_def)

lemma sim_new: "NewManagerWithConfig cfg w = Ret m \<Longrightarrow> sim [] m"
  by (auto simp: NewManagerWithConfig_def sim_def mgr_inv_def leases_def NewPortRegistry_def split: if_splits)

lemma sim_acquire:
  assumes "sim es m" and "granted (Ret r) m m'"
  shows "sim (es @ [case r of Inr (a, t) \<Rightarrow> Granted a t | Inl _ \<Rightarrow> Refused]) m'"
proof (cases r)
  case (Inl e)
  with assms show ?thesis by (auto simp: sim_def granted_def lease_run_append)
next
  case (Inr at)
  obtain a t where at: "at = (a, t)" by fastforce
  have "leases m' a = Some t" using assms(2) Inr at by (simp add: granted_def)
  from lease_odd [OF this] assms Inr at show ?thesis by (auto simp: sim_def granted_def lease_run_append)
qed

lemma sim_release:
  assumes "sim es m" and "Granted a t \<in> set es" and "manager_Release sys a t m = (out, m')"
  shows "(\<exists>r. out = Ret r) \<and> sim (es @ [Returned a t]) m' \<or> (\<exists>x. out = Panic x) \<and> m' = m \<and> sim (es @ [Rejected a t]) m'"
proof -
  have m: "mgr_inv m" "odd t" "a \<in> registered m" using assms(1,2) by (auto simp: sim_def)
  show ?thesis
  proof (cases "leases m a = Some t")
    case True
    then obtain r m1 where "manager_Release sys a t m = (Ret r, m1)" "mgr_back a t m m1"
      using mr.Release_returns [of m a t sys] m(1) unfolding manager_Release_def by blast
    with assms True show ?thesis by (auto simp: sim_def mgr_back_def lease_run_append)
  next
    case False
    obtain x where "manager_Release sys a t m = (Panic x, m)"
      using mr.Release_stale [OF registered_releaser [OF m(1,3)] stale_handle [OF m(1,3,2) False]]
      unfolding manager_Release_def by blast
    with assms False show ?thesis by (auto simp: sim_def lease_run_append)
  qed
qed

lemma manager_run_sim:
  assumes laws: "group_law grp" "net_law sys" "ctx_law sys" "cache_law ensureCache"
    and run: "manager_run sys grp ensureCache cfg es m"
  shows "sim es m"
  using run
proof (induction rule: manager_run.induct)
  case (run_new w m)
  then show ?case by (rule sim_new)
next
  case (run_init es m sched c r m')
  then have "mgr_inv m" by (simp add: sim_def)
  from Initialize_ok [OF laws(4) this run_init(2)] run_init(3) show ?case by (auto intro: sim_silent)
next
  case (run_grant es m c ev a t m')
  then have "mgr_inv m" by (simp add: sim_def)
  from sim_acquire [OF run_grant(3) manager_Acquire_alone [OF laws(1,2) this disjI1 [OF refl] run_grant(2)]]
  show ?case by simp
next
  case (run_refuse es m c ev e m')
  then have "mgr_inv m" by (simp add: sim_def)
  from sim_acquire [OF run_refuse(3) manager_Acquire_alone [OF laws(1,2) this disjI1 [OF refl] run_refuse(2)]]
  show ?case by simp
next
  case (run_return es m a t r m')
  from sim_release [OF run_return(4,2,3)] show ?case by auto
next
  case (run_reject es m a t msg m')
  from sim_release [OF run_reject(4,2,3)] show ?case by auto
next
  case (run_shutdown es m sched drained e m')
  then have inv: "mgr_inv m" by (simp add: sim_def)
  have "shut_down m' \<and> leases m' = leases (id (beginShutdown m)) \<and> registered m' = registered (id (beginShutdown m))"
    by (rule Shutdown_shut [OF laws(3) inv _ _ run_shutdown(3)]) (use run_shutdown(2) in \<open>auto dest: mset_eq_setD\<close>)
  with beginShutdown_inv [OF inv] run_shutdown(4) show ?case
    by (auto intro!: sim_silent [of es m] simp: shut_down_def registered_def)
qed


lemma leases_busy: "mg_pool m = Some p \<Longrightarrow> dom (leases m) = set (busy p (co_heap m))"
  by (auto simp: leases_def busy_def dom_def)

lemma leases_bound:
  assumes "mgr_inv m" and "0 < mc_PoolSize (mg_cfg m)"
  shows "int (card (dom (leases m))) \<le> mc_PoolSize (mg_cfg m)"
proof (cases "mg_pool m")
  case None
  then have "leases m = Map.empty" by (simp add: leases_def fun_eq_iff)
  with assms(2) show ?thesis by simp
next
  case (Some p)
  with assms have p: "pool_inv p m" "int (po_maxSize p) = mc_PoolSize (mg_cfg m)" by (simp_all add: mgr_inv_def)
  then obtain k where "po_sem p = Some k" using assms(2) by (auto simp: pool_inv_def)
  with p have "length (busy p (co_heap m)) \<le> po_maxSize p" by (auto simp: pool_inv_def)
  moreover have "card (set (busy p (co_heap m))) \<le> length (busy p (co_heap m))" by (rule card_length)
  ultimately show ?thesis using p(2) leases_busy [OF Some] by simp
qed

subsection \<open>The interface to the CRD cache\<close>

text \<open>What the manager asks of the cache it calls while it initializes: under the laws of the libraries
  the cache itself uses, the ports it reserved are given back. The rest of the manager follows.\<close>

locale crd_cache =
  fixes ensureCache :: "'w ensure_cache" and usable :: bool
  assumes gives_back: "usable \<Longrightarrow> ensureCache c cfg r w = (res, r', w') \<Longrightarrow> r' = r"
begin

lemma law: "usable \<Longrightarrow> cache_law ensureCache"
  unfolding cache_law_def using gives_back by blast

lemma run_refines:
  assumes "usable" and "group_law grp" and "net_law sys" and "ctx_law sys" and "manager_run sys grp ensureCache cfg es m"
  shows "mgr_inv m \<and> lease_run es Map.empty = Some (leases m) \<and>
    grants a es = returns a es + (if leases m a = None then 0 else 1)"
proof -
  from manager_run_sim [OF assms(2-4) law [OF assms(1)] assms(5)]
  have "mgr_inv m" and run: "lease_run es Map.empty = Some (leases m)" by (simp_all add: sim_def)
  with lease_run_balance [OF run, of a] show ?thesis by simp
qed

end

subsection \<open>Properties\<close>

text \<open>The core package refines the table of leases: after any run of \<^verbatim>\<open>Initialize\<close>, \<^verbatim>\<open>Acquire\<close>,
  \<^verbatim>\<open>Release\<close> and \<^verbatim>\<open>Shutdown\<close> calls on a new manager, with every error path the outside world can force
  and with clients that release twice, the history the clients saw is one the table allows and leads
  to the manager's leases, and the manager's invariant holds.\<close>

theorem manager_run_refines:
  assumes "group_law grp" and "net_law sys" and "ctx_law sys" and "cache_law ensureCache"
    and "manager_run sys grp ensureCache cfg es m"
  shows "mgr_inv m \<and> lease_run es Map.empty = Some (leases m)"
  using manager_run_sim [OF assms] by (simp add: sim_def)

text \<open>At every point of such a run each instance was granted as often as it was returned, or once
  more when it is leased now: no instance has two holders, and a release is accepted once per
  acquisition. No more instances are leased than the configured size of a bounded pool, and the
  reserved ports are exactly those of the started instances, each held by one of them.\<close>

theorem manager_run_exclusive:
  assumes "group_law grp" and "net_law sys" and "ctx_law sys" and "cache_law ensureCache"
    and "manager_run sys grp ensureCache cfg es m"
  shows "grants a es = returns a es + (if leases m a = None then 0 else 1) \<and>
    (0 < mc_PoolSize (mg_cfg m) \<longrightarrow> int (card (dom (leases m))) \<le> mc_PoolSize (mg_cfg m)) \<and>
    ports (co_reg m) = (\<Union>b \<in> registered m. owned (co_heap m b)) \<and>
    (\<forall>b \<in> registered m. \<forall>d \<in> registered m. b \<noteq> d \<longrightarrow> owned (co_heap m b) \<inter> owned (co_heap m d) = {})"
proof -
  from manager_run_sim [OF assms] have inv: "mgr_inv m" and run: "lease_run es Map.empty = Some (leases m)"
    by (simp_all add: sim_def)
  have "ports (co_reg m) = (\<Union>b \<in> registered m. owned (co_heap m b)) \<and>
    (\<forall>b \<in> registered m. \<forall>d \<in> registered m. b \<noteq> d \<longrightarrow> owned (co_heap m b) \<inter> owned (co_heap m d) = {})"
    using inv by (cases "mg_pool m") (simp_all add: mgr_inv_def registered_def accounts_on_def)
  with lease_run_balance [OF run, of a] leases_bound [OF inv] show ?thesis by simp
qed

subsection \<open>Witnesses\<close>

text \<open>A run that initializes a manager, acquires a fresh instance, releases it and releases it again.\<close>

definition keep_cache :: "nat ensure_cache" where "keep_cache c cfg r w = (Inr [], r, w)"

lemma keep_cache_law: "cache_law keep_cache"
  by (simp add: cache_law_def keep_cache_def)

definition sample_ready :: "nat mgr \<Rightarrow> bool" where
  "sample_ready m \<longleftrightarrow> mg_state m = managerReady \<and> co_world m = 0 \<and> co_reg m = NewPortRegistry \<and> mg_cfg m = sample_cfg \<and>
     mg_cachedDBPath m = [] \<and> (\<exists>p. mg_pool m = Some p \<and> po_free p = [] \<and> \<not> po_closed p \<and> po_sem p = Some 1)"

lemma sample_Initialize:
  "\<exists>m m'. NewManagerWithConfig sample_cfg (0 :: nat) = Ret m \<and>
     Initialize counting_net keep_cache id 1 m = (Ret None, m') \<and> sample_ready m'"
proof -
  obtain m where m: "NewManagerWithConfig sample_cfg (0 :: nat) = Ret m"
    using sample_cfg_valid by (simp add: NewManagerWithConfig_def)
  then have "\<exists>m'. Initialize counting_net keep_cache id 1 m = (Ret None, m') \<and> sample_ready m'"
    using sample_cfg_valid
    by (auto simp: NewManagerWithConfig_def Initialize_def finishInitialize_def doInitialize_def EnsureDir_def counting_net_quiet
        sample_cfg_def NewPool_def Let_def sample_ready_def)
  with m show ?thesis by blast
qed

lemma sample_Acquire:
  assumes "sample_ready m"
  shows "\<exists>a t m'. manager_Acquire counting_net seq_group id id 1 GotSlot m = Some (Ret (Inr (a, t)), m') \<and> (\<exists>p. mg_pool m' = Some p \<and> \<not> po_closed p)"
proof -
  from assms obtain p where m: "mg_state m = managerReady" "co_world m = 0" "co_reg m = NewPortRegistry" "mg_cfg m = sample_cfg"
      "mg_cachedDBPath m = []" "mg_pool m = Some p" "po_free p = []" "\<not> po_closed p" "po_sem p = Some 1"
    unfolding sample_ready_def by blast
  have live: "os_ctx_err counting_net 2 w = None" "os_ctx_with_timeout counting_net (Suc 0) d w = (2, w)"
    "os_rand_uint32 counting_net w = (0, w)" for w d
    by (simp_all add: counting_net_def quiet_os_def numeral_2_eq_2)
  let ?id = "''inst-'' @ show_int (po_nextIdx p) @ ''-'' @ hex_digits 8 0"
  let ?dir = "filepath_Join [''/b'', ?id]"
  have dir: "?dir \<noteq> []" by (rule filepath_Join_not_Nil [of ?id]) simp_all
  have valid: "ic_Validate (manager_inst_config m) = None"
    using m(4) sample_cfg_valid by (intro manager_inst_config_valid) simp
  obtain i where i: "NewInstance \<lparr>np_ID = ?id, np_DataDir = ?dir, np_hasReleaser = True, np_hasPorts = True,
      np_Config = manager_inst_config m\<rparr> = Ret i"
    using dir valid by (simp add: NewInstance_def)
  then have fields: "in_gen i = 0" "in_started i = False" "in_hasPorts i" "in_cfg i = manager_inst_config m" "in_dataDir i \<noteq> []"
    "in_sqlitePath i = filepath_Join [?dir, ''db'', ''state.db'']" "in_kubeconfig i = filepath_Join [?dir, ''kubeconfig.yaml'']"
    "inst_inv i"
    using NewInstance_inv [OF i] dir valid by (auto simp: NewInstance_def)
  have ne: "in_sqlitePath i \<noteq> []" "in_kubeconfig i \<noteq> []"
    using filepath_Join_not_Nil [of "?dir"] dir fields(6,7) by auto
  have inv1: "inst_inv (i\<lparr>in_gen := 1\<rparr>)" using fields(8) by (simp add: inst_inv_def)
  have "\<exists>i' r' w'. inst_Start counting_net seq_group (i\<lparr>in_gen := 1\<rparr>) 2 NewPortRegistry 0 = (None, i', r', w')"
    by (rule counting_inst_Start [OF inv1]) (use fields ne m(5) in \<open>simp_all add: manager_inst_config_def\<close>)
  then obtain i' r' w' where st:
    "inst_Start counting_net seq_group (i\<lparr>in_gen := 1\<rparr>) 2 NewPortRegistry 0 = (None, i', r', w')" by blast
  have "\<exists>a m'. manager_Acquire counting_net seq_group id id 1 GotSlot m = Some (Ret (Inr (a, 1)), m') \<and> (\<exists>p. mg_pool m' = Some p \<and> \<not> po_closed p)"
    using m live i st fields(1,2)
    by (simp add: manager_Acquire_def pool_Acquire_def takeSlot_def acquireUnlocked_def popFree_def manager_factory_def
        instanceFactory_def genID_def alloc_inst_def registerNew_def markAcquired_def set_inst_def acquireStarted_def startHeld_def
        IsStarted_def inst_call_def sample_cfg_def Let_def)
  then show ?thesis by blast
qed

lemma sample_run_grant:
  "\<exists>a t m. manager_run counting_net seq_group keep_cache sample_cfg [Granted a t] m \<and> (\<exists>p. mg_pool m = Some p \<and> \<not> po_closed p)"
proof -
  obtain m m' where new: "NewManagerWithConfig sample_cfg 0 = Ret m"
    and init: "Initialize counting_net keep_cache id 1 m = (Ret None, m')" "sample_ready m'"
    using sample_Initialize by blast
  obtain a t m'' where acq: "manager_Acquire counting_net seq_group id id 1 GotSlot m' = Some (Ret (Inr (a, t)), m'')"
    and pool: "\<exists>p. mg_pool m'' = Some p \<and> \<not> po_closed p" using sample_Acquire [OF init(2)] by blast
  from run_grant [OF run_init [OF run_new [OF new] init(1)] acq] pool show ?thesis by auto
qed

lemmas sample_sim = manager_run_sim [OF seq_group_law counting_net_law counting_net_ctx keep_cache_law]

lemma sample_run_full:
  "\<exists>a t m. manager_run counting_net seq_group keep_cache sample_cfg [Granted a t, Returned a t, Rejected a t] m"
proof -
  obtain a t m where run: "manager_run counting_net seq_group keep_cache sample_cfg [Granted a t] m"
    using sample_run_grant by blast
  from sample_sim [OF run] have "mgr_inv m \<and> leases m a = Some t" by (auto simp: sim_def dest!: fun_cong [of _ _ a])
  then obtain r m1 where "manager_Release counting_net a t m = (Ret r, m1)"
    using mr.Release_returns [of m a t counting_net] unfolding manager_Release_def by blast
  from run_return [OF run _ this] have run1:
    "manager_run counting_net seq_group keep_cache sample_cfg [Granted a t, Returned a t] m1" by simp
  obtain out m2 where rel: "manager_Release counting_net a t m1 = (out, m2)" by fastforce
  have "\<not> sim [Granted a t, Returned a t, Returned a t] m2" by (simp add: sim_def)
  with sim_release [OF sample_sim [OF run1] _ rel] obtain x where "out = Panic x" by auto
  with run_reject [OF run1, of a t x m2] rel show ?thesis by auto
qed

theorem manager_run_refines_witness:
  "\<exists>a t m. manager_run counting_net seq_group keep_cache sample_cfg [Granted a t, Returned a t, Rejected a t] m \<and>
     leases m = Map.empty"
proof -
  obtain a t m where run: "manager_run counting_net seq_group keep_cache sample_cfg
      [Granted a t, Returned a t, Rejected a t] m" using sample_run_full by blast
  from manager_run_refines [OF seq_group_law counting_net_law counting_net_ctx keep_cache_law run] run show ?thesis
    by fastforce
qed

theorem manager_run_exclusive_witness:
  "\<exists>a t m. manager_run counting_net seq_group keep_cache sample_cfg [Granted a t] m \<and> leases m a \<noteq> None"
proof -
  obtain a t m where run: "manager_run counting_net seq_group keep_cache sample_cfg [Granted a t] m"
    using sample_run_grant by blast
  from manager_run_exclusive [OF seq_group_law counting_net_law counting_net_ctx keep_cache_law run, of a] run
  show ?thesis by (auto simp: grants_def returns_def split: if_splits)
qed

end
