(* ===== verification/Races.thy ===== *)
theory Races
  imports Leases
begin

text \<open>
  Three interleavings of \<^verbatim>\<open>Shutdown\<close> with the other handlers of the manager that the comments in
  \<^verbatim>\<open>manager.go\<close> exclude and the code admits. Each is a run of the sections of the theory \<open>Manager\<close> in
  an order that no lock or atomic operation of the code forbids.
\<close>

definition down_mgr :: "nat mgr" where
  "down_mgr = held_mgr\<lparr>mg_state := managerShuttingDown, mg_inflightDone := True, mg_pool := Some (pool_Close held_pool)\<rparr>"

lemma stop_sample:
  assumes "co_heap m 0 = sample_inst"
  shows "stopAllInstances counting_net id [0] d (m :: nat mgr) = (None, m)"
proof -
  have live: "os_ctx_err counting_net c w = None" for c w by (simp add: counting_net_def quiet_os_def)
  have stop: "inst_Stop counting_net sample_inst c r w = (None, sample_inst, r, w)" for c r w
    using inst_Stop_idle [OF sample_inst_inv] live by (metis prod_cases4)
  have "inst_call 0 (\<lambda>i r w. inst_Stop counting_net i c r w) (m\<lparr>co_world := w\<rparr>) = (None, m\<lparr>co_world := w\<rparr>)" for c w
    using assms by (cases m) (simp add: inst_call_def stop set_inst_def fun_upd_idem)
  then show ?thesis by (cases m) (simp add: stopAllInstances_def counting_net_quiet errors_Join_def)
qed

lemma held_shutdown: "Shutdown counting_net id id True held_mgr = Some (None, down_mgr)"
proof -
  have b: "beginShutdown held_mgr = held_mgr\<lparr>mg_state := managerShuttingDown, mg_inflightDone := True\<rparr>"
    by (simp add: beginShutdown_def held_mgr_def idle_mgr_def Let_def)
  have pool: "mg_pool held_mgr = Some held_pool" "Instances (pool_Close held_pool) = [0]"
    by (simp_all add: held_mgr_def held_pool_def Instances_def pool_Close_def)
  have "co_heap down_mgr 0 = sample_inst"
    by (simp add: down_mgr_def held_mgr_def template_inst_def sample_inst_def)
  from stop_sample [OF this] show ?thesis
    by (simp add: Shutdown_def b finishShutdown_def pool Let_def down_mgr_def)
qed

text \<open>
  An \<^verbatim>\<open>Acquire\<close> that has passed its second look at the state is not waited for: \<^verbatim>\<open>Shutdown\<close> finds no
  release in flight, closes the pool and stops every instance, and then \<^verbatim>\<open>Acquire\<close> starts its
  instance and returns it. The started instance and its two ports survive the shutdown.
\<close>

theorem acquire_survives_shutdown:
  "acquireStarted counting_net seq_group 2 0 1 held_mgr = startHeld counting_net seq_group 2 0 1 held_mgr \<and>
   Shutdown counting_net id id True held_mgr = Some (None, down_mgr) \<and>
   (\<exists>m. startHeld counting_net seq_group 2 0 1 down_mgr = (Ret (Inr (0, 1)), m) \<and>
      mg_state m = managerShuttingDown \<and> in_started (co_heap m 0) \<and> ports (co_reg m) \<noteq> {})"
proof -
  have pre: "acquireStarted counting_net seq_group 2 0 1 held_mgr = startHeld counting_net seq_group 2 0 1 held_mgr"
    by (simp add: acquireStarted_def held_mgr_def idle_mgr_def)
  have held: "co_heap down_mgr 0 = sample_inst" "co_reg down_mgr = NewPortRegistry" "co_world down_mgr = 0"
    by (simp_all add: down_mgr_def held_mgr_def idle_mgr_def template_inst_def sample_inst_def)
  obtain i r w where st: "inst_Start counting_net seq_group sample_inst 2 NewPortRegistry 0 = (None, i, r, w)"
    using sample_attempt by blast
  from inst_Start_post [OF seq_group_law counting_net_law sample_inst_inv st] have
    "in_started i" "inst_inv i" "ports r = owned i" by (auto simp: start_post_def NewPortRegistry_def)
  then have "in_started i" "ports r \<noteq> {}" by (auto simp: inst_inv_def owned_def)
  with pre held_shutdown held st sample_inst_inv(2) show ?thesis
    by (simp add: startHeld_def IsStarted_def inst_call_def set_inst_def down_mgr_def)
qed

text \<open>
  \<^verbatim>\<open>Initialize\<close> stores the state it wants without looking at it again: when \<^verbatim>\<open>Shutdown\<close> runs while
  \<^verbatim>\<open>doInitialize\<close> is under way, it sees no pool and returns, and the end of \<^verbatim>\<open>Initialize\<close> makes the
  manager ready. Every later \<^verbatim>\<open>Acquire\<close> passes both of its looks at the state.
\<close>

theorem initialize_undoes_shutdown:
  assumes "mg_state m = managerInitializing" and "mg_pool m = None" and "mg_inflight m = 0"
    and "Shutdown sys sched id drained m = Some (e, m1)" and "doInitialize sys ensureCache c m1 = (Ret None, m2)"
  shows "e = None \<and> mg_state m1 = managerShuttingDown \<and>
    (\<exists>m3. finishInitialize sys sched' (Ret None, m2) = (Ret None, m3) \<and> mg_state m3 = managerReady)"
  using assms
  by (auto simp: Shutdown_def beginShutdown_def finishShutdown_def finishInitialize_def Let_def split: if_splits)

text \<open>
  The deferred function of \<^verbatim>\<open>tryReleaseToPool\<close> compares the counter with zero before it looks at the
  state. A release that counted down to zero, a second one that entered and saw a ready manager, then
  the store and the load of \<^verbatim>\<open>Shutdown\<close>, then the first one's look at the state: the drain is over
  while the second release is still inside its window.
\<close>

theorem drain_ends_early:
  assumes "mg_state m = managerReady" and "mg_inflight m = 1" and "decInflight m = (zero, m1)"
  shows "let m2 = m1\<lparr>mg_inflight := mg_inflight m1 + 1\<rparr>; m3 = beginShutdown m2; m4 = noteDrained zero m3
    in mg_state m2 \<noteq> managerShuttingDown \<and> mg_inflightDone m3 = mg_inflightDone m \<and>
       mg_inflightDone m4 \<and> mg_inflight m4 = 1"
  using assms by (auto simp: decInflight_def noteDrained_def beginShutdown_def Let_def)

end
