(* ===== verification/Protocol.thy ===== *)
theory Protocol
  imports Leases
begin

text \<open>
  The pool under concurrency: any number of goroutines run \<^verbatim>\<open>Acquire\<close>, \<^verbatim>\<open>Release\<close>, \<^verbatim>\<open>ReleaseFailed\<close> and
  \<^verbatim>\<open>Close\<close>, and a step is one section of one of them: a channel operation, an atomic operation on a
  generation, the code between two uses of the mutex, a call of the factory or the stop of an
  instance. The sections are the definitions of the theory \<open>Pool\<close>, so the interleavings are those of
  the code that its operations compose.
\<close>

subsection \<open>Program counters\<close>

text \<open>Where a goroutine stands between two sections, with its local variables.\<close>

datatype pc =
    Idle
  | AWait ctx
  | ASlot
  | APopped nat
  | ANew int
  | AMade nat
  | AClosedNew nat
  | AStop nat
  | Holds nat "64 word"
  | RConsumed nat
  | RStop nat
  | RSlot
  | CClosing
  | Crashed string

text \<open>What the goroutines share.\<close>

record 'w shared = "'w core" +
  sh_pool :: pool

text \<open>The two sections of \<^verbatim>\<open>Close\<close>: the fields under the mutex, then the channel.\<close>

definition closeLocked :: "pool \<Rightarrow> pool" where
  "closeLocked p = p\<lparr>po_closed := True, po_free := []\<rparr>"

definition closeChan :: "pool \<Rightarrow> pool" where
  "closeChan p = p\<lparr>po_closeCh := map_option (\<lambda>_. True) (po_closeCh p)\<rparr>"

lemma pool_Close_sections: "pool_Close p = closeChan (closeLocked p)"
  by (simp add: pool_Close_def closeChan_def closeLocked_def)

subsection \<open>Steps\<close>

text \<open>
  \<open>sect pc s pc' s'\<close>: a goroutine at \<open>pc\<close> runs one section on the shared state. An idle goroutine may
  call \<^verbatim>\<open>Acquire\<close> or \<^verbatim>\<open>Close\<close>, a holder \<^verbatim>\<open>Release\<close> or \<^verbatim>\<open>ReleaseFailed\<close>; the \<^verbatim>\<open>select\<close> takes any branch that is
  ready.
\<close>

inductive sect ::
  "'w os \<Rightarrow> (int \<Rightarrow> 'w shared \<Rightarrow> (go_error + nat) outcome \<times> 'w shared) \<Rightarrow> pc \<Rightarrow> 'w shared \<Rightarrow> pc \<Rightarrow> 'w shared \<Rightarrow> bool"
  for sys factory where
  acquire_ended: "os_ctx_err sys c (co_world s) = Some ce \<Longrightarrow> sect sys factory Idle s Idle s"
| acquire_call: "os_ctx_err sys c (co_world s) = None \<Longrightarrow> sect sys factory Idle s (AWait c) s"
| slot_refused: "takeSlot sys c ev (co_world s) (sh_pool s) = Some (Some e, p) \<Longrightarrow>
    sect sys factory (AWait c) s Idle (s\<lparr>sh_pool := p\<rparr>)"
| slot_taken: "takeSlot sys c ev (co_world s) (sh_pool s) = Some (None, p) \<Longrightarrow>
    sect sys factory (AWait c) s ASlot (s\<lparr>sh_pool := p\<rparr>)"
| pop_closed: "popFree (sh_pool s) = (AcqClosed, p) \<Longrightarrow> sect sys factory ASlot s RSlot (s\<lparr>sh_pool := p\<rparr>)"
| pop_free: "popFree (sh_pool s) = (AcqPop a, p) \<Longrightarrow> sect sys factory ASlot s (APopped a) (s\<lparr>sh_pool := p\<rparr>)"
| pop_new: "popFree (sh_pool s) = (AcqNew idx, p) \<Longrightarrow> sect sys factory ASlot s (ANew idx) (s\<lparr>sh_pool := p\<rparr>)"
| mark: "markAcquired (co_heap s a) = (t, i) \<Longrightarrow> sect sys factory (APopped a) s (Holds a t) (set_inst a i s)"
| make: "factory idx s = (Ret (Inr a), s') \<Longrightarrow> sect sys factory (ANew idx) s (AMade a) s'"
| make_fail: "factory idx s = (Ret (Inl e), s') \<Longrightarrow> sect sys factory (ANew idx) s RSlot s'"
| make_panic: "factory idx s = (Panic m, s') \<Longrightarrow> sect sys factory (ANew idx) s (Crashed m) s'"
| register: "registerNew a (sh_pool s) = (False, p) \<Longrightarrow> sect sys factory (AMade a) s (APopped a) (s\<lparr>sh_pool := p\<rparr>)"
| register_closed: "registerNew a (sh_pool s) = (True, p) \<Longrightarrow> sect sys factory (AMade a) s (AClosedNew a) (s\<lparr>sh_pool := p\<rparr>)"
| return_new: "returnSlot (sh_pool s) = (Ret u, p) \<Longrightarrow> sect sys factory (AClosedNew a) s (AStop a) (s\<lparr>sh_pool := p\<rparr>)"
| return_new_panic: "returnSlot (sh_pool s) = (Panic m, p) \<Longrightarrow> sect sys factory (AClosedNew a) s (Crashed m) (s\<lparr>sh_pool := p\<rparr>)"
| stop_new: "sect sys factory (AStop a) s Idle (stopInstanceBestEffort sys a s)"
| release: "mustRelease (co_heap s a) t = (Ret u, i) \<Longrightarrow> sect sys factory (Holds a t) s (RConsumed a) (set_inst a i s)"
| release_failed: "mustRelease (co_heap s a) t = (Ret u, i) \<Longrightarrow> sect sys factory (Holds a t) s (RStop a) (set_inst a i s)"
| release_panic: "mustRelease (co_heap s a) t = (Panic m, i) \<Longrightarrow> sect sys factory (Holds a t) s (Crashed m) s"
| push: "pushFree a (sh_pool s) = (False, p) \<Longrightarrow> sect sys factory (RConsumed a) s RSlot (s\<lparr>sh_pool := p\<rparr>)"
| push_closed: "pushFree a (sh_pool s) = (True, p) \<Longrightarrow> sect sys factory (RConsumed a) s (RStop a) (s\<lparr>sh_pool := p\<rparr>)"
| stop: "sect sys factory (RStop a) s RSlot (stopInstanceBestEffort sys a s)"
| return_slot: "returnSlot (sh_pool s) = (Ret u, p) \<Longrightarrow> sect sys factory RSlot s Idle (s\<lparr>sh_pool := p\<rparr>)"
| return_slot_panic: "returnSlot (sh_pool s) = (Panic m, p) \<Longrightarrow> sect sys factory RSlot s (Crashed m) (s\<lparr>sh_pool := p\<rparr>)"
| close: "sect sys factory Idle s CClosing (s\<lparr>sh_pool := closeLocked (sh_pool s)\<rparr>)"
| close_chan: "sect sys factory CClosing s Idle (s\<lparr>sh_pool := closeChan (sh_pool s)\<rparr>)"

text \<open>The goroutines, by their numbers, start idle on a new pool of the given size and take turns.\<close>

inductive pool_reach ::
  "'w os \<Rightarrow> (int \<Rightarrow> 'w shared \<Rightarrow> (go_error + nat) outcome \<times> 'w shared) \<Rightarrow> int \<Rightarrow> 'w shared \<Rightarrow> (nat \<Rightarrow> pc) \<Rightarrow> bool"
  for sys factory size where
  reach_new: "NewPool True size = Ret (sh_pool s) \<Longrightarrow> pool_reach sys factory size s (\<lambda>_. Idle)"
| reach_step: "pool_reach sys factory size s pcs \<Longrightarrow> sect sys factory (pcs t) s pc' s' \<Longrightarrow>
    pool_reach sys factory size s' (pcs(t := pc'))"

subsection \<open>The invariant\<close>

text \<open>The instance a goroutine has in its hands, and whether it has taken a slot.\<close>

fun own :: "pc \<Rightarrow> nat option" where
  "own (APopped a) = Some a"
| "own (AMade a) = Some a"
| "own (AClosedNew a) = Some a"
| "own (AStop a) = Some a"
| "own (Holds a t) = Some a"
| "own (RConsumed a) = Some a"
| "own (RStop a) = Some a"
| "own _ = None"

fun has_slot :: "pc \<Rightarrow> bool" where
  "has_slot Idle = False"
| "has_slot (AWait c) = False"
| "has_slot (AStop a) = False"
| "has_slot CClosing = False"
| "has_slot (Crashed m) = False"
| "has_slot _ = True"

fun made :: "pc \<Rightarrow> bool" where
  "made (AMade a) = True"
| "made _ = False"

fun gen_ok :: "pc \<Rightarrow> 64 word \<Rightarrow> bool" where
  "gen_ok (Holds a t) g \<longleftrightarrow> g = t \<and> odd g"
| "gen_ok (Crashed m) g \<longleftrightarrow> False"
| "gen_ok _ g \<longleftrightarrow> even g"

text \<open>Semaphore: a token is in the channel or with one goroutine, or it is one of \<open>l\<close> that were abandoned:
  no section of the pool does that, but the manager does while it shuts down.\<close>

definition sem_inv :: "nat \<Rightarrow> pool \<Rightarrow> (nat \<Rightarrow> pc) \<Rightarrow> bool" where
  "sem_inv l p pcs \<longleftrightarrow> finite {t. has_slot (pcs t)} \<and> (po_sem p = None \<longleftrightarrow> po_maxSize p = 0) \<and>
     (\<forall>k. po_sem p = Some k \<longrightarrow> card {t. has_slot (pcs t)} + k + l = po_maxSize p)"

text \<open>Instances: one in the free stack is in nobody's hands, and one in somebody's hands is in nobody
  else's; the generation of a held instance is the holder's token, every other one is even.\<close>

definition own_inv :: "pool \<Rightarrow> (nat \<Rightarrow> 64 word) \<Rightarrow> nat \<Rightarrow> (nat \<Rightarrow> pc) \<Rightarrow> bool" where
  "own_inv p g n pcs \<longleftrightarrow> distinct (po_all p) \<and> distinct (po_free p) \<and> set (po_free p) \<subseteq> set (po_all p) \<and>
     (\<forall>a \<in> set (po_all p). a < n) \<and> (\<forall>a \<in> set (po_free p). even (g a)) \<and>
     (\<forall>t a. own (pcs t) = Some a \<longrightarrow> a < n \<and> a \<notin> set (po_free p) \<and> gen_ok (pcs t) (g a) \<and>
        (a \<in> set (po_all p) \<longleftrightarrow> \<not> made (pcs t))) \<and>
     (\<forall>t u a. own (pcs t) = Some a \<longrightarrow> own (pcs u) = Some a \<longrightarrow> t = u) \<and>
     (\<forall>t m. pcs t \<noteq> Crashed m)"

definition conc_inv :: "nat \<Rightarrow> 'w shared \<Rightarrow> (nat \<Rightarrow> pc) \<Rightarrow> bool" where
  "conc_inv l s pcs \<longleftrightarrow> sem_inv l (sh_pool s) pcs \<and> own_inv (sh_pool s) (\<lambda>a. in_gen (co_heap s a)) (co_next s) pcs"

lemma slots_update:
  "{u. has_slot ((pcs(t := x)) u)} =
     (if has_slot x then insert t {u. has_slot (pcs u)} else {u. has_slot (pcs u)} - {t})"
  by auto

text \<open>A step that takes no slot and returns none.\<close>

lemma sem_inv_same:
  "sem_inv l p pcs \<Longrightarrow> has_slot x = has_slot (pcs t) \<Longrightarrow> po_sem p' = po_sem p \<Longrightarrow> po_maxSize p' = po_maxSize p \<Longrightarrow>
     sem_inv l p' (pcs(t := x))"
  unfolding sem_inv_def slots_update by (auto simp: insert_absorb)

lemma sem_inv_take:
  assumes "sem_inv l p pcs" and "\<not> has_slot (pcs t)" and "takeSlot sys c ev w p = Some (None, p')"
  shows "sem_inv l p' (pcs(t := ASlot))"
  using assms unfolding sem_inv_def slots_update
  by (auto simp: takeSlot_def split: option.splits sem_event.splits if_splits)

lemma sem_inv_return:
  assumes "sem_inv l p pcs" and "has_slot (pcs t)" and "\<not> has_slot x"
  shows "\<exists>p'. returnSlot p = (Ret (), p') \<and> sem_inv l p' (pcs(t := x)) \<and> po_all p' = po_all p \<and> po_free p' = po_free p"
proof -
  let ?S = "{u. has_slot (pcs u)}"
  have S: "finite ?S" "t \<in> ?S" using assms by (auto simp: sem_inv_def)
  then have card: "Suc (card (?S - {t})) = card ?S" by (rule card_Suc_Diff1)
  let ?p = "p\<lparr>po_sem := map_option Suc (po_sem p)\<rparr>"
  have "returnSlot p = (Ret (), ?p)"
    using assms(1) card by (intro returnSlot_room) (auto simp: sem_inv_def)
  moreover have "sem_inv l ?p (pcs(t := x))"
    using assms S card unfolding sem_inv_def slots_update by auto
  ultimately show ?thesis by (intro exI [of _ ?p]) simp
qed

text \<open>What the invariant says of one goroutine, of two, and of the pool.\<close>

lemma own_invD:
  assumes "own_inv p g n pcs"
  shows "own (pcs t) = Some a \<Longrightarrow> a < n" and "own (pcs t) = Some a \<Longrightarrow> a \<notin> set (po_free p)"
    and "own (pcs t) = Some a \<Longrightarrow> gen_ok (pcs t) (g a)"
    and "own (pcs t) = Some a \<Longrightarrow> a \<in> set (po_all p) \<longleftrightarrow> \<not> made (pcs t)"
    and "own (pcs t) = Some a \<Longrightarrow> own (pcs u) = Some a \<Longrightarrow> t = u" and "pcs t \<noteq> Crashed m"
    and "distinct (po_all p)" and "distinct (po_free p)" and "set (po_free p) \<subseteq> set (po_all p)"
    and "a \<in> set (po_all p) \<Longrightarrow> a < n" and "a \<in> set (po_free p) \<Longrightarrow> even (g a)"
  using assms unfolding own_inv_def by blast+

lemma own_invI:
  assumes "distinct (po_all p)" and "distinct (po_free p)" and "set (po_free p) \<subseteq> set (po_all p)"
    and "\<And>a. a \<in> set (po_all p) \<Longrightarrow> a < n" and "\<And>a. a \<in> set (po_free p) \<Longrightarrow> even (g a)"
    and "\<And>t a. own (pcs t) = Some a \<Longrightarrow> a < n \<and> a \<notin> set (po_free p) \<and> gen_ok (pcs t) (g a) \<and>
        (a \<in> set (po_all p) \<longleftrightarrow> \<not> made (pcs t))"
    and "\<And>t u a. own (pcs t) = Some a \<Longrightarrow> own (pcs u) = Some a \<Longrightarrow> t = u"
    and "\<And>t m. pcs t \<noteq> Crashed m"
  shows "own_inv p g n pcs"
  using assms unfolding own_inv_def by blast

text \<open>A goroutine moves on with the instance it has, puts it down, or takes one off the free stack.\<close>

lemma own_inv_move:
  assumes inv: "own_inv p g n pcs" and p': "po_all p' = po_all p" "distinct (po_free p')" "set (po_free p') \<subseteq> set (po_free p)"
    and x: "\<And>a. own x = Some a \<Longrightarrow> gen_ok x (g a) \<and>
      (own (pcs t) = Some a \<and> made x = made (pcs t) \<or> a \<in> set (po_free p) - set (po_free p') \<and> \<not> made x)"
    and nc: "\<And>m. x \<noteq> Crashed m"
  shows "own_inv p' g n (pcs(t := x))"
proof (rule own_invI)
  note D = own_invD [OF inv]
  show "distinct (po_all p')" "distinct (po_free p')" "set (po_free p') \<subseteq> set (po_all p')"
    using D(7,9) p' by auto
  show "a < n" if "a \<in> set (po_all p')" for a using D(10) p' that by simp
  show "even (g a)" if "a \<in> set (po_free p')" for a using D(11) p' that by blast
  show "(pcs(t := x)) u \<noteq> Crashed m" for u m using D(6) nc by simp
  have fresh: "w = t" if "own x = Some a" "own (pcs w) = Some a" for w a
    using x [OF that(1)] D(5) [OF that(2), of t] D(2) [OF that(2)] by blast
  show "u = v" if "own ((pcs(t := x)) u) = Some a" "own ((pcs(t := x)) v) = Some a" for u v a
    using that fresh [of a u] fresh [of a v] D(5) [of u a v] by (auto split: if_splits)
  show "a < n \<and> a \<notin> set (po_free p') \<and> gen_ok ((pcs(t := x)) u) (g a) \<and>
      (a \<in> set (po_all p') \<longleftrightarrow> \<not> made ((pcs(t := x)) u))" if u: "own ((pcs(t := x)) u) = Some a" for u a
  proof (cases "u = t")
    case True
    with u have ox: "own x = Some a" by simp
    from x [OF this] have "a < n \<and> a \<notin> set (po_free p') \<and> (a \<in> set (po_all p) \<longleftrightarrow> \<not> made x)"
      using D(1,2,4) [of t a] D(9,10) p'(3) by blast
    with True x [OF ox] p'(1) show ?thesis by simp
  next
    case False
    with u have "own (pcs u) = Some a" by simp
    from D(1-4) [OF this] False p' show ?thesis by auto
  qed
qed

text \<open>A generation moves under the goroutine that has the instance.\<close>

lemma own_inv_gen:
  assumes inv: "own_inv p g n pcs" and t: "own (pcs t) = Some a" "\<not> made (pcs t)"
    and x: "own x = Some a" "\<not> made x" "gen_ok x k"
  shows "own_inv p (g(a := k)) n (pcs(t := x))"
proof (rule own_invI)
  note D = own_invD [OF inv]
  show "distinct (po_all p)" "distinct (po_free p)" "set (po_free p) \<subseteq> set (po_all p)"
    using D(7-9) by auto
  show "b < n" if "b \<in> set (po_all p)" for b using D(10) that .
  show "even ((g(a := k)) b)" if "b \<in> set (po_free p)" for b
    using D(2) [OF t(1)] D(11) [OF that] that by (metis fun_upd_other)
  show "(pcs(t := x)) u \<noteq> Crashed m" for u m
    using D(6) [of u m] x(1) by (cases "u = t") auto
  have same: "own ((pcs(t := x)) u) = own (pcs u)" for u using t(1) x(1) by simp
  show "u = v" if "own ((pcs(t := x)) u) = Some b" "own ((pcs(t := x)) v) = Some b" for u v b
    using D(5) that unfolding same .
  show "b < n \<and> b \<notin> set (po_free p) \<and> gen_ok ((pcs(t := x)) u) ((g(a := k)) b) \<and>
      (b \<in> set (po_all p) \<longleftrightarrow> \<not> made ((pcs(t := x)) u))" if u: "own ((pcs(t := x)) u) = Some b" for u b
  proof (cases "u = t")
    case True
    with u x(1) have "b = a" by simp
    with True x D(1,2,4) [OF t(1)] t(2) show ?thesis by simp
  next
    case False
    with u have b: "own (pcs u) = Some b" by simp
    with False D(5) [of u a t] t(1) have "b \<noteq> a" by blast
    with D(1-4) [OF b] False show ?thesis by simp
  qed
qed


text \<open>A consumed instance goes onto the free stack; a made one is registered; a fresh one is made.\<close>

lemma own_inv_push:
  assumes inv: "own_inv p g n pcs" and t: "pcs t = RConsumed a"
  shows "own_inv (p\<lparr>po_free := po_free p @ [a]\<rparr>) g n (pcs(t := RSlot))"
proof (rule own_invI)
  note D = own_invD [OF inv]
  have ta: "own (pcs t) = Some a" using t by simp
  note Da = D(1-4) [OF ta]
  show "distinct (po_all (p\<lparr>po_free := po_free p @ [a]\<rparr>))" "distinct (po_free (p\<lparr>po_free := po_free p @ [a]\<rparr>))"
    "set (po_free (p\<lparr>po_free := po_free p @ [a]\<rparr>)) \<subseteq> set (po_all (p\<lparr>po_free := po_free p @ [a]\<rparr>))"
    using D(7-9) Da(2,4) t by simp_all
  show "b < n" if "b \<in> set (po_all (p\<lparr>po_free := po_free p @ [a]\<rparr>))" for b using D(10) that by simp
  show "even (g b)" if "b \<in> set (po_free (p\<lparr>po_free := po_free p @ [a]\<rparr>))" for b
  proof (cases "b = a")
    case True
    with Da(3) t show ?thesis by simp
  qed (use D(11) that in simp)
  show "(pcs(t := RSlot)) u \<noteq> Crashed m" for u m using D(6) by simp
  show "u = v" if "own ((pcs(t := RSlot)) u) = Some b" "own ((pcs(t := RSlot)) v) = Some b" for u v b
    using D(5) [of u b v] that by (simp split: if_splits)
  show "b < n \<and> b \<notin> set (po_free (p\<lparr>po_free := po_free p @ [a]\<rparr>)) \<and> gen_ok ((pcs(t := RSlot)) u) (g b) \<and>
      (b \<in> set (po_all (p\<lparr>po_free := po_free p @ [a]\<rparr>)) \<longleftrightarrow> \<not> made ((pcs(t := RSlot)) u))"
    if u: "own ((pcs(t := RSlot)) u) = Some b" for u b
  proof -
    from u have ut: "u \<noteq> t" and ub: "own (pcs u) = Some b" by (simp_all split: if_splits)
    with D(5) [OF ub] ta have "b \<noteq> a" by blast
    with D(1-4) [OF ub] ut show ?thesis by simp
  qed
qed

lemma own_inv_register:
  assumes inv: "own_inv p g n pcs" and t: "pcs t = AMade a" and x: "x = APopped a \<or> x = AClosedNew a"
  shows "own_inv (p\<lparr>po_all := po_all p @ [a]\<rparr>) g n (pcs(t := x))"
proof (rule own_invI)
  note D = own_invD [OF inv]
  have ta: "own (pcs t) = Some a" using t by simp
  note Da = D(1-4) [OF ta]
  have ox: "own x = Some a" "\<not> made x" "gen_ok x (g a)" "\<And>m. x \<noteq> Crashed m" using x Da(3) t by auto
  show "distinct (po_all (p\<lparr>po_all := po_all p @ [a]\<rparr>))" "distinct (po_free (p\<lparr>po_all := po_all p @ [a]\<rparr>))"
    "set (po_free (p\<lparr>po_all := po_all p @ [a]\<rparr>)) \<subseteq> set (po_all (p\<lparr>po_all := po_all p @ [a]\<rparr>))"
    using D(7-9) Da(4) t by auto
  show "b < n" if "b \<in> set (po_all (p\<lparr>po_all := po_all p @ [a]\<rparr>))" for b using D(10) [of b] Da(1) that by auto
  show "even (g b)" if "b \<in> set (po_free (p\<lparr>po_all := po_all p @ [a]\<rparr>))" for b using D(11) that by simp
  show "(pcs(t := x)) u \<noteq> Crashed m" for u m using D(6) ox(4) by simp
  have same: "own ((pcs(t := x)) u) = own (pcs u)" for u using ta ox(1) by simp
  show "u = v" if "own ((pcs(t := x)) u) = Some b" "own ((pcs(t := x)) v) = Some b" for u v b
    using D(5) that unfolding same .
  show "b < n \<and> b \<notin> set (po_free (p\<lparr>po_all := po_all p @ [a]\<rparr>)) \<and> gen_ok ((pcs(t := x)) u) (g b) \<and>
      (b \<in> set (po_all (p\<lparr>po_all := po_all p @ [a]\<rparr>)) \<longleftrightarrow> \<not> made ((pcs(t := x)) u))"
    if u: "own ((pcs(t := x)) u) = Some b" for u b
  proof (cases "u = t")
    case True
    with u ox(1) have "b = a" by simp
    with True ox Da(1,2) show ?thesis by simp
  next
    case False
    from u have ub: "own (pcs u) = Some b" unfolding same .
    with D(5) [OF ub] ta False have "b \<noteq> a" by blast
    with D(1-4) [OF ub] False show ?thesis by simp
  qed
qed

lemma own_inv_make:
  assumes inv: "own_inv p g n pcs" and t: "own (pcs t) = None" and k: "even k"
  shows "own_inv p (g(n := k)) (Suc n) (pcs(t := AMade n))"
proof (rule own_invI)
  note D = own_invD [OF inv]
  show "distinct (po_all p)" "distinct (po_free p)" "set (po_free p) \<subseteq> set (po_all p)" using D(7-9) by auto
  show "b < Suc n" if "b \<in> set (po_all p)" for b using D(10) [OF that] by simp
  have fresh: "n \<notin> set (po_all p)" using D(10) [of n] by blast
  show "even ((g(n := k)) b)" if "b \<in> set (po_free p)" for b
    using D(9) D(11) [OF that] that fresh by (metis fun_upd_other subsetD)
  show "(pcs(t := AMade n)) u \<noteq> Crashed m" for u m using D(6) by simp
  have old: "own (pcs u) \<noteq> Some n" for u using D(1) [of u n] by blast
  show "u = v" if "own ((pcs(t := AMade n)) u) = Some b" "own ((pcs(t := AMade n)) v) = Some b" for u v b
    using that old D(5) [of u b v] by (cases "u = t"; cases "v = t") simp_all
  show "b < Suc n \<and> b \<notin> set (po_free p) \<and> gen_ok ((pcs(t := AMade n)) u) ((g(n := k)) b) \<and>
      (b \<in> set (po_all p) \<longleftrightarrow> \<not> made ((pcs(t := AMade n)) u))"
    if u: "own ((pcs(t := AMade n)) u) = Some b" for u b
  proof (cases "u = t")
    case True
    with u have "b = n" by simp
    with True k fresh D(9) show ?thesis by auto
  next
    case False
    with u have ub: "own (pcs u) = Some b" by simp
    with old have "b \<noteq> n" by metis
    with D(1-4) [OF ub] False show ?thesis by simp
  qed
qed

subsection \<open>Every section keeps it\<close>

lemma stopInstanceBestEffort_gen:
  "(\<lambda>b. in_gen (co_heap (stopInstanceBestEffort sys a s) b)) = (\<lambda>b. in_gen (co_heap s b))"
  "co_next (stopInstanceBestEffort sys a s) = co_next s" "core.more (stopInstanceBestEffort sys a s) = core.more s"
  by (auto simp: stopInstanceBestEffort_def inst_call_def inst_Stop_def set_inst_def Let_def fun_eq_iff
      split: prod.splits option.splits)

lemma set_inst_gen: "(\<lambda>b. in_gen (co_heap (set_inst a i s) b)) = (\<lambda>b. in_gen (co_heap s b))(a := in_gen i)"
  by (auto simp: set_inst_def)


lemma popFree_facts:
  "popFree p = (ch, p') \<Longrightarrow> po_all p' = po_all p \<and> po_sem p' = po_sem p \<and> po_maxSize p' = po_maxSize p \<and>
     (case ch of AcqPop a \<Rightarrow> po_free p = po_free p' @ [a] | _ \<Rightarrow> po_free p' = po_free p)"
  by (auto simp: popFree_def split: if_splits)

lemma sem_moves:
  "takeSlot sys c ev w p = Some (Some e, p') \<Longrightarrow> p' = p"
  "takeSlot sys c ev w p = Some (None, p') \<Longrightarrow> po_all p' = po_all p \<and> po_free p' = po_free p"
  by (auto simp: takeSlot_def split: option.splits sem_event.splits if_splits)

text \<open>A section that only moves the program counter, or takes instances off the free stack.\<close>

lemma conc_move:
  assumes "conc_inv l s pcs" and "co_heap s' = co_heap s" and "co_next s' = co_next s"
    and "sem_inv l (sh_pool s') (pcs(t := x))"
    and "po_all (sh_pool s') = po_all (sh_pool s)" and "distinct (po_free (sh_pool s'))"
    and "set (po_free (sh_pool s')) \<subseteq> set (po_free (sh_pool s))"
    and "\<And>a. own x = Some a \<Longrightarrow> gen_ok x (in_gen (co_heap s a)) \<and>
      (own (pcs t) = Some a \<and> made x = made (pcs t) \<or>
       a \<in> set (po_free (sh_pool s)) - set (po_free (sh_pool s')) \<and> \<not> made x)"
    and "\<And>m. x \<noteq> Crashed m"
  shows "conc_inv l s' (pcs(t := x))"
  using assms own_inv_move [of "sh_pool s" "\<lambda>a. in_gen (co_heap s a)" "co_next s" pcs "sh_pool s'" x t]
  unfolding conc_inv_def by simp

lemma conc_idle:
  assumes "conc_inv l s pcs" and "co_heap s' = co_heap s" and "co_next s' = co_next s"
    and "sem_inv l (sh_pool s') (pcs(t := x))" and "po_all (sh_pool s') = po_all (sh_pool s)"
    and "po_free (sh_pool s') = po_free (sh_pool s) \<or> po_free (sh_pool s') = []" and "own x = None" and "\<And>m. x \<noteq> Crashed m"
  shows "conc_inv l s' (pcs(t := x))"
proof -
  have "distinct (po_free (sh_pool s))" using assms(1) own_invD(8) unfolding conc_inv_def by blast
  with assms show ?thesis by (intro conc_move [OF assms(1)]) auto
qed

lemma conc_slot_back:
  assumes inv: "conc_inv l s pcs" and t: "has_slot (pcs t)" and x: "\<not> has_slot x" "\<And>m. x \<noteq> Crashed m"
    and own: "\<And>a. own x = Some a \<Longrightarrow> own (pcs t) = Some a \<and> made x = made (pcs t) \<and> gen_ok x (in_gen (co_heap s a))"
  shows "\<exists>p. returnSlot (sh_pool s) = (Ret (), p) \<and> conc_inv l (s\<lparr>sh_pool := p\<rparr>) (pcs(t := x))"
proof -
  from inv have "sem_inv l (sh_pool s) pcs" by (simp add: conc_inv_def)
  from sem_inv_return [OF this t x(1)] obtain p where
    p: "returnSlot (sh_pool s) = (Ret (), p)" "sem_inv l p (pcs(t := x))" "po_all p = po_all (sh_pool s)"
      "po_free p = po_free (sh_pool s)" by blast
  have "distinct (po_free (sh_pool s))" using inv own_invD(8) unfolding conc_inv_def by blast
  with p x own inv have "conc_inv l (s\<lparr>sh_pool := p\<rparr>) (pcs(t := x))" by (intro conc_move [OF inv]) auto
  with p(1) show ?thesis by blast
qed

lemma more_pool: "core.more (s' :: 'w shared) = core.more s \<Longrightarrow> sh_pool s' = sh_pool s"
  by (cases s; cases s') simp

lemma conc_stop:
  assumes "conc_inv l s pcs" and "own x = None" and "has_slot x = has_slot (pcs t)" and "\<And>m. x \<noteq> Crashed m"
  shows "conc_inv l (stopInstanceBestEffort sys a s) (pcs(t := x))"
proof -
  have pool: "sh_pool (stopInstanceBestEffort sys a s) = sh_pool s" by (intro more_pool stopInstanceBestEffort_gen(3))
  have inv: "sem_inv l (sh_pool s) pcs" "own_inv (sh_pool s) (\<lambda>a. in_gen (co_heap s a)) (co_next s) pcs"
    using assms(1) by (simp_all add: conc_inv_def)
  have "sem_inv l (sh_pool s) (pcs(t := x))" by (rule sem_inv_same [OF inv(1) assms(3) refl refl])
  moreover have "own_inv (sh_pool s) (\<lambda>a. in_gen (co_heap s a)) (co_next s) (pcs(t := x))"
    by (rule own_inv_move [OF inv(2) refl own_invD(8) [OF inv(2)]]) (use assms(2,4) in simp_all)
  ultimately show ?thesis unfolding conc_inv_def pool stopInstanceBestEffort_gen by blast
qed

lemma conc_gen:
  assumes "conc_inv l s pcs" and "own (pcs t) = Some a" and "\<not> made (pcs t)" and "own x = Some a" and "\<not> made x"
    and "gen_ok x (in_gen i)" and "has_slot x" and "has_slot (pcs t)"
  shows "conc_inv l (set_inst a i s) (pcs(t := x))"
proof -
  have same: "sh_pool (set_inst a i s) = sh_pool s" "co_next (set_inst a i s) = co_next s" by (simp_all add: set_inst_def)
  have inv: "sem_inv l (sh_pool s) pcs" "own_inv (sh_pool s) (\<lambda>a. in_gen (co_heap s a)) (co_next s) pcs"
    using assms(1) by (simp_all add: conc_inv_def)
  have "sem_inv l (sh_pool s) (pcs(t := x))" by (rule sem_inv_same [OF inv(1) _ refl refl]) (simp add: assms(7,8))
  then show ?thesis unfolding conc_inv_def same set_inst_gen using own_inv_gen [OF inv(2) assms(2-6)] by blast
qed


text \<open>The same for each kind of section.\<close>

lemma conc_silent:
  assumes inv: "conc_inv l s pcs" and "has_slot x = has_slot (pcs t)" and "po_sem (sh_pool s') = po_sem (sh_pool s)"
    and "po_maxSize (sh_pool s') = po_maxSize (sh_pool s)" and "co_heap s' = co_heap s" and "co_next s' = co_next s"
    and "po_all (sh_pool s') = po_all (sh_pool s)" and "po_free (sh_pool s') = po_free (sh_pool s) \<or> po_free (sh_pool s') = []"
    and "own x = None" and "\<And>m. x \<noteq> Crashed m"
  shows "conc_inv l s' (pcs(t := x))"
proof -
  have "sem_inv l (sh_pool s') (pcs(t := x))" using inv assms(2-4) sem_inv_same unfolding conc_inv_def by blast
  from conc_idle [OF inv assms(5,6) this assms(7-10)] show ?thesis .
qed

lemma conc_popped:
  assumes inv: "conc_inv l s pcs" and t: "pcs t = ASlot" and pop: "popFree (sh_pool s) = (AcqPop a, p)"
  shows "conc_inv l (s\<lparr>sh_pool := p\<rparr>) (pcs(t := APopped a))"
proof -
  have sem: "sem_inv l (sh_pool s) pcs" and own: "own_inv (sh_pool s) (\<lambda>a. in_gen (co_heap s a)) (co_next s) pcs"
    using inv by (simp_all add: conc_inv_def)
  note pf = popFree_facts [OF pop] and D = own_invD [OF own]
  then have free: "po_free (sh_pool s) = po_free p @ [a]" by simp
  with D(8) have d: "distinct (po_free p)" "a \<notin> set (po_free p)" by simp_all
  have "even (in_gen (co_heap s a))" using D(11) [of a] free by simp
  moreover have "sem_inv l p (pcs(t := APopped a))" using sem_inv_same [OF sem, of "APopped a" t p] t pf by simp
  ultimately show ?thesis using pf free d by (intro conc_move [OF inv]) auto
qed

lemma conc_made:
  assumes fac: "instance_factory factory" and inv: "conc_inv l s pcs" and t: "pcs t = ANew idx"
    and make: "factory idx s = (Ret (Inr a), s')"
  shows "conc_inv l s' (pcs(t := AMade a))"
proof -
  have sem: "sem_inv l (sh_pool s) pcs" and own: "own_inv (sh_pool s) (\<lambda>a. in_gen (co_heap s a)) (co_next s) pcs"
    using inv by (simp_all add: conc_inv_def)
  from instance_factory.factory_new [OF fac make] obtain i where
    i: "a = co_next s" "co_next s' = Suc (co_next s)" "co_heap s' = (co_heap s)(a := i)" "\<not> IsBusy i" by blast
  have pool: "sh_pool s' = sh_pool s"
    using instance_factory.factory_frame [OF fac make] by (intro more_pool) simp
  have g: "(\<lambda>b. in_gen (co_heap s' b)) = (\<lambda>b. in_gen (co_heap s b))(co_next s := in_gen i)" using i by auto
  have "even (in_gen i)" using i(4) by (simp add: IsBusy_odd)
  from own_inv_make [OF own _ this, of t] sem_inv_same [OF sem, of "AMade a" t "sh_pool s"] t i pool g show ?thesis
    by (simp add: conc_inv_def)
qed

lemma conc_registered:
  assumes inv: "conc_inv l s pcs" and t: "pcs t = AMade a" and reg: "registerNew a (sh_pool s) = (b, p)"
    and x: "x = APopped a \<or> x = AClosedNew a"
  shows "conc_inv l (s\<lparr>sh_pool := p\<rparr>) (pcs(t := x))"
proof -
  have sem: "sem_inv l (sh_pool s) pcs" and own: "own_inv (sh_pool s) (\<lambda>a. in_gen (co_heap s a)) (co_next s) pcs"
    using inv by (simp_all add: conc_inv_def)
  have "p = (sh_pool s)\<lparr>po_all := po_all (sh_pool s) @ [a]\<rparr>" using reg by (simp add: registerNew_def)
  with own_inv_register [OF own t x] sem_inv_same [OF sem, of x t p] t x show ?thesis by (auto simp: conc_inv_def)
qed

lemma conc_consumed:
  assumes inv: "conc_inv l s pcs" and t: "pcs t = Holds a k" and x: "x = RConsumed a \<or> x = RStop a"
  shows "\<exists>i. mustRelease (co_heap s a) k = (Ret (), i) \<and> conc_inv l (set_inst a i s) (pcs(t := x))"
proof -
  have own: "own_inv (sh_pool s) (\<lambda>a. in_gen (co_heap s a)) (co_next s) pcs" using inv by (simp add: conc_inv_def)
  have g: "in_gen (co_heap s a) = k" "odd k" using own_invD(3) [OF own, of t a] t by auto
  then have "mustRelease (co_heap s a) k = (Ret (), (co_heap s a)\<lparr>in_gen := k + 1\<rparr>)"
    by (simp add: mustRelease_eq isCurrentToken_def)
  moreover have "conc_inv l (set_inst a ((co_heap s a)\<lparr>in_gen := k + 1\<rparr>) s) (pcs(t := x))"
    using conc_gen [OF inv, of t a x] t x g(2) by auto
  ultimately show ?thesis by blast
qed

lemma conc_pushed:
  assumes inv: "conc_inv l s pcs" and t: "pcs t = RConsumed a" and push: "pushFree a (sh_pool s) = (b, p)"
  shows "conc_inv l (s\<lparr>sh_pool := p\<rparr>) (pcs(t := if b then RStop a else RSlot))"
proof -
  have sem: "sem_inv l (sh_pool s) pcs" and own: "own_inv (sh_pool s) (\<lambda>a. in_gen (co_heap s a)) (co_next s) pcs"
    using inv by (simp_all add: conc_inv_def)
  have ta: "own (pcs t) = Some a" using t by simp
  note D = own_invD [OF own]
  show ?thesis
  proof (cases "po_closed (sh_pool s)")
    case True
    then have "b" "p = sh_pool s" using push by (auto simp: pushFree_def)
    moreover have "sem_inv l (sh_pool s) (pcs(t := RStop a))" using sem_inv_same [OF sem, of "RStop a" t "sh_pool s"] t by simp
    ultimately show ?thesis using D(3) [OF ta] D(8) t by (intro conc_move [OF inv]) auto
  next
    case False
    then have "\<not> b" "p = (sh_pool s)\<lparr>po_free := po_free (sh_pool s) @ [a]\<rparr>" using push by (auto simp: pushFree_def)
    with own_inv_push [OF own t] sem_inv_same [OF sem, of RSlot t p] t show ?thesis by (simp add: conc_inv_def)
  qed
qed

lemma conc_marked:
  assumes inv: "conc_inv l s pcs" and t: "pcs t = APopped a" and mark: "markAcquired (co_heap s a) = (k, i)"
  shows "conc_inv l (set_inst a i s) (pcs(t := Holds a k))"
proof -
  have own: "own_inv (sh_pool s) (\<lambda>a. in_gen (co_heap s a)) (co_next s) pcs" using inv by (simp add: conc_inv_def)
  have "even (in_gen (co_heap s a))" using own_invD(3) [OF own, of t a] t by simp
  with conc_gen [OF inv, of t a "Holds a k" i] t mark show ?thesis by (auto simp: markAcquired_def)
qed

lemma conc_returned:
  assumes inv: "conc_inv l s pcs" and t: "pcs t = RSlot \<and> x = Idle \<or> (\<exists>a. pcs t = AClosedNew a \<and> x = AStop a)"
  shows "\<exists>p. returnSlot (sh_pool s) = (Ret (), p) \<and> conc_inv l (s\<lparr>sh_pool := p\<rparr>) (pcs(t := x))"
proof -
  have "own_inv (sh_pool s) (\<lambda>a. in_gen (co_heap s a)) (co_next s) pcs" using inv by (simp add: conc_inv_def)
  from own_invD(3) [OF this, of t] t show ?thesis by (intro conc_slot_back [OF inv]) auto
qed

text \<open>The sections that handle no instance, then those that do.\<close>

lemma sect_inv_slots:
  assumes fac: "instance_factory factory"
    and inv: "conc_inv l s pcs" and sect: "sect sys factory (pcs t) s pc' s'"
    and none: "own (pcs t) = None" "own pc' = None" and nc: "\<And>m. pc' \<noteq> Crashed m"
  shows "conc_inv l s' (pcs(t := pc'))"
  using sect
proof cases
  case (slot_taken c ev p)
  have "sem_inv l p (pcs(t := ASlot))" using inv sem_inv_take [OF _ _ slot_taken(4)] slot_taken by (simp add: conc_inv_def)
  with slot_taken sem_moves(2) [OF slot_taken(4)] show ?thesis by (auto intro!: conc_idle [OF inv])
next
  case (make_fail idx e)
  have "sh_pool s' = sh_pool s" using instance_factory.factory_frame [OF fac make_fail(3)] by (intro more_pool) simp
  with instance_factory.factory_fail [OF fac make_fail(3)] make_fail show ?thesis by (auto intro!: conc_silent [OF inv])
next
  case (return_slot u p)
  with conc_returned [OF inv, of t Idle] show ?thesis by auto
qed (use none nc in \<open>auto intro!: conc_silent [OF inv] simp: closeLocked_def closeChan_def
  dest!: popFree_facts sem_moves(1)\<close>)

lemma sect_inv_instance:
  assumes fac: "instance_factory factory"
    and inv: "conc_inv l s pcs" and sect: "sect sys factory (pcs t) s pc' s'"
    and some: "own (pcs t) \<noteq> None \<or> own pc' \<noteq> None" and nc: "\<And>m. pc' \<noteq> Crashed m"
  shows "conc_inv l s' (pcs(t := pc'))"
  using sect
proof cases
  case (pop_free a p)
  then show ?thesis using conc_popped [OF inv _ pop_free(4)] by simp
next
  case (mark a k i)
  then show ?thesis using conc_marked [OF inv _ mark(4)] by simp
next
  case (make idx a)
  then show ?thesis using conc_made [OF fac inv _ make(3)] by simp
next
  case (register a p)
  then show ?thesis using conc_registered [OF inv _ register(4)] by simp
next
  case (register_closed a p)
  then show ?thesis using conc_registered [OF inv _ register_closed(4)] by simp
next
  case (release a k u i)
  then show ?thesis using conc_consumed [OF inv, of t a k "RConsumed a"] by auto
next
  case (release_failed a k u i)
  then show ?thesis using conc_consumed [OF inv, of t a k "RStop a"] by auto
next
  case (push a p)
  then show ?thesis using conc_pushed [OF inv _ push(4)] by simp
next
  case (push_closed a p)
  then show ?thesis using conc_pushed [OF inv _ push_closed(4)] by simp
next
  case (return_new u p a)
  then show ?thesis using conc_returned [OF inv, of t "AStop a"] by auto
qed (use some nc in \<open>auto intro!: conc_stop [OF inv]\<close>)

lemma sect_no_panic:
  assumes np: "\<And>idx s m s'. factory idx s \<noteq> (Panic m, s')" and inv: "conc_inv l s pcs"
    and sect: "sect sys factory (pcs t) s pc' s'"
  shows "pc' \<noteq> Crashed m"
  using sect
proof cases
  case (release_panic a k m i)
  then show ?thesis using conc_consumed [OF inv, of t a k "RStop a"] by auto
next
  case (return_new_panic m p a)
  then show ?thesis using conc_returned [OF inv, of t "AStop a"] by auto
next
  case (return_slot_panic m p)
  then show ?thesis using conc_returned [OF inv, of t Idle] by auto
qed (use np in auto)

lemma sect_inv:
  assumes "instance_factory factory" and "\<And>idx s m s'. factory idx s \<noteq> (Panic m, s')"
    and "conc_inv l s pcs" and "sect sys factory (pcs t) s pc' s'"
  shows "conc_inv l s' (pcs(t := pc'))"
  using sect_no_panic [OF assms(2-4)] sect_inv_slots [OF assms(1,3,4)] sect_inv_instance [OF assms(1,3,4)] by blast

lemma pool_reach_inv:
  assumes fac: "instance_factory factory" and np: "\<And>idx s m s'. factory idx s \<noteq> (Panic m, s')"
    and reach: "pool_reach sys factory n s pcs"
  shows "conc_inv 0 s pcs"
  using reach
proof (induction rule: pool_reach.induct)
  case (reach_new s)
  then have "po_free (sh_pool s) = []" "po_all (sh_pool s) = []" "po_maxSize (sh_pool s) = nat n"
    "po_sem (sh_pool s) = (if n > 0 then Some (nat n) else None)"
    by (auto simp: NewPool_def split: if_splits dest!: sym [of _ "sh_pool s"])
  then show ?case by (auto simp: conc_inv_def sem_inv_def own_inv_def)
next
  case (reach_step s pcs t pc' s')
  from sect_inv [OF fac np reach_step.IH reach_step.hyps(2)] show ?case .
qed


lemma sect_maxSize:
  assumes "instance_factory factory" and "sect sys factory pc s pc' s'"
  shows "po_maxSize (sh_pool s') = po_maxSize (sh_pool s)"
  using assms(2)
proof cases
  case (make idx a)
  with instance_factory.factory_frame [OF assms(1) make(3)] more_pool show ?thesis by metis
next
  case (make_fail idx e)
  with instance_factory.factory_frame [OF assms(1) make_fail(3)] more_pool show ?thesis by metis
next
  case (make_panic idx m)
  with instance_factory.factory_frame [OF assms(1) make_panic(3)] more_pool show ?thesis by metis
next
  case (stop_new a)
  with more_pool [OF stopInstanceBestEffort_gen(3)] show ?thesis by metis
next
  case (stop a)
  with more_pool [OF stopInstanceBestEffort_gen(3)] show ?thesis by metis
qed (auto simp: takeSlot_def popFree_def registerNew_def pushFree_def returnSlot_def closeLocked_def closeChan_def
    set_inst_def split: option.splits sem_event.splits if_splits)

lemma pool_reach_maxSize:
  assumes "instance_factory factory" and "pool_reach sys factory n s pcs"
  shows "po_maxSize (sh_pool s) = nat n \<and> 0 \<le> n"
  using assms(2)
proof (induction rule: pool_reach.induct)
  case (reach_new s)
  then show ?case by (auto simp: NewPool_def split: if_splits dest!: sym [of _ "sh_pool s"])
next
  case (reach_step s pcs t pc' s')
  with sect_maxSize [OF assms(1) reach_step.hyps(2)] show ?case by simp
qed

text \<open>What the invariant says of the holders.\<close>

lemma conc_holds:
  assumes "conc_inv l s pcs" and "pcs t = Holds a k"
  shows "isCurrentToken (co_heap s a) k \<and> a \<in> set (po_all (sh_pool s)) \<and> a \<notin> set (po_free (sh_pool s))"
    and "pcs u = Holds a j \<Longrightarrow> u = t"
proof -
  have own: "own_inv (sh_pool s) (\<lambda>a. in_gen (co_heap s a)) (co_next s) pcs" using assms(1) by (simp add: conc_inv_def)
  from own_invD(2-4) [OF own, of t a] assms(2)
  show "isCurrentToken (co_heap s a) k \<and> a \<in> set (po_all (sh_pool s)) \<and> a \<notin> set (po_free (sh_pool s))"
    by (simp add: isCurrentToken_def)
  from own_invD(5) [OF own, of u a t] assms(2) show "pcs u = Holds a j \<Longrightarrow> u = t" by simp
qed

lemma conc_bound:
  assumes "conc_inv l s pcs" and "0 < po_maxSize (sh_pool s)"
  shows "card {t. \<exists>a k. pcs t = Holds a k} \<le> po_maxSize (sh_pool s)"
proof -
  have sem: "sem_inv l (sh_pool s) pcs" using assms(1) by (simp add: conc_inv_def)
  then obtain j where "po_sem (sh_pool s) = Some j" using assms(2) by (auto simp: sem_inv_def)
  then have "card {t. has_slot (pcs t)} \<le> po_maxSize (sh_pool s)" using sem by (auto simp: sem_inv_def)
  moreover have "card {t. \<exists>a k. pcs t = Holds a k} \<le> card {t. has_slot (pcs t)}"
    using sem by (intro card_mono) (auto simp: sem_inv_def)
  ultimately show ?thesis by simp
qed

subsection \<open>Properties\<close>

text \<open>C12. Whatever the number of goroutines and the order in which their sections run, with \<^verbatim>\<open>Close\<close> at any
  moment: no goroutine panics (neither \<^verbatim>\<open>returnSlot\<close> nor the check for double releases), no instance
  is held by two of them, a held instance is registered, off the free stack and at its holder's
  token, and a bounded pool has at most its size of instances in use. No slot is lost either: when no
  goroutine is inside the pool or holds an instance, all tokens are in the semaphore.\<close>

theorem pool_interleavings_safe:
  assumes "ic_Validate cfg = None" and "pool_reach sys (instanceFactory sys base cfg) n s pcs"
  shows "(\<forall>t m. pcs t \<noteq> Crashed m) \<and>
    (\<forall>t u a k l. pcs t = Holds a k \<longrightarrow> pcs u = Holds a l \<longrightarrow> t = u) \<and>
    (\<forall>t a k. pcs t = Holds a k \<longrightarrow>
       isCurrentToken (co_heap s a) k \<and> a \<in> set (po_all (sh_pool s)) \<and> a \<notin> set (po_free (sh_pool s))) \<and>
    (0 < n \<longrightarrow> int (card {t. \<exists>a k. pcs t = Holds a k}) \<le> n) \<and>
    (0 < n \<longrightarrow> (\<forall>t. pcs t = Idle) \<longrightarrow> po_sem (sh_pool s) = Some (nat n))"
proof -
  have fac: "instance_factory (instanceFactory sys base cfg)" by (rule mf.instance_factory_axioms)
  have inv: "conc_inv 0 s pcs"
    by (rule pool_reach_inv [OF fac instanceFactory_no_panic [OF assms(1)] assms(2)])
  then have sem: "sem_inv 0 (sh_pool s) pcs" and own: "own_inv (sh_pool s) (\<lambda>a. in_gen (co_heap s a)) (co_next s) pcs"
    by (simp_all add: conc_inv_def)
  have size: "po_maxSize (sh_pool s) = nat n" using pool_reach_maxSize [OF fac assms(2)] by simp
  have "int (card {t. \<exists>a k. pcs t = Holds a k}) \<le> n" if "0 < n" using conc_bound [OF inv] size that by simp
  moreover have "po_sem (sh_pool s) = Some (nat n)" if "0 < n" "\<forall>t. pcs t = Idle"
    using sem size that by (cases "po_sem (sh_pool s)") (auto simp: sem_inv_def)
  ultimately show ?thesis using conc_holds [OF inv] own_invD(6) [OF own] by blast
qed

subsection \<open>Witnesses\<close>

text \<open>Two goroutines on a pool of size one: the first takes the slot and an instance, and returns it.\<close>

definition sample_shared :: "unit shared" where
  "sample_shared = \<lparr>co_heap = (\<lambda>_. template_inst), co_next = 0, co_reg = NewPortRegistry, co_world = (), sh_pool = sample_pool\<rparr>"

abbreviation sample_fac :: "int \<Rightarrow> unit shared \<Rightarrow> (go_error + nat) outcome \<times> unit shared" where
  "sample_fac \<equiv> instanceFactory quiet_os ''/b'' (in_cfg sample_inst)"

lemma reach_again:
  "pool_reach sys factory n s (f(t := x)) \<Longrightarrow> sect sys factory x s y s' \<Longrightarrow> pool_reach sys factory n s' (f(t := y))"
  using reach_step [of sys factory n s "f(t := x)" t y s'] by simp

lemma sample_reach_new:
  "pool_reach quiet_os sample_fac 1 (sample_shared\<lparr>sh_pool := sample_pool\<lparr>po_sem := Some 0, po_nextIdx := 1\<rparr>\<rparr>)
     ((\<lambda>_. Idle)(0 := ANew 0))"
proof -
  have "pool_reach quiet_os sample_fac 1 sample_shared ((\<lambda>_. Idle)(0 := Idle))"
    using reach_new [of 1 sample_shared quiet_os sample_fac]
    by (simp add: NewPool_def sample_shared_def sample_pool_def fun_upd_idem)
  then have "pool_reach quiet_os sample_fac 1 sample_shared ((\<lambda>_. Idle)(0 := AWait 1))"
    by (rule reach_again) (rule acquire_call, simp add: quiet_os_def)
  then have "pool_reach quiet_os sample_fac 1 (sample_shared\<lparr>sh_pool := sample_pool\<lparr>po_sem := Some 0\<rparr>\<rparr>) ((\<lambda>_. Idle)(0 := ASlot))"
    by (rule reach_again, intro slot_taken [where ev = GotSlot]) (simp add: takeSlot_def sample_shared_def sample_pool_def)
  moreover have "sect quiet_os sample_fac ASlot (sample_shared\<lparr>sh_pool := sample_pool\<lparr>po_sem := Some 0\<rparr>\<rparr>) (ANew 0)
      (sample_shared\<lparr>sh_pool := sample_pool\<lparr>po_sem := Some 0, po_nextIdx := 1\<rparr>\<rparr>)"
    using pop_new [of "sample_shared\<lparr>sh_pool := sample_pool\<lparr>po_sem := Some 0\<rparr>\<rparr>" 0
        "sample_pool\<lparr>po_sem := Some 0, po_nextIdx := 1\<rparr>" quiet_os sample_fac]
    by (simp add: popFree_def sample_pool_def sample_shared_def)
  ultimately show ?thesis by (rule reach_again)
qed

lemma sample_reach_held:
  "\<exists>s a k. pool_reach quiet_os sample_fac 1 s ((\<lambda>_. Idle)(0 := Holds a k))"
proof -
  let ?s = "sample_shared\<lparr>sh_pool := sample_pool\<lparr>po_sem := Some 0, po_nextIdx := 1\<rparr>\<rparr>"
  have valid: "ic_Validate (in_cfg sample_inst) = None" by (simp add: sample_inst_def ic_Validate_None_iff)
  obtain o1 s1 where f: "sample_fac 0 ?s = (o1, s1)" by fastforce
  have "o1 \<noteq> Panic m" for m using instanceFactory_no_panic [OF valid] f by blast
  moreover have "o1 \<noteq> Ret (Inl e)" for e
    using f by (auto simp: instanceFactory_def alloc_inst_def Let_def split: prod.splits outcome.splits)
  ultimately obtain a where o1: "o1 = Ret (Inr a)" by (metis outcome.exhaust sum.exhaust)
  from f o1 have "sect quiet_os sample_fac (ANew 0) ?s (AMade a) s1" by (intro make) simp
  note made = reach_again [OF sample_reach_new this]
  have "sh_pool s1 = sh_pool ?s" using mf.factory_frame [OF f] by (intro more_pool) simp
  then have "registerNew a (sh_pool s1) = (False, snd (registerNew a (sh_pool s1)))"
    by (simp add: registerNew_def sample_pool_def)
  note popped = reach_again [OF made register [OF this]]
  obtain k i where "markAcquired (co_heap (s1\<lparr>sh_pool := snd (registerNew a (sh_pool s1))\<rparr>) a) = (k, i)" by fastforce
  from reach_again [OF popped mark [OF this]] show ?thesis by blast
qed

theorem pool_interleavings_safe_witness:
  "\<exists>s a k. pool_reach quiet_os sample_fac 1 s ((\<lambda>_. Idle)(0 := Holds a k)) \<and> isCurrentToken (co_heap s a) k"
proof -
  obtain s a k where run: "pool_reach quiet_os sample_fac 1 s ((\<lambda>_. Idle)(0 := Holds a k))"
    using sample_reach_held by blast
  have valid: "ic_Validate (in_cfg sample_inst) = None" by (simp add: sample_inst_def ic_Validate_None_iff)
  from pool_interleavings_safe [OF valid run] run show ?thesis by (metis fun_upd_same)
qed

end
