(* ===== verification/Handlers.thy ===== *)
theory Handlers
  imports Protocol
begin

text \<open>
  The manager under concurrency: any number of goroutines call \<^verbatim>\<open>Initialize\<close>, \<^verbatim>\<open>Acquire\<close>, \<^verbatim>\<open>Release\<close> and
  \<^verbatim>\<open>Shutdown\<close>. A step is one section of one call: an atomic operation on the state, the pool pointer or
  the counter of releases in flight, a section of the pool (theory \<open>Protocol\<close>), an operation of an
  instance, which its mutex makes atomic, or one goroutine of \<^verbatim>\<open>stopAllInstances\<close>. This theory has the
  sections, made of the operations of the theories \<open>Manager\<close>, \<open>Instance\<close> and \<open>Pool\<close>.
\<close>

subsection \<open>Program counters\<close>

text \<open>
  Where a goroutine stands, with its local variables. \<open>Held\<close> is the client's state between \<^verbatim>\<open>Acquire\<close> and
  \<^verbatim>\<open>Release\<close>. A context in \<open>AFail\<close>, \<open>Back\<close>, \<open>Down\<close> and \<open>DStop\<close> is one the caller has deferred the cancellation of:
  that of \<^verbatim>\<open>Acquire\<close>, or that of the purge of a \<^verbatim>\<open>Release\<close>.
\<close>

datatype hpc =
    HIdle
  | AReady ctx
  | APool ctx pc
  | ALook ctx nat "64 word"
  | AStart ctx nat "64 word"
  | ADone ctx nat "64 word"
  | AEnd ctx
  | Held nat "64 word"
  | RPurge nat "64 word"
  | RRead nat "64 word"
  | RRun purge_handle nat "64 word"
  | REnter nat "64 word"
  | RIn nat "64 word"
  | RLoad nat "64 word"
  | RPool pc
  | RLeave "(nat \<times> 64 word) option"
  | RNote bool "(nat \<times> 64 word) option"
  | AFail "ctx option" nat "64 word"
  | Back "ctx option" pc
  | Down "ctx option" nat "64 word"
  | DStop "ctx option" ctx nat
  | SStored
  | SSeen bool
  | SWait
  | SGo
  | SClosing
  | SClosed
  | SStop "nat list" "nat list" "(nat \<times> go_error option) list"
  | SDone "go_error option"
  | IWant ctx
  | IHas ctx
  | ILoaded ctx
  | IBody ctx
  | IReady
  | IRoll
  | ICreated
  | IEnd
  | HCrashed string

text \<open>The manager and the mutex \<^verbatim>\<open>initMu\<close>.\<close>

record 'w host =
  ho_mgr :: "'w mgr"
  ho_initMu :: bool

subsection \<open>Sections of the pool, on the manager\<close>

definition pool_view :: "'w mgr \<Rightarrow> pool \<Rightarrow> 'w shared" where
  "pool_view m p = \<lparr>co_heap = co_heap m, co_next = co_next m, co_reg = co_reg m, co_world = co_world m, sh_pool = p\<rparr>"

lemma pool_view_simps [simp]:
  "co_heap (pool_view m p) = co_heap m" "co_next (pool_view m p) = co_next m" "co_reg (pool_view m p) = co_reg m"
  "co_world (pool_view m p) = co_world m" "sh_pool (pool_view m p) = p"
  by (simp_all add: pool_view_def)

definition from_view :: "'w mgr \<Rightarrow> 'w shared \<Rightarrow> 'w mgr" where
  "from_view m s = m\<lparr>co_heap := co_heap s, co_next := co_next s, co_reg := co_reg s, co_world := co_world s,
     mg_pool := Some (sh_pool s)\<rparr>"

inductive pool_sect :: "'w os \<Rightarrow> pc \<Rightarrow> 'w mgr \<Rightarrow> pc \<Rightarrow> 'w mgr \<Rightarrow> bool" for sys where
  pool_sectI: "mg_pool m = Some p \<Longrightarrow> sect sys (manager_factory sys m) pc (pool_view m p) pc' s \<Longrightarrow>
    pool_sect sys pc m pc' (from_view m s)"

lemma manager_factory_instance: "instance_factory (manager_factory sys m)"
  unfolding manager_factory_def by (rule mf.instance_factory_axioms)

text \<open>What follows the last section of a call of the pool.\<close>

fun after_acquire :: "ctx \<Rightarrow> pc \<Rightarrow> hpc" where
  "after_acquire d Idle = AEnd d"
| "after_acquire d (Holds a t) = ALook d a t"
| "after_acquire d (Crashed msg) = HCrashed msg"
| "after_acquire d pc = APool d pc"

fun ended :: "ctx option \<Rightarrow> hpc" where
  "ended None = HIdle"
| "ended (Some d) = AEnd d"

fun after_failed :: "ctx option \<Rightarrow> pc \<Rightarrow> hpc" where
  "after_failed k Idle = ended k"
| "after_failed k (Crashed msg) = HCrashed msg"
| "after_failed k pc = Back k pc"

fun after_release :: "pc \<Rightarrow> hpc" where
  "after_release Idle = RLeave None"
| "after_release (Crashed msg) = HCrashed msg"
| "after_release pc = RPool pc"

subsection \<open>Sections of the handlers\<close>

text \<open>
  A call of \<^verbatim>\<open>Acquire\<close> keeps the pool it has loaded; here each section uses the pool of the manager, which is
  the same one: the theory \<open>Interleave\<close> shows that there is a pool as long as a call is inside, and only
  \<^verbatim>\<open>Initialize\<close> stores one, when there is none. The timer of the drain may fire at any time, also before the
  releases in flight are over.
\<close>

inductive acq_sect ::
  "'w os \<Rightarrow> (kine_process, api_process, 'w) errgroup \<Rightarrow> hpc \<Rightarrow> 'w mgr \<Rightarrow> hpc \<Rightarrow> 'w mgr \<Rightarrow> bool"
  for sys grp where
  acq_refused: "mg_state m \<noteq> managerReady \<Longrightarrow> acq_sect sys grp HIdle m HIdle m"
| acq_ready: "mg_state m = managerReady \<Longrightarrow> acq_sect sys grp HIdle m (AReady c) m"
| acq_nil: "mg_pool m = None \<Longrightarrow> acq_sect sys grp (AReady c) m HIdle m"
| acq_pool: "mg_pool m \<noteq> None \<Longrightarrow> os_ctx_with_timeout sys c (mc_AcquireTimeout (mg_cfg m)) (co_world m) = (d, w) \<Longrightarrow>
    acq_sect sys grp (AReady c) m (APool d Idle) (m\<lparr>co_world := w\<rparr>)"
| acq_ended: "os_ctx_err sys d (co_world m) \<noteq> None \<Longrightarrow> acq_sect sys grp (APool d Idle) m (AEnd d) m"
| acq_wait: "os_ctx_err sys d (co_world m) = None \<Longrightarrow> acq_sect sys grp (APool d Idle) m (APool d (AWait d)) m"
| acq_inside: "pc \<noteq> Idle \<Longrightarrow> pool_sect sys pc m pc' m' \<Longrightarrow> acq_sect sys grp (APool d pc) m (after_acquire d pc') m'"
| look_down: "mg_state m = managerShuttingDown \<Longrightarrow> acq_sect sys grp (ALook d a t) m (Down (Some d) a t) m"
| look_up: "mg_state m \<noteq> managerShuttingDown \<Longrightarrow> acq_sect sys grp (ALook d a t) m (AStart d a t) m"
| start_warm: "IsStarted (co_heap m a) \<Longrightarrow> acq_sect sys grp (AStart d a t) m (ADone d a t) m"
| start_ok: "\<not> IsStarted (co_heap m a) \<Longrightarrow> inst_call a (\<lambda>i r w. inst_Start sys grp i d r w) m = (None, m') \<Longrightarrow>
    acq_sect sys grp (AStart d a t) m (ADone d a t) m'"
| start_fail: "\<not> IsStarted (co_heap m a) \<Longrightarrow> inst_call a (\<lambda>i r w. inst_Start sys grp i d r w) m = (Some e, m') \<Longrightarrow>
    acq_sect sys grp (AStart d a t) m (AFail (Some d) a t) (set_inst a (setErr (co_heap m' a) e) m')"
| acq_return: "acq_sect sys grp (ADone d a t) m (Held a t) (m\<lparr>co_world := os_ctx_cancel sys d (co_world m)\<rparr>)"
| acq_error: "acq_sect sys grp (AEnd d) m HIdle (m\<lparr>co_world := os_ctx_cancel sys d (co_world m)\<rparr>)"

text \<open>
  \<^verbatim>\<open>Release\<close>, called by the holder. The look at \<^verbatim>\<open>started\<close>, the read of the purge handle and its use are
  sections of their own: \<^verbatim>\<open>Shutdown\<close> may stop the instance between them.
\<close>

inductive rel_sect :: "'w os \<Rightarrow> hpc \<Rightarrow> 'w mgr \<Rightarrow> hpc \<Rightarrow> 'w mgr \<Rightarrow> bool" for sys where
  rel_stale: "\<not> (in_hasReleaser (co_heap m a) \<and> isCurrentToken (co_heap m a) t) \<Longrightarrow>
    rel_sect sys (Held a t) m (HCrashed msg) m"
| rel_current: "in_hasReleaser (co_heap m a) \<Longrightarrow> isCurrentToken (co_heap m a) t \<Longrightarrow>
    rel_sect sys (Held a t) m (RPurge a t) m"
| purge_cold: "\<not> in_started (co_heap m a) \<Longrightarrow> rel_sect sys (RPurge a t) m (REnter a t) m"
| purge_warm: "in_started (co_heap m a) \<Longrightarrow> rel_sect sys (RPurge a t) m (RRead a t) m"
| purge_nil: "in_purge (co_heap m a) = None \<Longrightarrow>
    rel_sect sys (RRead a t) m (AFail None a t)
      (set_inst a (setErr (co_heap m a) (Wrapf ''%s: %w'' [ArgStr ''purge handle not initialized'']
         (errors_New ''nil purge handle (programming error)''))) m)"
| purge_handle: "in_purge (co_heap m a) = Some h \<Longrightarrow> rel_sect sys (RRead a t) m (RRun h a t) m"
| purge_ok: "os_ctx_with_timeout sys Background (ic_CleanupTimeout (in_cfg (co_heap m a))) (co_world m) = (cc, w1) \<Longrightarrow>
    purge_purge sys h cc w1 = (None, w2) \<Longrightarrow>
    rel_sect sys (RRun h a t) m (REnter a t) (m\<lparr>co_world := os_ctx_cancel sys cc w2\<rparr>)"
| purge_fail: "os_ctx_with_timeout sys Background (ic_CleanupTimeout (in_cfg (co_heap m a))) (co_world m) = (cc, w1) \<Longrightarrow>
    purge_purge sys h cc w1 = (Some e, w2) \<Longrightarrow>
    rel_sect sys (RRun h a t) m (AFail (Some cc) a t)
      (set_inst a (setErr (co_heap m a) (Wrapf ''%s: %w'' [ArgStr ''SQLite purge during release''] e)) (m\<lparr>co_world := w2\<rparr>))"
| rel_enter: "rel_sect sys (REnter a t) m (RIn a t) (m\<lparr>mg_inflight := mg_inflight m + 1\<rparr>)"
| rel_down: "mg_state m = managerShuttingDown \<Longrightarrow> rel_sect sys (RIn a t) m (RLeave (Some (a, t))) m"
| rel_up: "mg_state m \<noteq> managerShuttingDown \<Longrightarrow> rel_sect sys (RIn a t) m (RLoad a t) m"
| rel_nil: "mg_pool m = None \<Longrightarrow> rel_sect sys (RLoad a t) m (RLeave (Some (a, t))) m"
| rel_pool: "mg_pool m \<noteq> None \<Longrightarrow> mustRelease (co_heap m a) t = (Ret u, i) \<Longrightarrow>
    rel_sect sys (RLoad a t) m (RPool (RConsumed a)) (set_inst a i m)"
| rel_double: "mg_pool m \<noteq> None \<Longrightarrow> mustRelease (co_heap m a) t = (Panic msg, i) \<Longrightarrow>
    rel_sect sys (RLoad a t) m (HCrashed msg) m"
| rel_inside: "pool_sect sys pc m pc' m' \<Longrightarrow> rel_sect sys (RPool pc) m (after_release pc') m'"
| rel_leave: "decInflight m = (zero, m') \<Longrightarrow> rel_sect sys (RLeave r) m (RNote zero r) m'"
| rel_done: "rel_sect sys (RNote zero None) m HIdle (noteDrained zero m)"
| rel_stop: "rel_sect sys (RNote zero (Some (a, t))) m (Down None a t) (noteDrained zero m)"

text \<open>The two ways to give an instance back without the free stack, for both callers: the pool's
  \<^verbatim>\<open>ReleaseFailed\<close> and \<^verbatim>\<open>stopInstanceDuringShutdown\<close>, which does not return the slot.\<close>

inductive back_sect :: "'w os \<Rightarrow> hpc \<Rightarrow> 'w mgr \<Rightarrow> hpc \<Rightarrow> 'w mgr \<Rightarrow> bool" for sys where
  fail_nil: "mg_pool m = None \<Longrightarrow> back_sect sys (AFail k a t) m (ended k) m"
| fail_consume: "mg_pool m \<noteq> None \<Longrightarrow> mustRelease (co_heap m a) t = (Ret u, i) \<Longrightarrow>
    back_sect sys (AFail k a t) m (Back k (RStop a)) (set_inst a i m)"
| fail_double: "mg_pool m \<noteq> None \<Longrightarrow> mustRelease (co_heap m a) t = (Panic msg, i) \<Longrightarrow>
    back_sect sys (AFail k a t) m (HCrashed msg) m"
| fail_inside: "pool_sect sys pc m pc' m' \<Longrightarrow> back_sect sys (Back k pc) m (after_failed k pc') m'"
| down_consume:
    "os_ctx_with_timeout sys Background (mc_InstanceStopTimeout (mg_cfg m)) (co_world m) = (c, w) \<Longrightarrow>
     mustRelease (co_heap m a) t = (Ret u, i) \<Longrightarrow>
     back_sect sys (Down k a t) m (DStop k c a) ((set_inst a i m)\<lparr>co_world := w\<rparr>)"
| down_double: "mustRelease (co_heap m a) t = (Panic msg, i) \<Longrightarrow> back_sect sys (Down k a t) m (HCrashed msg) m"
| down_stop: "inst_call a (\<lambda>i r w. inst_Stop sys i c r w) m = (e, m') \<Longrightarrow>
    back_sect sys (DStop k c a) m (ended k) (m'\<lparr>co_world := os_ctx_cancel sys c (co_world m')\<rparr>)"

text \<open>\<^verbatim>\<open>Shutdown\<close>: the goroutines of \<^verbatim>\<open>stopAllInstances\<close> stop the instances of the list in any order.\<close>

inductive shut_sect :: "'w os \<Rightarrow> hpc \<Rightarrow> 'w mgr \<Rightarrow> hpc \<Rightarrow> 'w mgr \<Rightarrow> bool" for sys where
  shut_store: "shut_sect sys HIdle m SStored (m\<lparr>mg_state := managerShuttingDown\<rparr>)"
| shut_look: "shut_sect sys SStored m (SSeen (mg_inflight m = 0)) m"
| shut_close: "shut_sect sys (SSeen zero) m SWait (if zero then m\<lparr>mg_inflightDone := True\<rparr> else m)"
| shut_drained: "mg_inflightDone m \<Longrightarrow> shut_sect sys SWait m SGo m"
| shut_timeout: "shut_sect sys SWait m SGo m"
| shut_nil: "mg_pool m = None \<Longrightarrow> shut_sect sys SGo m (SDone None) m"
| shut_pool: "mg_pool m = Some p \<Longrightarrow> shut_sect sys SGo m SClosing (m\<lparr>mg_pool := Some (closeLocked p)\<rparr>)"
| shut_chan: "mg_pool m = Some p \<Longrightarrow> shut_sect sys SClosing m SClosed (m\<lparr>mg_pool := Some (closeChan p)\<rparr>)"
| shut_list: "mg_pool m = Some p \<Longrightarrow> shut_sect sys SClosed m (SStop (Instances p) (Instances p) []) m"
| shut_stop: "a \<in> set todo \<Longrightarrow>
    os_ctx_with_timeout sys Background (mc_InstanceStopTimeout (mg_cfg m)) (co_world m) = (c, w) \<Longrightarrow>
    inst_call a (\<lambda>i r w. inst_Stop sys i c r w) (m\<lparr>co_world := w\<rparr>) = (e, m') \<Longrightarrow>
    shut_sect sys (SStop all todo es) m (SStop all (remove1 a todo) ((a, e) # es))
      (m'\<lparr>co_world := os_ctx_cancel sys c (co_world m')\<rparr>)"
| shut_join: "shut_sect sys (SStop all [] es) m
    (SDone (errors_Join (map (\<lambda>a. case map_of es a of Some e \<Rightarrow> e | None \<Rightarrow> None) all))) m"
| shut_return: "shut_sect sys (SDone e) m HIdle m"

text \<open>\<^verbatim>\<open>Initialize\<close> between the lock and the unlock of \<^verbatim>\<open>initMu\<close>.\<close>

inductive init_sect ::
  "'w os \<Rightarrow> 'w ensure_cache \<Rightarrow> hpc \<Rightarrow> 'w mgr \<Rightarrow> hpc \<Rightarrow> 'w mgr \<Rightarrow> bool" for sys ensureCache where
  init_want: "init_sect sys ensureCache HIdle m (IWant c) m"
| init_over: "mg_state m \<in> {managerReady, managerShuttingDown} \<Longrightarrow> init_sect sys ensureCache (IHas c) m IEnd m"
| init_go: "mg_state m \<in> {managerCreated, managerInitializing} \<Longrightarrow> init_sect sys ensureCache (IHas c) m (ILoaded c) m"
| init_begin: "init_sect sys ensureCache (ILoaded c) m (IBody c) (m\<lparr>mg_state := managerInitializing\<rparr>)"
| init_invalid: "mc_Validate (mg_cfg m) \<noteq> None \<Longrightarrow> init_sect sys ensureCache (IBody c) m ICreated m"
| init_ok: "mc_Validate (mg_cfg m) = None \<Longrightarrow> doInitialize sys ensureCache c m = (Ret None, m') \<Longrightarrow>
    init_sect sys ensureCache (IBody c) m IReady m'"
| init_fail: "mc_Validate (mg_cfg m) = None \<Longrightarrow> doInitialize sys ensureCache c m = (Ret (Some e), m') \<Longrightarrow>
    init_sect sys ensureCache (IBody c) m IRoll m'"
| init_panic: "mc_Validate (mg_cfg m) = None \<Longrightarrow> doInitialize sys ensureCache c m = (Panic msg, m') \<Longrightarrow>
    init_sect sys ensureCache (IBody c) m (HCrashed msg) m'"
| init_ready: "init_sect sys ensureCache IReady m IEnd (m\<lparr>mg_state := managerReady\<rparr>)"
| init_rollback: "m' = (case mg_pool m of None \<Rightarrow> m
      | Some p \<Rightarrow> snd (stopAllInstances sys sched (Instances p) (mc_InstanceStopTimeout (mg_cfg m)) m)) \<Longrightarrow>
    init_sect sys ensureCache IRoll m ICreated
      (m'\<lparr>mg_pool := None, mg_cachedDBPath := mc_PrepopulateDBPath (mg_cfg m')\<rparr>)"
| init_created: "init_sect sys ensureCache ICreated m IEnd (m\<lparr>mg_state := managerCreated\<rparr>)"

inductive hsect ::
  "'w os \<Rightarrow> (kine_process, api_process, 'w) errgroup \<Rightarrow> 'w ensure_cache \<Rightarrow> hpc \<Rightarrow> 'w host \<Rightarrow> hpc \<Rightarrow> 'w host \<Rightarrow> bool"
  for sys grp ensureCache where
  h_acquire: "acq_sect sys grp pc (ho_mgr g) pc' m \<Longrightarrow> hsect sys grp ensureCache pc g pc' (g\<lparr>ho_mgr := m\<rparr>)"
| h_release: "rel_sect sys pc (ho_mgr g) pc' m \<Longrightarrow> hsect sys grp ensureCache pc g pc' (g\<lparr>ho_mgr := m\<rparr>)"
| h_back: "back_sect sys pc (ho_mgr g) pc' m \<Longrightarrow> hsect sys grp ensureCache pc g pc' (g\<lparr>ho_mgr := m\<rparr>)"
| h_shutdown: "shut_sect sys pc (ho_mgr g) pc' m \<Longrightarrow> hsect sys grp ensureCache pc g pc' (g\<lparr>ho_mgr := m\<rparr>)"
| h_initialize: "init_sect sys ensureCache pc (ho_mgr g) pc' m \<Longrightarrow> hsect sys grp ensureCache pc g pc' (g\<lparr>ho_mgr := m\<rparr>)"
| h_lock: "\<not> ho_initMu g \<Longrightarrow> hsect sys grp ensureCache (IWant c) g (IHas c) (g\<lparr>ho_initMu := True\<rparr>)"
| h_unlock: "hsect sys grp ensureCache IEnd g HIdle (g\<lparr>ho_initMu := False\<rparr>)"

text \<open>One step of goroutine \<open>t\<close>, and the states that a new manager reaches.\<close>

inductive hstep ::
  "'w os \<Rightarrow> (kine_process, api_process, 'w) errgroup \<Rightarrow> 'w ensure_cache \<Rightarrow> nat \<Rightarrow>
   'w host \<times> (nat \<Rightarrow> hpc) \<Rightarrow> 'w host \<times> (nat \<Rightarrow> hpc) \<Rightarrow> bool" for sys grp ensureCache where
  hstepI: "hsect sys grp ensureCache (pcs t) g pc' g' \<Longrightarrow> hstep sys grp ensureCache t (g, pcs) (g', pcs(t := pc'))"

inductive hreach ::
  "'w os \<Rightarrow> (kine_process, api_process, 'w) errgroup \<Rightarrow> 'w ensure_cache \<Rightarrow> manager_config \<Rightarrow>
   'w host \<times> (nat \<Rightarrow> hpc) \<Rightarrow> bool" for sys grp ensureCache cfg where
  hreach_new: "NewManagerWithConfig cfg w = Ret m \<Longrightarrow>
    hreach sys grp ensureCache cfg (\<lparr>ho_mgr = m, ho_initMu = False\<rparr>, \<lambda>_. HIdle)"
| hreach_step: "hreach sys grp ensureCache cfg x \<Longrightarrow> hstep sys grp ensureCache t x y \<Longrightarrow> hreach sys grp ensureCache cfg y"

text \<open>Any number of steps of any goroutines.\<close>

abbreviation hrun ::
  "'w os \<Rightarrow> (kine_process, api_process, 'w) errgroup \<Rightarrow> 'w ensure_cache \<Rightarrow>
   'w host \<times> (nat \<Rightarrow> hpc) \<Rightarrow> 'w host \<times> (nat \<Rightarrow> hpc) \<Rightarrow> bool" where
  "hrun sys grp ensureCache \<equiv> (\<lambda>x y. \<exists>t. hstep sys grp ensureCache t x y)\<^sup>*\<^sup>*"

lemma hreach_run: "hrun sys grp ensureCache x y \<Longrightarrow> hreach sys grp ensureCache cfg x \<Longrightarrow> hreach sys grp ensureCache cfg y"
  by (induction rule: rtranclp_induct) (auto intro: hreach_step)

subsection \<open>Invariants\<close>

text \<open>
  The contract of an invariant of the handlers: new managers have it and every section keeps it. What is
  known of the collaborators (the laws of the network, the errgroup and the cache) is part of the predicate.
\<close>

locale host_invariant =
  fixes sys :: "'w os" and grp :: "(kine_process, api_process, 'w) errgroup" and ensureCache :: "'w ensure_cache"
    and Inv :: "'w host \<Rightarrow> (nat \<Rightarrow> hpc) \<Rightarrow> bool"
  assumes inv_sect: "\<And>g pcs t pc' g'. Inv g pcs \<Longrightarrow> hsect sys grp ensureCache (pcs t) g pc' g' \<Longrightarrow> Inv g' (pcs(t := pc'))"
begin

lemma inv_step: "hstep sys grp ensureCache t x y \<Longrightarrow> Inv (fst x) (snd x) \<Longrightarrow> Inv (fst y) (snd y)"
  by (erule hstep.cases) (auto simp del: fun_upd_apply intro: inv_sect)

lemma inv_run: "hrun sys grp ensureCache x y \<Longrightarrow> Inv (fst x) (snd x) \<Longrightarrow> Inv (fst y) (snd y)"
  by (induction rule: rtranclp_induct) (auto intro: inv_step)

end

locale host_invariant_new = host_invariant +
  assumes inv_new: "\<And>cfg w m. NewManagerWithConfig cfg w = Ret m \<Longrightarrow> Inv \<lparr>ho_mgr = m, ho_initMu = False\<rparr> (\<lambda>_. HIdle)"
begin

lemma inv_reach: "hreach sys grp ensureCache cfg x \<Longrightarrow> Inv (fst x) (snd x)"
  by (induction rule: hreach.induct) (auto intro: inv_new inv_step)

end

end
