(* ===== verification/Sequential.thy ===== *)
theory Sequential
  imports Handlers
begin

text \<open>
  The handlers of the theory \<open>Manager\<close>, run by one goroutine with nobody between its sections, are runs of
  the sections of the theory \<open>Handlers\<close>. So the sections compose to the handlers, and every history of
  calls made one at a time is one of the interleavings.
\<close>

subsection \<open>Runs of one goroutine\<close>

definition solo ::
  "'w os \<Rightarrow> (kine_process, api_process, 'w) errgroup \<Rightarrow> 'w ensure_cache \<Rightarrow> 'w host \<Rightarrow>
   hpc \<times> 'w mgr \<Rightarrow> hpc \<times> 'w mgr \<Rightarrow> bool" where
  "solo sys grp ensureCache g x y \<longleftrightarrow>
     (\<lambda>a b. hsect sys grp ensureCache (fst a) (snd a) (fst b) (snd b))\<^sup>*\<^sup>*
       (fst x, g\<lparr>ho_mgr := snd x\<rparr>) (fst y, g\<lparr>ho_mgr := snd y\<rparr>)"

lemma solo_refl: "solo sys grp ec g x x"
  by (simp add: solo_def)

lemma solo_trans [trans]:
  "solo sys grp ec g x y \<Longrightarrow> solo sys grp ec g y z \<Longrightarrow> solo sys grp ec g x z"
  unfolding solo_def by (rule rtranclp_trans)

lemma solo_sect:
  "acq_sect sys grp pc m pc' m' \<Longrightarrow> solo sys grp ec g (pc, m) (pc', m')"
  "rel_sect sys pc m pc' m' \<Longrightarrow> solo sys grp ec g (pc, m) (pc', m')"
  "back_sect sys pc m pc' m' \<Longrightarrow> solo sys grp ec g (pc, m) (pc', m')"
  "shut_sect sys pc m pc' m' \<Longrightarrow> solo sys grp ec g (pc, m) (pc', m')"
  "init_sect sys ec pc m pc' m' \<Longrightarrow> solo sys grp ec g (pc, m) (pc', m')"
  unfolding solo_def
  using h_acquire [of sys grp pc "g\<lparr>ho_mgr := m\<rparr>" pc' m' ec] h_release [of sys pc "g\<lparr>ho_mgr := m\<rparr>" pc' m' grp ec]
    h_back [of sys pc "g\<lparr>ho_mgr := m\<rparr>" pc' m' grp ec] h_shutdown [of sys pc "g\<lparr>ho_mgr := m\<rparr>" pc' m' grp ec]
    h_initialize [of sys ec pc "g\<lparr>ho_mgr := m\<rparr>" pc' m' grp]
  by (auto intro!: r_into_rtranclp)

subsection \<open>The pool's operations\<close>

lemma from_view_core:
  "core.more m' = core.more m \<Longrightarrow> from_view (m\<lparr>mg_pool := Some p\<rparr>) (pool_view m' p') = m'\<lparr>mg_pool := Some p'\<rparr>"
  by (cases m; cases m') (simp add: from_view_def pool_view_def)

lemma pool_sect_on:
  assumes "sect sys (manager_factory sys m) pc (pool_view m p) pc' (pool_view m' p')" and "core.more m' = core.more m"
  shows "pool_sect sys pc (m\<lparr>mg_pool := Some p\<rparr>) pc' (m'\<lparr>mg_pool := Some p'\<rparr>)"
proof -
  have "manager_factory sys (m\<lparr>mg_pool := Some p\<rparr>) = (manager_factory sys m :: ('a, \<lparr>sh_pool :: pool\<rparr>) factory)"
    "pool_view (m\<lparr>mg_pool := Some p\<rparr>) p = pool_view m p"
    by (simp_all add: manager_factory_def manager_inst_config_def pool_view_def)
  with pool_sectI [of "m\<lparr>mg_pool := Some p\<rparr>" p sys pc pc' "pool_view m' p'"] assms from_view_core [OF assms(2)]
  show ?thesis by simp
qed

text \<open>The operations on instances do the same on the pool's view of the manager.\<close>

lemma view_ops:
  "set_inst a i (pool_view m p) = pool_view (set_inst a i m) p"
  "stopInstanceBestEffort sys a (pool_view m p) = pool_view (stopInstanceBestEffort sys a m) p"
  by (simp_all add: pool_view_def set_inst_def stopInstanceBestEffort_def inst_call_def Let_def split: prod.splits)

lemma view_factory:
  "instanceFactory sys base cfg idx m = (out, m') \<Longrightarrow> instanceFactory sys base cfg idx (pool_view m p) = (out, pool_view m' p)"
  by (auto simp: instanceFactory_def pool_view_def alloc_inst_def set_inst_def Let_def split: prod.splits outcome.splits)

text \<open>One section of the pool inside \<^verbatim>\<open>Acquire\<close>, \<^verbatim>\<open>ReleaseFailed\<close> and \<^verbatim>\<open>Release\<close>.\<close>

lemma solo_acquire:
  assumes "sect sys (manager_factory sys m) pc (pool_view m p) pc' (pool_view m' p')" and "core.more m' = core.more m" and "pc \<noteq> Idle"
  shows "solo sys grp ec g (APool d pc, m\<lparr>mg_pool := Some p\<rparr>) (after_acquire d pc', m'\<lparr>mg_pool := Some p'\<rparr>)"
  by (rule solo_sect(1) [OF acq_inside [OF assms(3) pool_sect_on [OF assms(1,2)]]])

lemma solo_failed:
  assumes "sect sys (manager_factory sys m) pc (pool_view m p) pc' (pool_view m' p')" and "core.more m' = core.more m"
  shows "solo sys grp ec g (Back k pc, m\<lparr>mg_pool := Some p\<rparr>) (after_failed k pc', m'\<lparr>mg_pool := Some p'\<rparr>)"
  by (rule solo_sect(3) [OF fail_inside [OF pool_sect_on [OF assms]]])

lemma solo_release:
  assumes "sect sys (manager_factory sys m) pc (pool_view m p) pc' (pool_view m' p')" and "core.more m' = core.more m"
  shows "solo sys grp ec g (RPool pc, m\<lparr>mg_pool := Some p\<rparr>) (after_release pc', m'\<lparr>mg_pool := Some p'\<rparr>)"
  by (rule solo_sect(2) [OF rel_inside [OF pool_sect_on [OF assms]]])

lemma view_pool: "(pool_view m p)\<lparr>sh_pool := q\<rparr> = pool_view m q"
  by (simp add: pool_view_def)

text \<open>The sections of the pool as they stand on the manager.\<close>

lemma on_view:
  "takeSlot sys c ev (co_world m) p = Some (Some e, q) \<Longrightarrow> sect sys f (AWait c) (pool_view m p) Idle (pool_view m q)"
  "takeSlot sys c ev (co_world m) p = Some (None, q) \<Longrightarrow> sect sys f (AWait c) (pool_view m p) ASlot (pool_view m q)"
  "popFree p = (AcqClosed, q) \<Longrightarrow> sect sys f ASlot (pool_view m p) RSlot (pool_view m q)"
  "popFree p = (AcqPop a, q) \<Longrightarrow> sect sys f ASlot (pool_view m p) (APopped a) (pool_view m q)"
  "popFree p = (AcqNew idx, q) \<Longrightarrow> sect sys f ASlot (pool_view m p) (ANew idx) (pool_view m q)"
  "markAcquired (co_heap m a) = (t, i) \<Longrightarrow> sect sys f (APopped a) (pool_view m p) (Holds a t) (pool_view (set_inst a i m) p)"
  "registerNew a p = (False, q) \<Longrightarrow> sect sys f (AMade a) (pool_view m p) (APopped a) (pool_view m q)"
  "registerNew a p = (True, q) \<Longrightarrow> sect sys f (AMade a) (pool_view m p) (AClosedNew a) (pool_view m q)"
  "returnSlot p = (Ret u, q) \<Longrightarrow> sect sys f (AClosedNew a) (pool_view m p) (AStop a) (pool_view m q)"
  "sect sys f (AStop a) (pool_view m p) Idle (pool_view (stopInstanceBestEffort sys a m) p)"
  "pushFree a p = (False, q) \<Longrightarrow> sect sys f (RConsumed a) (pool_view m p) RSlot (pool_view m q)"
  "pushFree a p = (True, q) \<Longrightarrow> sect sys f (RConsumed a) (pool_view m p) (RStop a) (pool_view m q)"
  "sect sys f (RStop a) (pool_view m p) RSlot (pool_view (stopInstanceBestEffort sys a m) p)"
  "returnSlot p = (Ret u, q) \<Longrightarrow> sect sys f RSlot (pool_view m p) Idle (pool_view m q)"
  using slot_refused [of sys c ev "pool_view m p" e q f] slot_taken [of sys c ev "pool_view m p" q f]
    pop_closed [of "pool_view m p" q sys f] pop_free [of "pool_view m p" a q sys f] pop_new [of "pool_view m p" idx q sys f]
    mark [of "pool_view m p" a t i sys f] register [of a "pool_view m p" q sys f] register_closed [of a "pool_view m p" q sys f]
    return_new [of "pool_view m p" u q sys f a] stop_new [of sys f a "pool_view m p"] push [of a "pool_view m p" q sys f]
    push_closed [of a "pool_view m p" q sys f] stop [of sys f a "pool_view m p"] return_slot [of "pool_view m p" u q sys f]
  by (simp_all add: view_pool view_ops)

lemma on_view_make:
  "manager_factory sys m idx m = (Ret (Inr a), m') \<Longrightarrow>
     sect sys (manager_factory sys m) (ANew idx) (pool_view m p) (AMade a) (pool_view m' p)"
  "manager_factory sys m idx m = (Ret (Inl e), m') \<Longrightarrow>
     sect sys (manager_factory sys m) (ANew idx) (pool_view m p) RSlot (pool_view m' p)"
  unfolding manager_factory_def by (auto intro!: make make_fail dest: view_factory)

lemma more_ops [simp]:
  "core.more (set_inst a i s) = core.more s" "core.more (stopInstanceBestEffort sys a s) = core.more s"
  by (auto simp: set_inst_def stopInstanceBestEffort_gen)

definition granted_pc :: "ctx \<Rightarrow> go_error + nat \<times> 64 word \<Rightarrow> hpc" where
  "granted_pc d r = (case r of Inl _ \<Rightarrow> AEnd d | Inr (a, t) \<Rightarrow> ALook d a t)"

lemma slot_back_solo:
  assumes "returnSlot p = (Ret u, q)"
  shows "solo sys grp ec g (APool d RSlot, m\<lparr>mg_pool := Some p\<rparr>) (AEnd d, m\<lparr>mg_pool := Some q\<rparr>)"
  using solo_acquire [OF on_view(14) [OF assms, where m = m and f = "manager_factory sys m"] refl, where d = d] by simp

lemma marked_solo:
  assumes "markAcquired (co_heap m a) = (t, i)"
  shows "solo sys grp ec g (APool d (APopped a), m\<lparr>mg_pool := Some p\<rparr>) (ALook d a t, (set_inst a i m)\<lparr>mg_pool := Some p\<rparr>)"
  using solo_acquire [OF on_view(6) [OF assms, where f = "manager_factory sys m"], where d = d] by simp

lemma new_solo:
  assumes f: "manager_factory sys m idx m = (Ret (Inr a), m1)"
  shows "registerNew a p = (True, q) \<Longrightarrow> returnSlot q = (Ret u, q') \<Longrightarrow>
      solo sys grp ec g (APool d (ANew idx), m\<lparr>mg_pool := Some p\<rparr>) (AEnd d, (stopInstanceBestEffort sys a m1)\<lparr>mg_pool := Some q'\<rparr>)"
    and "registerNew a p = (False, q) \<Longrightarrow> markAcquired (co_heap m1 a) = (t, i) \<Longrightarrow>
      solo sys grp ec g (APool d (ANew idx), m\<lparr>mg_pool := Some p\<rparr>) (ALook d a t, (set_inst a i m1)\<lparr>mg_pool := Some q\<rparr>)"
proof -
  let ?f = "manager_factory sys m1"
  have more: "core.more m1 = core.more m" using mf.factory_frame f unfolding manager_factory_def by blast
  have made: "solo sys grp ec g (APool d (ANew idx), m\<lparr>mg_pool := Some p\<rparr>) (APool d (AMade a), m1\<lparr>mg_pool := Some p\<rparr>)"
    using solo_acquire [OF on_view_make(1) [OF f] more, where d = d] by simp
  {
    assume reg: "registerNew a p = (True, q)" and ret: "returnSlot q = (Ret u, q')"
    note made
    also have "solo sys grp ec g (APool d (AMade a), m1\<lparr>mg_pool := Some p\<rparr>) (APool d (AClosedNew a), m1\<lparr>mg_pool := Some q\<rparr>)"
      using solo_acquire [OF on_view(8) [OF reg, where f = ?f] refl, where d = d] by simp
    also have "solo sys grp ec g (APool d (AClosedNew a), m1\<lparr>mg_pool := Some q\<rparr>) (APool d (AStop a), m1\<lparr>mg_pool := Some q'\<rparr>)"
      using solo_acquire [OF on_view(9) [OF ret, where f = ?f] refl, where d = d] by simp
    also have "solo sys grp ec g (APool d (AStop a), m1\<lparr>mg_pool := Some q'\<rparr>) (AEnd d, (stopInstanceBestEffort sys a m1)\<lparr>mg_pool := Some q'\<rparr>)"
      using solo_acquire [OF on_view(10) [where f = ?f], where d = d] by simp
    finally show "solo sys grp ec g (APool d (ANew idx), m\<lparr>mg_pool := Some p\<rparr>)
      (AEnd d, (stopInstanceBestEffort sys a m1)\<lparr>mg_pool := Some q'\<rparr>)" .
  next
    assume reg: "registerNew a p = (False, q)" and mark: "markAcquired (co_heap m1 a) = (t, i)"
    note made
    also have "solo sys grp ec g (APool d (AMade a), m1\<lparr>mg_pool := Some p\<rparr>) (APool d (APopped a), m1\<lparr>mg_pool := Some q\<rparr>)"
      using solo_acquire [OF on_view(7) [OF reg, where f = ?f] refl, where d = d] by simp
    also note marked_solo [OF mark]
    finally show "solo sys grp ec g (APool d (ANew idx), m\<lparr>mg_pool := Some p\<rparr>) (ALook d a t, (set_inst a i m1)\<lparr>mg_pool := Some q\<rparr>)" .
  }
qed

lemma acquire_new_solo:
  assumes pop: "popFree p = (AcqNew idx, q)" and run: "acquireUnlocked sys (manager_factory sys m) id p m = (Ret r, p', m')"
  shows "solo sys grp ec g (APool d (ANew idx), m\<lparr>mg_pool := Some q\<rparr>) (granted_pc d r, m'\<lparr>mg_pool := Some p'\<rparr>)"
proof -
  obtain o1 m1 where f: "manager_factory sys m idx m = (o1, m1)" by fastforce
  have more: "core.more m1 = core.more m" using mf.factory_frame f unfolding manager_factory_def by blast
  from run pop f obtain x where x: "o1 = Ret x" by (cases o1) (auto simp: acquireUnlocked_def)
  show ?thesis
  proof (cases x)
    case (Inl e)
    with run pop f x obtain u where ret: "returnSlot q = (Ret u, p')" and r: "granted_pc d r = AEnd d" "m' = m1"
      by (auto simp: acquireUnlocked_def granted_pc_def split: prod.splits)
    have "solo sys grp ec g (APool d (ANew idx), m\<lparr>mg_pool := Some q\<rparr>) (APool d RSlot, m1\<lparr>mg_pool := Some q\<rparr>)"
      using solo_acquire [OF on_view_make(2) more, where d = d] f x Inl by simp
    also note slot_back_solo [OF ret]
    finally show ?thesis using r by simp
  next
    case (Inr a)
    then have f': "manager_factory sys m idx m = (Ret (Inr a), m1)" using f x by simp
    obtain b q1 where reg: "registerNew a q = (b, q1)" by fastforce
    obtain t i where mark: "markAcquired (co_heap m1 a) = (t, i)" by fastforce
    show ?thesis
    proof (cases b)
      case True
      with run pop f' reg obtain u where "returnSlot q1 = (Ret u, p')" "granted_pc d r = AEnd d" "m' = stopInstanceBestEffort sys a m1"
        by (auto simp: acquireUnlocked_def granted_pc_def split: prod.splits outcome.splits)
      with new_solo(1) [OF f'] reg True show ?thesis by simp
    next
      case False
      with run pop f' reg mark new_solo(2) [OF f', of q q1 t i] show ?thesis
        by (auto simp: acquireUnlocked_def granted_pc_def)
    qed
  qed
qed

lemma acquireUnlocked_solo:
  assumes run: "acquireUnlocked sys (manager_factory sys m) id p m = (Ret r, p', m')"
  shows "solo sys grp ec g (APool d ASlot, m\<lparr>mg_pool := Some p\<rparr>) (granted_pc d r, m'\<lparr>mg_pool := Some p'\<rparr>)"
proof -
  obtain ch q where pop: "popFree p = (ch, q)" by fastforce
  note first = solo_acquire [OF on_view(3) refl, where d = d] solo_acquire [OF on_view(4) refl, where d = d]
    solo_acquire [OF on_view(5) refl, where d = d]
  show ?thesis
  proof (cases ch)
    case AcqClosed
    with run pop obtain u where ret: "returnSlot q = (Ret u, p')" and r: "r = Inl ErrPoolClosed" "m' = m"
      by (auto simp: acquireUnlocked_def split: prod.splits)
    have "solo sys grp ec g (APool d ASlot, m\<lparr>mg_pool := Some p\<rparr>) (APool d RSlot, m\<lparr>mg_pool := Some q\<rparr>)"
      using first(1) pop AcqClosed by simp
    also note slot_back_solo [OF ret]
    finally show ?thesis using r by (simp add: granted_pc_def)
  next
    case (AcqPop a)
    obtain t i where mark: "markAcquired (co_heap m a) = (t, i)" by fastforce
    have "solo sys grp ec g (APool d ASlot, m\<lparr>mg_pool := Some p\<rparr>) (APool d (APopped a), m\<lparr>mg_pool := Some q\<rparr>)"
      using first(2) pop AcqPop by simp
    also note marked_solo [OF mark]
    finally show ?thesis using run pop AcqPop mark by (auto simp: acquireUnlocked_def granted_pc_def)
  next
    case (AcqNew idx)
    have "solo sys grp ec g (APool d ASlot, m\<lparr>mg_pool := Some p\<rparr>) (APool d (ANew idx), m\<lparr>mg_pool := Some q\<rparr>)"
      using first(3) pop AcqNew by simp
    also from acquire_new_solo [OF _ run] pop AcqNew have
      "solo sys grp ec g (APool d (ANew idx), m\<lparr>mg_pool := Some q\<rparr>) (granted_pc d r, m'\<lparr>mg_pool := Some p'\<rparr>)" by simp
    finally show ?thesis .
  qed
qed

lemma pool_Acquire_solo:
  assumes run: "pool_Acquire sys (manager_factory sys m) id d ev p m = Some (Ret r, p', m')"
  shows "solo sys grp ec g (APool d Idle, m\<lparr>mg_pool := Some p\<rparr>) (granted_pc d r, m'\<lparr>mg_pool := Some p'\<rparr>)"
proof (cases "os_ctx_err sys d (co_world m)")
  case (Some ce)
  with run have "granted_pc d r = AEnd d" "p' = p" "m' = m" by (auto simp: pool_Acquire_def granted_pc_def)
  with acq_ended [of sys d "m\<lparr>mg_pool := Some p\<rparr>" grp] Some show ?thesis by (auto intro: solo_sect(1))
next
  case None
  with acq_wait [of sys d "m\<lparr>mg_pool := Some p\<rparr>" grp] have
    "solo sys grp ec g (APool d Idle, m\<lparr>mg_pool := Some p\<rparr>) (APool d (AWait d), m\<lparr>mg_pool := Some p\<rparr>)"
    by (auto intro: solo_sect(1))
  also obtain e q where take: "takeSlot sys d ev (co_world m) p = Some (e, q)"
    using run None by (auto simp: pool_Acquire_def split: option.splits)
  have "solo sys grp ec g (APool d (AWait d), m\<lparr>mg_pool := Some p\<rparr>) (granted_pc d r, m'\<lparr>mg_pool := Some p'\<rparr>)"
  proof (cases e)
    case (Some x)
    with run None take have "granted_pc d r = AEnd d" "p' = q" "m' = m" by (auto simp: pool_Acquire_def granted_pc_def)
    with solo_acquire [OF on_view(1) refl, where d = d] take Some show ?thesis by simp
  next
    case None': None
    have "solo sys grp ec g (APool d (AWait d), m\<lparr>mg_pool := Some p\<rparr>) (APool d ASlot, m\<lparr>mg_pool := Some q\<rparr>)"
      using solo_acquire [OF on_view(2) refl, where d = d] take None' by simp
    also from acquireUnlocked_solo run None take None' have
      "solo sys grp ec g (APool d ASlot, m\<lparr>mg_pool := Some q\<rparr>) (granted_pc d r, m'\<lparr>mg_pool := Some p'\<rparr>)"
      by (auto simp: pool_Acquire_def)
    finally show ?thesis .
  qed
  finally show ?thesis .
qed

lemma with_pool: "mg_pool m = Some p \<Longrightarrow> m\<lparr>mg_pool := Some p\<rparr> = m"
  by (cases m) simp

lemma ReleaseFailed_solo:
  assumes run: "ReleaseFailed sys a t m = (Ret u, m')"
  shows "solo sys grp ec g (AFail k a t, m) (ended k, m')"
proof (cases "mg_pool m")
  case None
  with run fail_nil [of m sys k a t] show ?thesis by (auto simp: ReleaseFailed_def intro: solo_sect(3))
next
  case (Some p)
  from run Some obtain v i w p' where mr: "mustRelease (co_heap m a) t = (Ret v, i)" and ret: "returnSlot p = (Ret w, p')"
    and m': "m' = (stopInstanceBestEffort sys a (set_inst a i m))\<lparr>mg_pool := Some p'\<rparr>"
    by (auto simp: ReleaseFailed_def pool_ReleaseFailed_def Let_def split: prod.splits outcome.splits)
  let ?m = "set_inst a i m" and ?n = "stopInstanceBestEffort sys a (set_inst a i m)"
  have m: "?m\<lparr>mg_pool := Some p\<rparr> = ?m" using Some by (intro with_pool) (simp add: set_inst_def)
  from Some have "solo sys grp ec g (AFail k a t, m) (Back k (RStop a), ?m)"
    by (intro solo_sect(3) fail_consume [OF _ mr]) simp
  also have "solo sys grp ec g (Back k (RStop a), ?m) (Back k RSlot, ?n\<lparr>mg_pool := Some p\<rparr>)"
    using solo_failed [OF on_view(13) [where f = "manager_factory sys ?m" and m = ?m and p = p], where k = k] m by simp
  also have "solo sys grp ec g (Back k RSlot, ?n\<lparr>mg_pool := Some p\<rparr>) (ended k, m')"
    using solo_failed [OF on_view(14) [OF ret, where f = "manager_factory sys ?n"] refl, where k = k] m' by simp
  finally show ?thesis .
qed

lemma pool_Release_solo:
  assumes pool: "mg_pool m = Some p" and run: "pool_Release sys a t p m = (Ret u, p', m1)"
  shows "solo sys grp ec g (RLoad a t, m) (RLeave None, m1\<lparr>mg_pool := Some p'\<rparr>)"
proof -
  from run obtain v i where mr: "mustRelease (co_heap m a) t = (Ret v, i)"
    by (auto simp: pool_Release_def split: prod.splits outcome.splits)
  let ?m = "set_inst a i m" and ?n = "stopInstanceBestEffort sys a (set_inst a i m)"
  obtain b q where push: "pushFree a p = (b, q)" by fastforce
  have m: "?m\<lparr>mg_pool := Some p\<rparr> = ?m" using pool by (intro with_pool) (simp add: set_inst_def)
  have slot: "solo sys grp ec g (RPool RSlot, n\<lparr>mg_pool := Some q\<rparr>) (RLeave None, n\<lparr>mg_pool := Some p'\<rparr>)"
    if "returnSlot q = (Ret w, p')" for w n
    using solo_release [OF on_view(14) [OF that, where f = "manager_factory sys n"] refl] by simp
  from pool have "solo sys grp ec g (RLoad a t, m) (RPool (RConsumed a), ?m)"
    by (intro solo_sect(2) rel_pool [OF _ mr]) simp
  also have "solo sys grp ec g (RPool (RConsumed a), ?m) (RLeave None, m1\<lparr>mg_pool := Some p'\<rparr>)"
  proof (cases b)
    case True
    have "solo sys grp ec g (RPool (RConsumed a), ?m) (RPool (RStop a), ?m\<lparr>mg_pool := Some q\<rparr>)"
      using solo_release [OF on_view(12) [where f = "manager_factory sys ?m" and m = ?m and p = p] refl] push True m by simp
    also have "solo sys grp ec g (RPool (RStop a), ?m\<lparr>mg_pool := Some q\<rparr>) (RPool RSlot, ?n\<lparr>mg_pool := Some q\<rparr>)"
      using solo_release [OF on_view(13) [where f = "manager_factory sys ?m" and m = ?m and p = q]] by simp
    finally show ?thesis using slot run mr push True by (auto simp: pool_Release_def Let_def split: prod.splits intro: solo_trans)
  next
    case False
    have "solo sys grp ec g (RPool (RConsumed a), ?m) (RPool RSlot, ?m\<lparr>mg_pool := Some q\<rparr>)"
      using solo_release [OF on_view(11) [where f = "manager_factory sys ?m" and m = ?m and p = p] refl] push False m by simp
    then show ?thesis using slot run mr push False by (auto simp: pool_Release_def Let_def split: prod.splits intro: solo_trans)
  qed
  finally show ?thesis .
qed

subsection \<open>The handlers\<close>

lemma startHeld_solo:
  assumes run: "startHeld sys grp d a t m = (Ret r, m')"
  shows "solo sys grp ec g (AStart d a t, m) (case r of Inl _ \<Rightarrow> AEnd d | Inr _ \<Rightarrow> ADone d a t, m')"
proof (cases "IsStarted (co_heap m a)")
  case True
  with run start_warm [of m a sys grp d t] show ?thesis by (auto simp: startHeld_def intro: solo_sect(1))
next
  case False
  obtain e m1 where st: "inst_call a (\<lambda>i r w. inst_Start sys grp i d r w) m = (e, m1)" by fastforce
  show ?thesis
  proof (cases e)
    case None
    with run False st start_ok [OF False, of sys grp d m1 t] show ?thesis
      by (auto simp: startHeld_def intro: solo_sect(1))
  next
    case (Some x)
    let ?n = "set_inst a (setErr (co_heap m1 a) x) m1"
    have "solo sys grp ec g (AStart d a t, m) (AFail (Some d) a t, ?n)"
      using start_fail [OF False, of sys grp d x m1 t] st Some by (intro solo_sect(1)) simp
    also from run False st Some obtain u where "ReleaseFailed sys a t ?n = (Ret u, m')" and r: "\<exists>y. r = Inl y"
      by (auto simp: startHeld_def split: prod.splits)
    then have "solo sys grp ec g (AFail (Some d) a t, ?n) (AEnd d, m')" using ReleaseFailed_solo [where k = "Some d"] by simp
    finally show ?thesis using r by auto
  qed
qed

lemma stopInstanceDuringShutdown_solo:
  assumes c: "os_ctx_with_timeout sys Background (mc_InstanceStopTimeout (mg_cfg m)) (co_world m) = (c, w)"
    and run: "stopInstanceDuringShutdown sys c a t (m\<lparr>co_world := w\<rparr>) = (Ret u, m1)"
  shows "solo sys grp ec g (Down k a t, m) (ended k, m1\<lparr>co_world := os_ctx_cancel sys c (co_world m1)\<rparr>)"
proof -
  from run obtain v i where mr: "mustRelease (co_heap m a) t = (Ret v, i)"
    and m1: "m1 = snd (inst_call a (\<lambda>j r w. inst_Stop sys j c r w) (set_inst a i (m\<lparr>co_world := w\<rparr>)))"
    by (auto simp: stopInstanceDuringShutdown_def split: prod.splits outcome.splits)
  then obtain e where st: "inst_call a (\<lambda>j r w. inst_Stop sys j c r w) (set_inst a i (m\<lparr>co_world := w\<rparr>)) = (e, m1)"
    by (metis prod.collapse)
  have "(set_inst a i m)\<lparr>co_world := w\<rparr> = set_inst a i (m\<lparr>co_world := w\<rparr>)" by (simp add: set_inst_def)
  with down_consume [OF c mr] have "solo sys grp ec g (Down k a t, m) (DStop k c a, set_inst a i (m\<lparr>co_world := w\<rparr>))"
    by (auto intro: solo_sect(3))
  also from down_stop [OF st] have "solo sys grp ec g (DStop k c a, set_inst a i (m\<lparr>co_world := w\<rparr>))
    (ended k, m1\<lparr>co_world := os_ctx_cancel sys c (co_world m1)\<rparr>)" by (auto intro: solo_sect(3))
  finally show ?thesis .
qed

lemma acquireStarted_solo:
  assumes run: "acquireStarted sys grp d a t m = (Ret r, m')"
  shows "solo sys grp ec g (ALook d a t, m) (case r of Inl _ \<Rightarrow> AEnd d | Inr _ \<Rightarrow> ADone d a t, m')"
proof (cases "mg_state m = managerShuttingDown")
  case True
  obtain c w where c: "os_ctx_with_timeout sys Background (mc_InstanceStopTimeout (mg_cfg m)) (co_world m) = (c, w)" by fastforce
  with run True obtain u m1 where st: "stopInstanceDuringShutdown sys c a t (m\<lparr>co_world := w\<rparr>) = (Ret u, m1)"
    and r: "r = Inl ErrShuttingDown" "m' = m1\<lparr>co_world := os_ctx_cancel sys c (co_world m1)\<rparr>"
    by (auto simp: acquireStarted_def split: prod.splits)
  have "solo sys grp ec g (ALook d a t, m) (Down (Some d) a t, m)" by (intro solo_sect(1) look_down True)
  also from stopInstanceDuringShutdown_solo [OF c st, where k = "Some d"] r have
    "solo sys grp ec g (Down (Some d) a t, m) (AEnd d, m')" by simp
  finally show ?thesis using r by simp
next
  case False
  have "solo sys grp ec g (ALook d a t, m) (AStart d a t, m)" by (intro solo_sect(1) look_up False)
  also from run False startHeld_solo have "solo sys grp ec g (AStart d a t, m) (case r of Inl _ \<Rightarrow> AEnd d | Inr _ \<Rightarrow> ADone d a t, m')"
    by (simp add: acquireStarted_def)
  finally show ?thesis .
qed

definition acquired_pc :: "go_error + nat \<times> 64 word \<Rightarrow> hpc" where
  "acquired_pc r = (case r of Inl _ \<Rightarrow> HIdle | Inr (a, t) \<Rightarrow> Held a t)"

lemma startHeld_answer: "startHeld sys grp d a t m = (Ret (Inr y), m') \<Longrightarrow> y = (a, t)"
  by (auto simp: startHeld_def split: if_splits prod.splits option.splits)

lemma acquireStarted_answer: "acquireStarted sys grp d a t m = (Ret (Inr y), m') \<Longrightarrow> y = (a, t)"
  by (auto simp: acquireStarted_def split: if_splits prod.splits dest: startHeld_answer)

lemma acquire_end_solo:
  assumes "acquireStarted sys grp d a t m = (Ret r, m')"
  shows "solo sys grp ec g (ALook d a t, m) (acquired_pc r, m'\<lparr>co_world := os_ctx_cancel sys d (co_world m')\<rparr>)"
proof -
  note acquireStarted_solo [OF assms]
  also have "solo sys grp ec g (case r of Inl _ \<Rightarrow> AEnd d | Inr _ \<Rightarrow> ADone d a t, m')
      (acquired_pc r, m'\<lparr>co_world := os_ctx_cancel sys d (co_world m')\<rparr>)"
  proof (cases r)
    case (Inl e)
    then show ?thesis using solo_sect(1) [OF acq_error] by (simp add: acquired_pc_def)
  next
    case (Inr y)
    with assms acquireStarted_answer have "y = (a, t)" by blast
    with Inr show ?thesis using solo_sect(1) [OF acq_return] by (simp add: acquired_pc_def)
  qed
  finally show ?thesis .
qed

lemma pool_call_solo:
  assumes run: "manager_Acquire sys grp id id c ev m = Some (Ret r, m')" and ready: "mg_state m = managerReady" and pool: "mg_pool m = Some p"
  shows "solo sys grp ec g (AReady c, m) (acquired_pc r, m')"
proof -
  obtain d w where d: "os_ctx_with_timeout sys c (mc_AcquireTimeout (mg_cfg m)) (co_world m) = (d, w)" by fastforce
  let ?m = "m\<lparr>co_world := w\<rparr>"
  have m: "?m\<lparr>mg_pool := Some p\<rparr> = ?m" "manager_factory sys ?m = (manager_factory sys m :: ('a, 'b) factory)" for sys
    using with_pool [of ?m p] pool by (simp_all add: manager_factory_def manager_inst_config_def)
  from run ready pool d obtain x p1 m1 where
    acq: "pool_Acquire sys (manager_factory sys ?m) id d ev p ?m = Some (Ret x, p1, m1)"
    unfolding m(2) by (auto simp: manager_Acquire_def split: option.splits outcome.splits)
  have "solo sys grp ec g (AReady c, m) (APool d Idle, ?m)" using pool d by (intro solo_sect(1) acq_pool) simp_all
  also from pool_Acquire_solo [OF acq] m(1) have
    "solo sys grp ec g (APool d Idle, ?m) (granted_pc d x, m1\<lparr>mg_pool := Some p1\<rparr>)" by simp
  also have "solo sys grp ec g (granted_pc d x, m1\<lparr>mg_pool := Some p1\<rparr>) (acquired_pc r, m')"
  proof (cases x)
    case (Inl e)
    with run ready pool d acq [unfolded m(2)] have "acquired_pc r = HIdle"
      "m' = (m1\<lparr>mg_pool := Some p1\<rparr>)\<lparr>co_world := os_ctx_cancel sys d (co_world (m1\<lparr>mg_pool := Some p1\<rparr>))\<rparr>"
      by (auto simp: manager_Acquire_def acquired_pc_def)
    then show ?thesis using Inl solo_sect(1) [OF acq_error [of sys grp d "m1\<lparr>mg_pool := Some p1\<rparr>"]] by (simp add: granted_pc_def)
  next
    case (Inr y)
    with run ready pool d acq [unfolded m(2)] obtain m2 where
      "acquireStarted sys grp d (fst y) (snd y) (m1\<lparr>mg_pool := Some p1\<rparr>) = (Ret r, m2)"
      "m' = m2\<lparr>co_world := os_ctx_cancel sys d (co_world m2)\<rparr>"
      by (cases y) (auto simp: manager_Acquire_def split: prod.splits)
    with acquire_end_solo Inr show ?thesis by (cases y) (simp add: granted_pc_def)
  qed
  finally show ?thesis .
qed

lemma manager_Acquire_solo:
  assumes run: "manager_Acquire sys grp id id c ev m = Some (Ret r, m')"
  shows "solo sys grp ec g (HIdle, m) (acquired_pc r, m')"
proof (cases "mg_state m = managerReady")
  case False
  with run have "acquired_pc r = HIdle" "m' = m"
    by (auto simp: manager_Acquire_def acquired_pc_def split: managerState.splits)
  then show ?thesis using solo_refl by simp
next
  case ready: True
  have "solo sys grp ec g (HIdle, m) (AReady c, m)" by (intro solo_sect(1) acq_ready ready)
  also have "solo sys grp ec g (AReady c, m) (acquired_pc r, m')"
  proof (cases "mg_pool m")
    case None
    with run ready have "acquired_pc r = HIdle" "m' = m" by (auto simp: manager_Acquire_def acquired_pc_def)
    with acq_nil [OF None] show ?thesis by (auto intro: solo_sect(1))
  qed (rule pool_call_solo [OF run ready])
  finally show ?thesis .
qed

lemma leaveInflight_solo:
  "solo sys grp ec g (RLeave r, m) (case r of None \<Rightarrow> HIdle | Some (a, t) \<Rightarrow> Down None a t, leaveInflight m)"
proof -
  obtain z m1 where z: "decInflight m = (z, m1)" by fastforce
  have "solo sys grp ec g (RLeave r, m) (RNote z r, m1)" by (intro solo_sect(2) rel_leave z)
  also have "solo sys grp ec g (RNote z r, m1) (case r of None \<Rightarrow> HIdle | Some (a, t) \<Rightarrow> Down None a t, noteDrained z m1)"
    by (cases r) (auto intro: solo_sect(2) rel_done rel_stop)
  finally show ?thesis by (simp add: leaveInflight_def z)
qed

lemma tryReleaseToPool_solo:
  assumes run: "tryReleaseToPool sys a t m = (Ret b, m')"
  shows "solo sys grp ec g (REnter a t, m) (if b then HIdle else Down None a t, m')"
proof -
  let ?m = "m\<lparr>mg_inflight := mg_inflight m + 1\<rparr>"
  have "solo sys grp ec g (REnter a t, m) (RIn a t, ?m)" by (intro solo_sect(2) rel_enter)
  also have "solo sys grp ec g (RIn a t, ?m) (if b then HIdle else Down None a t, m')"
  proof (cases "mg_state m = managerShuttingDown")
    case True
    with run have "\<not> b" "m' = leaveInflight ?m" by (auto simp: tryReleaseToPool_def Let_def)
    moreover have "solo sys grp ec g (RIn a t, ?m) (RLeave (Some (a, t)), ?m)" by (intro solo_sect(2) rel_down) (simp add: True)
    ultimately show ?thesis using solo_trans [OF _ leaveInflight_solo [of _ _ _ _ "Some (a, t)" ?m]] by simp
  next
    case False
    have "solo sys grp ec g (RIn a t, ?m) (RLoad a t, ?m)" by (intro solo_sect(2) rel_up) (simp add: False)
    also have "solo sys grp ec g (RLoad a t, ?m) (if b then HIdle else Down None a t, m')"
    proof (cases "mg_pool m")
      case None
      with run False have "\<not> b" "m' = leaveInflight ?m" by (auto simp: tryReleaseToPool_def Let_def)
      moreover have "solo sys grp ec g (RLoad a t, ?m) (RLeave (Some (a, t)), ?m)" by (intro solo_sect(2) rel_nil) (simp add: None)
      ultimately show ?thesis using solo_trans [OF _ leaveInflight_solo [of _ _ _ _ "Some (a, t)" ?m]] by simp
    next
      case (Some p)
      with run False obtain u p1 m2 where "pool_Release sys a t p ?m = (Ret u, p1, m2)" and b: "b" "m' = leaveInflight (m2\<lparr>mg_pool := Some p1\<rparr>)"
        by (auto simp: tryReleaseToPool_def Let_def split: prod.splits)
      with pool_Release_solo [of ?m p] Some have "solo sys grp ec g (RLoad a t, ?m) (RLeave None, m2\<lparr>mg_pool := Some p1\<rparr>)" by simp
      with b show ?thesis using solo_trans [OF _ leaveInflight_solo [of _ _ _ _ None "m2\<lparr>mg_pool := Some p1\<rparr>"]] by simp
    qed
    finally show ?thesis .
  qed
  finally show ?thesis .
qed

lemma ReleaseToPool_solo:
  assumes run: "ReleaseToPool sys a t m = (Ret b, m')"
  shows "solo sys grp ec g (REnter a t, m) (HIdle, m')"
proof -
  from run obtain b1 m1 where try1: "tryReleaseToPool sys a t m = (Ret b1, m1)"
    by (auto simp: ReleaseToPool_def split: prod.splits outcome.splits)
  note tryReleaseToPool_solo [OF try1]
  also have "solo sys grp ec g (if b1 then HIdle else Down None a t, m1) (HIdle, m')"
  proof (cases b1)
    case True
    with run try1 show ?thesis by (simp add: ReleaseToPool_def solo_refl)
  next
    case False
    obtain c w where c: "os_ctx_with_timeout sys Background (mc_InstanceStopTimeout (mg_cfg m1)) (co_world m1) = (c, w)" by fastforce
    with run try1 False obtain u m2 where "stopInstanceDuringShutdown sys c a t (m1\<lparr>co_world := w\<rparr>) = (Ret u, m2)"
      "m' = m2\<lparr>co_world := os_ctx_cancel sys c (co_world m2)\<rparr>" by (auto simp: ReleaseToPool_def split: prod.splits)
    with stopInstanceDuringShutdown_solo [OF c, where k = None] False show ?thesis by simp
  qed
  finally show ?thesis .
qed

lemma failRelease_solo:
  assumes run: "failRelease (ReleaseFailed sys) a t msg err m = (Ret w, m')"
  shows "solo sys grp ec g (AFail k a t, set_inst a (setErr (co_heap m a) (Wrapf ''%s: %w'' [ArgStr msg] err)) m) (ended k, m')"
proof -
  from run obtain u where "ReleaseFailed sys a t (set_inst a (setErr (co_heap m a) (Wrapf ''%s: %w'' [ArgStr msg] err)) m) = (Ret u, m')"
    by (auto simp: failRelease_def Let_def split: prod.splits outcome.splits)
  from ReleaseFailed_solo [OF this] show ?thesis .
qed

lemma purge_run_solo:
  assumes run: "releasePurge sys (ReleaseFailed sys) a t m = (Ret r, m')" and h: "in_started (co_heap m a)" "in_purge (co_heap m a) = Some h"
  shows "solo sys grp ec g (RRun h a t, m) (case r of None \<Rightarrow> REnter a t | Some _ \<Rightarrow> HIdle, m')"
proof -
  obtain cc w1 where c: "os_ctx_with_timeout sys Background (ic_CleanupTimeout (in_cfg (co_heap m a))) (co_world m) = (cc, w1)"
    by fastforce
  obtain e w2 where p: "purge_purge sys h cc w1 = (e, w2)" by fastforce
  show ?thesis
  proof (cases e)
    case None
    with run h c p purge_ok [OF c, of h w2 t] show ?thesis by (auto simp: releasePurge_def intro: solo_sect(2))
  next
    case e: (Some x)
    let ?m = "m\<lparr>co_world := w2\<rparr>"
    from run h c p e obtain u m1 where f: "failRelease (ReleaseFailed sys) a t ''SQLite purge during release'' x ?m = (Ret u, m1)"
      and m': "r \<noteq> None" "m' = m1\<lparr>co_world := os_ctx_cancel sys cc (co_world m1)\<rparr>"
      by (auto simp: releasePurge_def split: prod.splits)
    from p e have "solo sys grp ec g (RRun h a t, m) (AFail (Some cc) a t,
        set_inst a (setErr (co_heap m a) (Wrapf ''%s: %w'' [ArgStr ''SQLite purge during release''] x)) ?m)"
      by (intro solo_sect(2) purge_fail [OF c]) simp
    also from failRelease_solo [OF f, where k = "Some cc"] have "solo sys grp ec g \<dots> (AEnd cc, m1)" by simp
    also from m'(2) have "solo sys grp ec g (AEnd cc, m1) (HIdle, m')" by (auto intro: solo_sect(1) acq_error)
    finally show ?thesis using m'(1) by auto
  qed
qed

lemma releasePurge_solo:
  assumes run: "releasePurge sys (ReleaseFailed sys) a t m = (Ret r, m')"
  shows "solo sys grp ec g (RPurge a t, m) (case r of None \<Rightarrow> REnter a t | Some _ \<Rightarrow> HIdle, m')"
proof (cases "in_started (co_heap m a)")
  case False
  with run purge_cold [OF False, of sys t] show ?thesis by (auto simp: releasePurge_def intro: solo_sect(2))
next
  case started: True
  have "solo sys grp ec g (RPurge a t, m) (RRead a t, m)" by (intro solo_sect(2) purge_warm started)
  also have "solo sys grp ec g (RRead a t, m) (case r of None \<Rightarrow> REnter a t | Some _ \<Rightarrow> HIdle, m')"
  proof (cases "in_purge (co_heap m a)")
    case None
    from run started None obtain w where f: "failRelease (ReleaseFailed sys) a t ''purge handle not initialized''
        (errors_New ''nil purge handle (programming error)'') m = (Ret w, m')" and r: "r \<noteq> None"
      by (auto simp: releasePurge_def split: prod.splits)
    note solo_sect(2) [OF purge_nil [OF None]]
    also from failRelease_solo [OF f, where k = None] have "solo sys grp ec g (AFail None a t, set_inst a (setErr (co_heap m a)
        (Wrapf ''%s: %w'' [ArgStr ''purge handle not initialized''] (errors_New ''nil purge handle (programming error)''))) m) (HIdle, m')"
      by simp
    finally show ?thesis using r by auto
  next
    case (Some h)
    have "solo sys grp ec g (RRead a t, m) (RRun h a t, m)" by (intro solo_sect(2) purge_handle Some)
    also note purge_run_solo [OF run started Some]
    finally show ?thesis .
  qed
  finally show ?thesis .
qed

lemma manager_Release_solo:
  assumes run: "manager_Release sys a t m = (Ret r, m')"
  shows "solo sys grp ec g (Held a t, m) (HIdle, m')"
proof -
  let ?rel = "ReleaseToPool sys" and ?fail = "ReleaseFailed sys"
  from run obtain x m1 where cur: "in_hasReleaser (co_heap m a)" "isCurrentToken (co_heap m a) t"
    and p: "releasePurge sys ?fail a t m = (Ret x, m1)"
    and rest: "x = None \<Longrightarrow> \<exists>b. ?rel a t m1 = (Ret b, m')" "x \<noteq> None \<Longrightarrow> m' = m1"
    by (auto simp: manager_Release_def inst_Release_def guardReleasePanic_def split: if_splits prod.splits outcome.splits option.splits)
  have "solo sys grp ec g (Held a t, m) (RPurge a t, m)" by (intro solo_sect(2) rel_current cur)
  also note releasePurge_solo [OF p]
  also have "solo sys grp ec g (case x of None \<Rightarrow> REnter a t | Some _ \<Rightarrow> HIdle, m1) (HIdle, m')"
    using rest ReleaseToPool_solo by (cases x) (auto intro: solo_refl)
  finally show ?thesis .
qed

lemma stopEach_solo:
  assumes "mset as = mset todo" and "stopEach sys (mc_InstanceStopTimeout (mg_cfg m)) as m = (es, m')"
  shows "\<exists>es'. solo sys grp ec g (SStop all todo es0, m) (SStop all [] es', m')"
  using assms
proof (induction as arbitrary: todo m es es0)
  case Nil
  then show ?case by (auto intro: solo_refl)
next
  case (Cons a as)
  let ?d = "mc_InstanceStopTimeout (mg_cfg m)"
  obtain c w where c: "os_ctx_with_timeout sys Background ?d (co_world m) = (c, w)" by fastforce
  obtain e m1 where st: "inst_call a (\<lambda>i r w. inst_Stop sys i c r w) (m\<lparr>co_world := w\<rparr>) = (e, m1)" by fastforce
  let ?m = "m1\<lparr>co_world := os_ctx_cancel sys c (co_world m1)\<rparr>"
  have "mg_cfg ?m = mg_cfg m" using st by (auto simp: inst_call_def set_inst_def split: prod.splits)
  then obtain es2 where rest: "stopEach sys (mc_InstanceStopTimeout (mg_cfg ?m)) as ?m = (es2, m')"
    using Cons.prems(2) c st by (auto split: prod.splits)
  have a: "a \<in> set todo" using Cons.prems(1) by (metis list.set_intros(1) mset_eq_setD)
  have "mset as = mset (remove1 a todo)" using Cons.prems(1) by (metis add_mset_remove_trivial mset.simps(2) mset_remove1)
  from Cons.IH [OF this rest] obtain es' where
    "solo sys grp ec g (SStop all (remove1 a todo) ((a, e) # es0), ?m) (SStop all [] es', m')" by blast
  with solo_trans [OF solo_sect(4) [OF shut_stop [OF a c st]]] show ?case by blast
qed

lemma finishShutdown_solo:
  assumes run: "finishShutdown sys sched m = (e, m')" and sched: "\<forall>xs. mset (sched xs) = mset xs"
  shows "solo sys grp ec g (SGo, m) (HIdle, m')"
proof (cases "mg_pool m")
  case None
  with run have "m' = m" by (simp add: finishShutdown_def)
  with solo_trans [OF solo_sect(4) [OF shut_nil [OF None]] solo_sect(4) [OF shut_return]] show ?thesis by simp
next
  case (Some p)
  let ?p = "pool_Close p"
  let ?m = "m\<lparr>mg_pool := Some ?p\<rparr>"
  have "solo sys grp ec g (SGo, m) (SClosing, m\<lparr>mg_pool := Some (closeLocked p)\<rparr>)" by (intro solo_sect(4) shut_pool Some)
  also have "solo sys grp ec g (SClosing, m\<lparr>mg_pool := Some (closeLocked p)\<rparr>) (SClosed, ?m)"
    using solo_sect(4) [OF shut_chan [of "m\<lparr>mg_pool := Some (closeLocked p)\<rparr>" "closeLocked p" sys]] by (simp add: pool_Close_sections)
  also have "solo sys grp ec g (SClosed, ?m) (SStop (Instances ?p) (Instances ?p) [], ?m)" by (intro solo_sect(4) shut_list) simp
  also from run Some obtain es where "stopEach sys (mc_InstanceStopTimeout (mg_cfg ?m)) (sched (Instances ?p)) ?m = (es, m')"
    by (auto simp: finishShutdown_def stopAllInstances_def Let_def split: prod.splits)
  with stopEach_solo [of "sched (Instances ?p)" "Instances ?p"] sched obtain es' where
    "solo sys grp ec g (SStop (Instances ?p) (Instances ?p) [], ?m) (SStop (Instances ?p) [] es', m')" by blast
  also note solo_sect(4) [OF shut_join]
  also note solo_sect(4) [OF shut_return]
  finally show ?thesis .
qed

lemma afterStore_solo:
  assumes fin: "finishShutdown sys sched (beginShutdown m) = (e, m')" and sched: "\<forall>xs. mset (sched xs) = mset xs"
  shows "solo sys grp ec g (SStored, m\<lparr>mg_state := managerShuttingDown\<rparr>) (HIdle, m')"
proof -
  let ?m = "m\<lparr>mg_state := managerShuttingDown\<rparr>"
  have "solo sys grp ec g (SStored, ?m) (SSeen (mg_inflight ?m = 0), ?m)" by (intro solo_sect(4) shut_look)
  also have "solo sys grp ec g (SSeen (mg_inflight ?m = 0), ?m) (SWait, beginShutdown m)"
    using solo_sect(4) [OF shut_close [of sys "mg_inflight m = 0" ?m]] by (simp add: beginShutdown_def Let_def)
  also have "solo sys grp ec g (SWait, beginShutdown m) (SGo, beginShutdown m)" by (intro solo_sect(4) shut_timeout)
  also note finishShutdown_solo [OF fin sched]
  finally show ?thesis .
qed

lemma Shutdown_solo:
  assumes run: "Shutdown sys sched id drained m = Some (e, m')" and sched: "\<forall>xs. mset (sched xs) = mset xs"
  shows "solo sys grp ec g (HIdle, m) (HIdle, m')"
proof -
  from run have fin: "finishShutdown sys sched (beginShutdown m) = (e, m')" by (auto simp: Shutdown_def Let_def split: if_splits)
  have "solo sys grp ec g (HIdle, m) (SStored, m\<lparr>mg_state := managerShuttingDown\<rparr>)" by (intro solo_sect(4) shut_store)
  also note afterStore_solo [OF fin sched]
  finally show ?thesis .
qed

lemma initBody_solo:
  assumes run: "Initialize sys ec sched c m = (Ret r, m')"
  shows "solo sys grp ec g (IHas c, m) (IEnd, m')"
proof (cases "mg_state m \<in> {managerReady, managerShuttingDown}")
  case True
  with run have "m' = m" by (auto simp: Initialize_def)
  with solo_sect(5) [OF init_over [OF True]] show ?thesis by simp
next
  case False
  let ?m = "m\<lparr>mg_state := managerInitializing\<rparr>"
  from False have st: "mg_state m \<in> {managerCreated, managerInitializing}" by (cases "mg_state m") simp_all
  have "solo sys grp ec g (IHas c, m) (ILoaded c, m)" by (intro solo_sect(5) init_go st)
  also have "solo sys grp ec g (ILoaded c, m) (IBody c, ?m)" by (intro solo_sect(5) init_begin)
  also have "solo sys grp ec g (IBody c, ?m) (IEnd, m')"
  proof (cases "mc_Validate (mg_cfg m)")
    case (Some e)
    with run st have "m' = ?m\<lparr>mg_state := managerCreated\<rparr>" by (auto simp: Initialize_def Let_def)
    with solo_trans [OF solo_sect(5) [OF init_invalid [of ?m]] solo_sect(5) [OF init_created]] Some show ?thesis by auto
  next
    case None
    from run st None have fin: "finishInitialize sys sched (doInitialize sys ec c ?m) = (Ret r, m')"
      by (auto simp: Initialize_def Let_def)
    then obtain x m2 where d: "doInitialize sys ec c ?m = (Ret x, m2)"
      by (auto simp: finishInitialize_def split: prod.splits outcome.splits)
    show ?thesis
    proof (cases x)
      case None': None
      with fin d have "m' = m2\<lparr>mg_state := managerReady\<rparr>" by (simp add: finishInitialize_def)
      with solo_trans [OF solo_sect(5) [OF init_ok [of ?m]] solo_sect(5) [OF init_ready]] None d None' show ?thesis by auto
    next
      case (Some e)
      let ?m3 = "case mg_pool m2 of None \<Rightarrow> m2
        | Some p \<Rightarrow> snd (stopAllInstances sys sched (Instances p) (mc_InstanceStopTimeout (mg_cfg m2)) m2)"
      let ?m4 = "?m3\<lparr>mg_pool := None, mg_cachedDBPath := mc_PrepopulateDBPath (mg_cfg ?m3)\<rparr>"
      have "solo sys grp ec g (IBody c, ?m) (IRoll, m2)" using None d Some by (intro solo_sect(5) init_fail) simp_all
      also have "solo sys grp ec g (IRoll, m2) (ICreated, ?m4)" by (intro solo_sect(5) init_rollback [where sched = sched] refl)
      also have "solo sys grp ec g (ICreated, ?m4) (IEnd, ?m4\<lparr>mg_state := managerCreated\<rparr>)" by (intro solo_sect(5) init_created)
      finally show ?thesis using fin d Some by (simp add: finishInitialize_def Let_def)
    qed
  qed
  finally show ?thesis .
qed

lemma Initialize_solo:
  assumes run: "Initialize sys ec sched c m = (Ret r, m')"
  shows "(\<lambda>a b. hsect sys grp ec (fst a) (snd a) (fst b) (snd b))\<^sup>*\<^sup>*
    (HIdle, \<lparr>ho_mgr = m, ho_initMu = False\<rparr>) (HIdle, \<lparr>ho_mgr = m', ho_initMu = False\<rparr>)" (is "?R\<^sup>*\<^sup>* _ _")
proof -
  let ?g = "\<lambda>m b. \<lparr>ho_mgr = m, ho_initMu = b\<rparr>"
  have "?R (HIdle, ?g m False) (IWant c, ?g m False)" using h_initialize [OF init_want, of sys grp ec "?g m False" c] by simp
  moreover have "?R (IWant c, ?g m False) (IHas c, ?g m True)" using h_lock [of "?g m False" sys grp ec c] by simp
  moreover have "?R\<^sup>*\<^sup>* (IHas c, ?g m True) (IEnd, ?g m' True)"
    using initBody_solo [OF run, of grp "?g m True"] by (simp add: solo_def)
  moreover have "?R (IEnd, ?g m' True) (HIdle, ?g m' False)" using h_unlock [of sys grp ec "?g m' True"] by simp
  ultimately show ?thesis by (meson converse_rtranclp_into_rtranclp rtranclp.rtrancl_into_rtrancl)
qed

subsection \<open>Histories of calls\<close>

text \<open>A run of one goroutine is a run, and extends a reachable state.\<close>

lemma solo_run:
  assumes "(\<lambda>a b. hsect sys grp ec (fst a) (snd a) (fst b) (snd b))\<^sup>*\<^sup>* (pcs t, g) (pc', g')"
  shows "hrun sys grp ec (g, pcs) (g', pcs(t := pc'))"
  using assms
proof (induction "(pc', g')" arbitrary: pc' g' rule: rtranclp_induct)
  case base
  then show ?case by simp
next
  case (step x)
  obtain pc1 g1 where x: "x = (pc1, g1)" by fastforce
  from step.hyps(3) [OF x] have "hrun sys grp ec (g, pcs) (g1, pcs(t := pc1))" .
  moreover from step.hyps(2) x have "hstep sys grp ec t (g1, pcs(t := pc1)) (g', (pcs(t := pc1))(t := pc'))"
    by (intro hstepI) simp
  ultimately show ?case by (auto intro: rtranclp.rtrancl_into_rtrancl)
qed

lemma solo_reach:
  "(\<lambda>a b. hsect sys grp ec (fst a) (snd a) (fst b) (snd b))\<^sup>*\<^sup>* (pcs t, g) (pc', g') \<Longrightarrow> hreach sys grp ec cfg (g, pcs) \<Longrightarrow>
     hreach sys grp ec cfg (g', pcs(t := pc'))"
  by (rule hreach_run [OF solo_run])

text \<open>Between two calls every goroutine is idle or holds a lease, one goroutine for each lease.\<close>

definition clients :: "(nat \<rightharpoonup> 64 word) \<Rightarrow> (nat \<Rightarrow> hpc) \<Rightarrow> bool" where
  "clients L pcs \<longleftrightarrow> finite {t. pcs t \<noteq> HIdle} \<and>
     (\<forall>t. pcs t \<noteq> HIdle \<longrightarrow> (\<exists>a k. pcs t = Held a k \<and> L a = Some k)) \<and>
     (\<forall>t u a j k. pcs t = Held a j \<longrightarrow> pcs u = Held a k \<longrightarrow> t = u) \<and>
     (\<forall>a k. L a = Some k \<longrightarrow> (\<exists>t. pcs t = Held a k))"

lemma clients_idle: "clients L pcs \<Longrightarrow> \<exists>t. pcs t = HIdle"
  unfolding clients_def using ex_new_if_finite [of "{t. pcs t \<noteq> HIdle}"] infinite_UNIV_nat by blast

lemma clientsD:
  assumes "clients L pcs"
  shows "finite {t. pcs t \<noteq> HIdle}" and "pcs t \<noteq> HIdle \<Longrightarrow> \<exists>a k. pcs t = Held a k \<and> L a = Some k"
    and "pcs t = Held a k \<Longrightarrow> L a = Some k" and "pcs t = Held a j \<Longrightarrow> pcs u = Held a k \<Longrightarrow> t = u"
    and "L a = Some k \<Longrightarrow> \<exists>t. pcs t = Held a k"
proof -
  note C = assms [unfolded clients_def]
  show "finite {t. pcs t \<noteq> HIdle}" using C by blast
  show all: "\<exists>a k. pcs t = Held a k \<and> L a = Some k" if "pcs t \<noteq> HIdle" for t using C that by blast
  show "L a = Some k" if "pcs t = Held a k" using all [of t] that by simp
  show "t = u" if "pcs t = Held a j" "pcs u = Held a k" using C that by blast
  show "\<exists>t. pcs t = Held a k" if "L a = Some k" using C that by blast
qed

lemma clients_grant:
  assumes "clients L pcs" and t: "pcs t = HIdle" and a: "L a = None"
  shows "clients (L(a \<mapsto> k)) (pcs(t := Held a k))"
  unfolding clients_def
proof (intro conjI allI impI)
  note D = clientsD [OF assms(1)]
  let ?pcs = "pcs(t := Held a k)"
  have free: "pcs u \<noteq> Held a j" for u j using D(3) [of u a j] a by auto
  have "{u. ?pcs u \<noteq> HIdle} \<subseteq> insert t {u. pcs u \<noteq> HIdle}" by auto
  then show "finite {u. ?pcs u \<noteq> HIdle}" using D(1) by (simp add: finite_subset)
  show "\<exists>b j. ?pcs u = Held b j \<and> (L(a \<mapsto> k)) b = Some j" if "?pcs u \<noteq> HIdle" for u
  proof (cases "u = t")
    case False
    with that D(2) [of u] obtain b j where "pcs u = Held b j" "L b = Some j" by auto
    with a False show ?thesis by (intro exI [of _ b]) auto
  qed simp
  show "u = v" if "?pcs u = Held b i" "?pcs v = Held b j" for u v b i j
    using that free [of u] free [of v] D(4) [of u b i v j] by (auto split: if_splits)
  show "\<exists>u. ?pcs u = Held b j" if "(L(a \<mapsto> k)) b = Some j" for b j
  proof (cases "b = a")
    case False
    with that D(5) [of b j] obtain u where "pcs u = Held b j" by auto
    with t show ?thesis by (intro exI [of _ u]) auto
  qed (use that in auto)
qed

lemma clients_return:
  assumes "clients L pcs" and t: "pcs t = Held a k"
  shows "clients (L(a := None)) (pcs(t := HIdle))"
  unfolding clients_def
proof (intro conjI allI impI)
  note D = clientsD [OF assms(1)]
  let ?pcs = "pcs(t := HIdle)"
  have "{u. ?pcs u \<noteq> HIdle} \<subseteq> {u. pcs u \<noteq> HIdle}" by auto
  then show "finite {u. ?pcs u \<noteq> HIdle}" using D(1) by (simp add: finite_subset)
  have other: "b \<noteq> a" if "pcs u = Held b j" "u \<noteq> t" for u b j using D(4) [of u a j t k] t that by blast
  show "\<exists>b j. ?pcs u = Held b j \<and> (L(a := None)) b = Some j" if "?pcs u \<noteq> HIdle" for u
    using D(2) [of u] that other [of u] by (cases "u = t") auto
  show "u = v" if "?pcs u = Held b i" "?pcs v = Held b j" for u v b i j
    using that D(4) [of u b i v j] by (simp split: if_splits)
  show "\<exists>u. ?pcs u = Held b j" if b: "(L(a := None)) b = Some j" for b j
  proof -
    from b have "b \<noteq> a" "L b = Some j" by (simp_all split: if_splits)
    with D(5) [of b j] obtain u where u: "pcs u = Held b j" by blast
    with t \<open>b \<noteq> a\<close> have "u \<noteq> t" by auto
    with u show ?thesis by (intro exI [of _ u]) simp
  qed
qed

lemma solo_call:
  assumes "hreach sys grp ec cfg (\<lparr>ho_mgr = m, ho_initMu = False\<rparr>, pcs)"
    and "\<And>g. solo sys grp ec g (pcs t, m) (pc', m')"
  shows "hreach sys grp ec cfg (\<lparr>ho_mgr = m', ho_initMu = False\<rparr>, pcs(t := pc'))"
  by (rule solo_reach [OF _ assms(1)])
    (use assms(2) [of "\<lparr>ho_mgr = m, ho_initMu = False\<rparr>"] in \<open>simp add: solo_def\<close>)

lemma run_leases:
  assumes laws: "group_law grp" "net_law sys" "ctx_law sys" "cache_law ec"
    and "manager_run sys grp ec cfg es m" and "manager_run sys grp ec cfg (es @ fs) m'"
  shows "lease_run fs (leases m) = Some (leases m')"
  using manager_run_sim [OF laws assms(5)] manager_run_sim [OF laws assms(6)] by (simp add: sim_def lease_run_append)

text \<open>A call that leaves the goroutine idle and the leases as they were.\<close>

lemma idle_call:
  assumes "hreach sys grp ec cfg (g, pcs)" and "clients L pcs" and "L' = L"
    and "(\<lambda>a b. hsect sys grp ec (fst a) (snd a) (fst b) (snd b))\<^sup>*\<^sup>* (HIdle, g) (HIdle, g')"
  shows "\<exists>pcs. hreach sys grp ec cfg (g', pcs) \<and> clients L' pcs"
proof -
  obtain t where t: "pcs t = HIdle" using clients_idle [OF assms(2)] by blast
  have "hreach sys grp ec cfg (g', pcs(t := HIdle))" by (rule solo_reach [OF _ assms(1)]) (simp add: t assms(4))
  with assms(2,3) t show ?thesis by (auto simp: fun_upd_idem)
qed

lemma solo_idle:
  "(\<And>g. solo sys grp ec g (HIdle, m) (HIdle, m')) \<Longrightarrow>
     (\<lambda>a b. hsect sys grp ec (fst a) (snd a) (fst b) (snd b))\<^sup>*\<^sup>*
       (HIdle, \<lparr>ho_mgr = m, ho_initMu = False\<rparr>) (HIdle, \<lparr>ho_mgr = m', ho_initMu = False\<rparr>)"
  using spec [of "\<lambda>g. solo sys grp ec g (HIdle, m) (HIdle, m')" "\<lparr>ho_mgr = m, ho_initMu = False\<rparr>"] by (simp add: solo_def)

lemma run_reach:
  assumes laws: "group_law grp" "net_law sys" "ctx_law sys" "cache_law ec"
    and run: "manager_run sys grp ec cfg es m"
  shows "\<exists>pcs. hreach sys grp ec cfg (\<lparr>ho_mgr = m, ho_initMu = False\<rparr>, pcs) \<and> clients (leases m) pcs"
  using run
proof (induction rule: manager_run.induct)
  case (run_new w m)
  have "leases m = Map.empty" using run_new by (auto simp: NewManagerWithConfig_def leases_def split: if_splits)
  then show ?case by (intro exI [of _ "\<lambda>_. HIdle"]) (simp add: hreach_new [OF run_new] clients_def)
next
  case (run_init es m sched c r m')
  from run_init(3) obtain pcs where pcs: "hreach sys grp ec cfg (\<lparr>ho_mgr = m, ho_initMu = False\<rparr>, pcs)" "clients (leases m) pcs" by blast
  have "leases m' = leases m" using run_leases [OF laws run_init(1), of "[]" m'] manager_run.run_init [OF run_init(1,2)] by simp
  from idle_call [OF pcs this Initialize_solo [OF run_init(2)]] show ?case .
next
  case (run_grant es m c ev a t m')
  from run_grant(3) obtain pcs where pcs: "hreach sys grp ec cfg (\<lparr>ho_mgr = m, ho_initMu = False\<rparr>, pcs)" "clients (leases m) pcs" by blast
  obtain u where u: "pcs u = HIdle" using clients_idle [OF pcs(2)] by blast
  have L: "leases m a = None" "leases m' = (leases m)(a \<mapsto> t)"
    using run_leases [OF laws run_grant(1) manager_run.run_grant [OF run_grant(1,2)]] by (auto split: if_splits)
  have "hreach sys grp ec cfg (\<lparr>ho_mgr = m', ho_initMu = False\<rparr>, pcs(u := Held a t))"
    by (rule solo_call [OF pcs(1)]) (use manager_Acquire_solo [OF run_grant(2)] u in \<open>simp add: acquired_pc_def\<close>)
  with clients_grant [OF pcs(2) u L(1), of t] show ?case unfolding L(2) by blast
next
  case (run_refuse es m c ev e m')
  from run_refuse(3) obtain pcs where pcs: "hreach sys grp ec cfg (\<lparr>ho_mgr = m, ho_initMu = False\<rparr>, pcs)" "clients (leases m) pcs" by blast
  have "leases m' = leases m" using run_leases [OF laws run_refuse(1) manager_run.run_refuse [OF run_refuse(1,2)]] by simp
  moreover have "solo sys grp ec g (HIdle, m) (HIdle, m')" for g
    using manager_Acquire_solo [OF run_refuse(2), where g = g] by (simp add: acquired_pc_def)
  ultimately show ?case using idle_call [OF pcs _ solo_idle] by blast
next
  case (run_return es m a t r m')
  from run_return(4) obtain pcs where pcs: "hreach sys grp ec cfg (\<lparr>ho_mgr = m, ho_initMu = False\<rparr>, pcs)" "clients (leases m) pcs" by blast
  have L: "leases m a = Some t" "leases m' = (leases m)(a := None)"
    using run_leases [OF laws run_return(1) manager_run.run_return [OF run_return(1-3)]] by (auto split: if_splits)
  obtain u where u: "pcs u = Held a t" using clientsD(5) [OF pcs(2) L(1)] by blast
  have "hreach sys grp ec cfg (\<lparr>ho_mgr = m', ho_initMu = False\<rparr>, pcs(u := HIdle))"
    by (rule solo_call [OF pcs(1)]) (use manager_Release_solo [OF run_return(3)] u in simp)
  with clients_return [OF pcs(2) u] show ?case unfolding L(2) by blast
next
  case (run_reject es m a t msg m')
  have "m' = m" using sim_release [OF manager_run_sim [OF laws run_reject(1)] run_reject(2,3)] by auto
  with run_reject(4) show ?case by simp
next
  case (run_shutdown es m sched drained e m')
  from run_shutdown(4) obtain pcs where pcs: "hreach sys grp ec cfg (\<lparr>ho_mgr = m, ho_initMu = False\<rparr>, pcs)" "clients (leases m) pcs" by blast
  have "leases m' = leases m"
    using run_leases [OF laws run_shutdown(1), of "[]" m'] manager_run.run_shutdown [OF run_shutdown(1-3)] by simp
  then show ?case using idle_call [OF pcs _ solo_idle] Shutdown_solo [OF run_shutdown(3,2)] by blast
qed

lemma sample_held:
  "\<exists>g pcs u a t L. hreach counting_net seq_group keep_cache sample_cfg (g, pcs) \<and> (\<exists>p. mg_pool (ho_mgr g) = Some p \<and> \<not> po_closed p) \<and>
     clients L pcs \<and> pcs u = Held a t"
proof -
  obtain a t m where run: "manager_run counting_net seq_group keep_cache sample_cfg [Granted a t] m"
    and pool: "\<exists>p. mg_pool m = Some p \<and> \<not> po_closed p" using sample_run_grant by blast
  have "leases m a = Some t" using sample_sim [OF run] by (auto simp: sim_def dest!: fun_cong [of _ _ a])
  with run_reach [OF seq_group_law counting_net_law counting_net_ctx keep_cache_law run] clientsD(5) obtain pcs u where
    "hreach counting_net seq_group keep_cache sample_cfg (\<lparr>ho_mgr = m, ho_initMu = False\<rparr>, pcs)" "clients (leases m) pcs" "pcs u = Held a t"
    by blast
  moreover have "\<exists>p. mg_pool (ho_mgr \<lparr>ho_mgr = m, ho_initMu = False\<rparr>) = Some p \<and> \<not> po_closed p" using pool by simp
  ultimately show ?thesis by blast
qed

subsection \<open>Properties\<close>

text \<open>C8. Every history of calls that the clients make one at a time, each run to its end, is one of the
  interleavings of the sections: the state it leads to is reached by goroutines that are idle or hold
  the leases of that state, one goroutine for each lease.\<close>

theorem sequential_is_interleaving:
  assumes "group_law grp" "net_law sys" "ctx_law sys" "cache_law ec"
    and "manager_run sys grp ec cfg es m"
  shows "\<exists>pcs. hreach sys grp ec cfg (\<lparr>ho_mgr = m, ho_initMu = False\<rparr>, pcs) \<and> clients (leases m) pcs"
  by (rule run_reach [OF assms])

text \<open>With a lease granted, some goroutine holds it.\<close>

theorem sequential_is_interleaving_witness:
  "\<exists>a t m pcs u. manager_run counting_net seq_group keep_cache sample_cfg [Granted a t] m \<and>
     hreach counting_net seq_group keep_cache sample_cfg (\<lparr>ho_mgr = m, ho_initMu = False\<rparr>, pcs) \<and> pcs u = Held a t"
proof -
  obtain a t m where run: "manager_run counting_net seq_group keep_cache sample_cfg [Granted a t] m"
    using sample_run_grant by blast
  have "leases m a = Some t" using sample_sim [OF run] by (auto simp: sim_def dest!: fun_cong [of _ _ a])
  with sequential_is_interleaving [OF seq_group_law counting_net_law counting_net_ctx keep_cache_law run] clientsD(5) run
  show ?thesis by blast
qed

end
