(* ===== verification/Interleave.thy ===== *)
theory Interleave
  imports Sequential
begin

text \<open>
  The invariant of the manager under concurrency: the mutex and the life cycle, the counter of releases
  in flight, the ports, and the invariant of the pool with the slots abandoned by a shutdown. Every
  section keeps it, so it holds in all interleavings of the handlers.
\<close>

subsection \<open>The life cycle\<close>

text \<open>What a program counter says about \<^verbatim>\<open>initMu\<close> and the pool: a client of the pool or a crashed one, an
  \<^verbatim>\<open>Initialize\<close> before or after it has stored the pool, or one that only has the mutex.\<close>

datatype hzone = Outside | Working | Early | Stored | Locked

fun zone :: "hpc \<Rightarrow> hzone" where
  "zone HIdle = Outside" | "zone SStored = Outside" | "zone (SSeen z) = Outside" | "zone SWait = Outside"
| "zone SGo = Outside" | "zone SClosing = Outside" | "zone SClosed = Outside" | "zone (SStop as bs es) = Outside"
| "zone (SDone e) = Outside" | "zone (IWant c) = Outside"
| "zone (IHas c) = Locked" | "zone IEnd = Locked"
| "zone (ILoaded c) = Early" | "zone (IBody c) = Early" | "zone IRoll = Early" | "zone ICreated = Early"
| "zone IReady = Stored"
| "zone _ = Working"

abbreviation zones :: "(nat \<Rightarrow> hpc) \<Rightarrow> nat \<Rightarrow> hzone" where
  "zones pcs \<equiv> (\<lambda>t. zone (pcs t))"

text \<open>The invariants speak about the zones \<open>z\<close> of the goroutines. The manager is open once the pool is
  stored and \<^verbatim>\<open>Initialize\<close> is over; then it is ready or shutting down, and only then has it clients.\<close>

definition opened :: "'w mgr \<Rightarrow> (nat \<Rightarrow> hzone) \<Rightarrow> bool" where
  "opened m z \<longleftrightarrow> mg_pool m \<noteq> None \<and> (\<forall>t. z t \<noteq> Early \<and> z t \<noteq> Stored)"

fun locked :: "hzone \<Rightarrow> bool" where
  "locked Outside = False" | "locked Working = False" | "locked Early = True" | "locked Stored = True" | "locked Locked = True"

definition mutex_inv :: "bool \<Rightarrow> (nat \<Rightarrow> hzone) \<Rightarrow> bool" where
  "mutex_inv mu z \<longleftrightarrow> (\<forall>t. locked (z t) \<longrightarrow> mu \<and> (\<forall>u. locked (z u) \<longrightarrow> u = t))"

definition life_inv :: "'w mgr \<Rightarrow> (nat \<Rightarrow> hzone) \<Rightarrow> bool" where
  "life_inv m z \<longleftrightarrow> mc_Validate (mg_cfg m) = None \<and>
     (\<forall>t. z t = Early \<longrightarrow> mg_pool m = None) \<and> (\<forall>t. z t = Stored \<longrightarrow> mg_pool m \<noteq> None) \<and>
     (\<forall>t. z t = Working \<longrightarrow> opened m z) \<and> (mg_state m = managerReady \<longrightarrow> opened m z) \<and>
     (opened m z \<longrightarrow> mg_state m \<in> {managerReady, managerShuttingDown})"

lemma zones_upd: "zones (pcs(t := x)) = (zones pcs)(t := zone x)"
  by auto

lemma zone_ended [simp]: "zone (ended k) = (if k = None then Outside else Working)"
  by (cases k) simp_all

lemma zone_after [simp]:
  "zone (after_acquire d pc) = Working" "zone (after_release pc) = Working"
  "zone (after_failed k pc) = (if pc = Idle then zone (ended k) else Working)"
  by (cases pc; simp)+

lemma pool_sect_frame:
  "pool_sect sys pc m pc' m' \<Longrightarrow> mg_cfg m' = mg_cfg m \<and> mg_state m' = mg_state m \<and> mg_inflight m' = mg_inflight m \<and>
     mg_cachedDBPath m' = mg_cachedDBPath m \<and> (mg_pool m' = None \<longleftrightarrow> mg_pool m = None)"
  by (auto elim!: pool_sect.cases simp: from_view_def)

lemma inst_call_frame:
  "inst_call a f m = (e, m') \<Longrightarrow> mg_cfg m' = mg_cfg m \<and> mg_state m' = mg_state m \<and> mg_inflight m' = mg_inflight m \<and>
     mg_cachedDBPath m' = mg_cachedDBPath m \<and> mg_pool m' = mg_pool m \<and> co_next m' = co_next m"
  by (auto simp: inst_call_def set_inst_def split: prod.splits)

lemma inflight_frame [simp]:
  "mg_cfg (noteDrained b m) = mg_cfg m" "mg_state (noteDrained b m) = mg_state m" "mg_pool (noteDrained b m) = mg_pool m"
  "mg_inflight (noteDrained b m) = mg_inflight m" "co_heap (noteDrained b m) = co_heap m" "co_next (noteDrained b m) = co_next m"
  "co_reg (noteDrained b m) = co_reg m"
  by (simp_all add: noteDrained_def)

text \<open>A section that leaves the life cycle alone: the state and whether there is a pool stay, and the
  goroutine stays in its zone, goes outside, or comes in while the manager is ready.\<close>

definition same_life :: "hzone \<Rightarrow> 'w mgr \<Rightarrow> hzone \<Rightarrow> 'w mgr \<Rightarrow> bool" where
  "same_life x m y m' \<longleftrightarrow> mg_cfg m' = mg_cfg m \<and> mg_state m' = mg_state m \<and> (mg_pool m' = None \<longleftrightarrow> mg_pool m = None) \<and>
     (y = x \<or> x = Working \<and> y = Outside \<or> x = Outside \<and> y = Working \<and> mg_state m = managerReady)"

lemma acq_life: "acq_sect sys grp pc m pc' m' \<Longrightarrow> same_life (zone pc) m (zone pc') m'"
  by (cases rule: acq_sect.cases)
    (auto simp: same_life_def set_inst_def dest: pool_sect_frame inst_call_frame)

lemma rel_life: "rel_sect sys pc m pc' m' \<Longrightarrow> same_life (zone pc) m (zone pc') m'"
  by (cases rule: rel_sect.cases)
    (auto simp: same_life_def set_inst_def decInflight_def dest: pool_sect_frame)

lemma back_life: "back_sect sys pc m pc' m' \<Longrightarrow> same_life (zone pc) m (zone pc') m'"
  by (cases rule: back_sect.cases)
    (auto simp: same_life_def set_inst_def dest: pool_sect_frame inst_call_frame split: if_splits)

lemma shut_life:
  "shut_sect sys pc m pc' m' \<Longrightarrow> zone pc = Outside \<and> zone pc' = Outside \<and>
     (same_life Outside m Outside m' \<or> pc = HIdle \<and> pc' = SStored \<and> m' = m\<lparr>mg_state := managerShuttingDown\<rparr>)"
  by (cases rule: shut_sect.cases) (auto simp: same_life_def dest: inst_call_frame split: if_splits)

lemma life_invI:
  assumes "mc_Validate (mg_cfg m) = None" and "\<And>t. z t = Early \<Longrightarrow> mg_pool m = None" and "\<And>t. z t = Stored \<Longrightarrow> mg_pool m \<noteq> None"
    and "\<And>t. z t = Working \<Longrightarrow> opened m z" and "mg_state m = managerReady \<Longrightarrow> opened m z"
    and "opened m z \<Longrightarrow> mg_state m \<in> {managerReady, managerShuttingDown}"
  shows "life_inv m z"
  using assms unfolding life_inv_def by blast

lemma life_invD:
  assumes "life_inv m z"
  shows "mc_Validate (mg_cfg m) = None" and "z t = Early \<Longrightarrow> mg_pool m = None" and "z t = Stored \<Longrightarrow> mg_pool m \<noteq> None"
    and "z t = Working \<Longrightarrow> opened m z" and "mg_state m = managerReady \<Longrightarrow> opened m z"
    and "opened m z \<Longrightarrow> mg_state m \<in> {managerReady, managerShuttingDown}"
  using assms unfolding life_inv_def by blast+

lemma life_move:
  assumes inv: "life_inv m z" and f: "mg_cfg m' = mg_cfg m" "mg_state m' = mg_state m" "mg_pool m' = None \<longleftrightarrow> mg_pool m = None"
    and y: "y = Working \<Longrightarrow> opened m z" "y = Early \<longleftrightarrow> z t = Early" "y = Stored \<longleftrightarrow> z t = Stored"
  shows "life_inv m' (z(t := y))"
proof -
  note D = life_invD [OF inv]
  have "(\<forall>u. (z(t := y)) u \<noteq> Early \<and> (z(t := y)) u \<noteq> Stored) \<longleftrightarrow> (\<forall>u. z u \<noteq> Early \<and> z u \<noteq> Stored)"
    using y(2,3) by (metis fun_upd_other fun_upd_same)
  then have op: "opened m' (z(t := y)) = opened m z" unfolding opened_def f(3) by simp
  show ?thesis
  proof (rule life_invI, unfold op f)
    show "mg_pool m = None" if "(z(t := y)) u = Early" for u using y(2) D(2) that by (cases "u = t") auto
    show "mg_pool m \<noteq> None" if "(z(t := y)) u = Stored" for u using y(3) D(3) that by (cases "u = t") auto
    show "opened m z" if "(z(t := y)) u = Working" for u using y(1) D(4) that by (cases "u = t") auto
  qed (rule D, assumption?)+
qed

lemma same_life_inv:
  assumes "life_inv m z" and "same_life (z t) m y m'"
  shows "life_inv m' (z(t := y))"
  using assms(2) life_invD(4) [OF assms(1), of t] life_invD(5) [OF assms(1)] by (intro life_move [OF assms(1)]) (auto simp: same_life_def)

lemma shutdown_life: "life_inv m z \<Longrightarrow> life_inv (m\<lparr>mg_state := managerShuttingDown\<rparr>) z"
  by (auto simp: life_inv_def opened_def)

lemma doInitialize_outcome:
  assumes law: "cache_law ensureCache" and cfg: "mc_Validate (mg_cfg m) = None" and none: "mg_pool m = None"
  shows "doInitialize sys ensureCache c m = (Ret None, m') \<Longrightarrow>
      \<exists>p path w. NewPool True (mc_PoolSize (mg_cfg m)) = Ret p \<and> m' = m\<lparr>co_world := w, mg_cachedDBPath := path, mg_pool := Some p\<rparr>"
    and "doInitialize sys ensureCache c m = (Ret (Some e), m') \<Longrightarrow> \<exists>path w. m' = m\<lparr>co_world := w, mg_cachedDBPath := path, mg_pool := None\<rparr>"
    and "doInitialize sys ensureCache c m \<noteq> (Panic msg, m')"
proof -
  have size: "0 \<le> mc_PoolSize (mg_cfg m)" using cfg by (simp add: mc_Validate_None_iff)
  then obtain p where p: "NewPool True (mc_PoolSize (mg_cfg m)) = Ret p" by (simp add: NewPool_def)
  note frame = doInitialize_frame [OF law size none, unfolded p outcome.case]
  show "doInitialize sys ensureCache c m = (Ret None, m') \<Longrightarrow>
      \<exists>p path w. NewPool True (mc_PoolSize (mg_cfg m)) = Ret p \<and> m' = m\<lparr>co_world := w, mg_cachedDBPath := path, mg_pool := Some p\<rparr>"
    using frame p by fastforce
  show "doInitialize sys ensureCache c m = (Ret (Some e), m') \<Longrightarrow> \<exists>path w. m' = m\<lparr>co_world := w, mg_cachedDBPath := path, mg_pool := None\<rparr>"
    using frame by fastforce
  show "doInitialize sys ensureCache c m \<noteq> (Panic msg, m')" using frame by fastforce
qed

text \<open>\<^verbatim>\<open>Initialize\<close> moves the goroutine between the zones, alone in them.\<close>

lemma life_alone:
  assumes inv: "life_inv m z" and alone: "\<forall>u. u \<noteq> t \<longrightarrow> z u \<noteq> Early \<and> z u \<noteq> Stored" and cfg: "mg_cfg m' = mg_cfg m"
  shows "z t \<in> {Early, Locked} \<Longrightarrow> mg_pool m = None \<Longrightarrow> mg_pool m' = None \<Longrightarrow> mg_state m' \<noteq> managerReady \<Longrightarrow>
      y \<in> {Early, Locked} \<Longrightarrow> life_inv m' (z(t := y))"
    and "z t = Early \<Longrightarrow> mg_pool m = None \<Longrightarrow> mg_pool m' \<noteq> None \<Longrightarrow> mg_state m' \<noteq> managerReady \<Longrightarrow> life_inv m' (z(t := Stored))"
    and "z t = Stored \<Longrightarrow> mg_pool m' = mg_pool m \<Longrightarrow> mg_state m' = managerReady \<Longrightarrow> life_inv m' (z(t := Locked))"
proof -
  note D = life_invD [OF inv]
  have idle: "z u \<noteq> Working" if "mg_pool m = None \<or> z t = Stored" for u
    using D(4) [of u] that by (auto simp: opened_def)
  show "life_inv m' (z(t := y))" if "z t \<in> {Early, Locked}" "mg_pool m = None" "mg_pool m' = None"
    "mg_state m' \<noteq> managerReady" "y \<in> {Early, Locked}"
    by (rule life_invI) (use that D(1) alone idle cfg in \<open>auto simp: opened_def split: if_splits\<close>)
  show "life_inv m' (z(t := Stored))" if "z t = Early" "mg_pool m = None" "mg_pool m' \<noteq> None" "mg_state m' \<noteq> managerReady"
    by (rule life_invI) (use that D(1) alone idle cfg in \<open>auto simp: opened_def split: if_splits\<close>)
  show "life_inv m' (z(t := Locked))" if "z t = Stored" "mg_pool m' = mg_pool m" "mg_state m' = managerReady"
    by (rule life_invI) (use that D(1,3) alone idle cfg in \<open>auto simp: opened_def split: if_splits\<close>)
qed

lemma init_life:
  assumes law: "cache_law ensureCache" and inv: "life_inv m z" and mu: "mutex_inv mu z"
    and sect: "init_sect sys ensureCache pc m pc' m'" and t: "z t = zone pc"
  shows "life_inv m' (z(t := zone pc'))"
proof (cases "locked (zone pc)")
  case False
  from sect this have "m' = m \<and> zone pc = Outside \<and> zone pc' = Outside" by cases simp_all
  with inv t show ?thesis by (simp add: fun_upd_idem)
next
  case True
  note D = life_invD [OF inv]
  have "\<not> locked (z u)" if "u \<noteq> t" for u
    using mu True t that unfolding mutex_inv_def by metis
  then have alone: "\<forall>u. u \<noteq> t \<longrightarrow> z u \<noteq> Early \<and> z u \<noteq> Stored" by fastforce
  note A = life_alone [OF inv alone]
  have none: "mg_pool m = None" "mg_state m \<noteq> managerReady" if "zone pc = Early"
  proof -
    show N: "mg_pool m = None" using D(2) [of t] that t by simp
    show "mg_state m \<noteq> managerReady" using D(5) N unfolding opened_def by blast
  qed
  from sect show ?thesis
  proof cases
    case (init_go c)
    have "\<not> opened m z" using D(6) init_go(4) by auto
    moreover have "\<forall>u. z u \<noteq> Early \<and> z u \<noteq> Stored" using alone t init_go(1) by (metis hzone.distinct(17,19) zone.simps(11))
    ultimately have "mg_pool m = None" unfolding opened_def by blast
    with init_go t A(1) [where m' = m and y = Early] show ?thesis by auto
  next
    case (init_ok c)
    then have e: "zone pc = Early" by simp
    with none [OF e] init_ok t A(2) [where m' = m'] doInitialize_outcome(1) [OF law D(1) none(1) [OF e] init_ok(4)] show ?thesis by auto
  next
    case (init_fail c e)
    then have e: "zone pc = Early" by simp
    with none [OF e] init_fail t A(1) [where m' = m' and y = Early] doInitialize_outcome(2) [OF law D(1) none(1) [OF e] init_fail(4)]
    show ?thesis by auto
  next
    case (init_panic c msg)
    then show ?thesis using doInitialize_outcome(3) [OF law D(1) none(1)] by simp
  next
    case init_ready
    with t A(3) [where m' = m'] show ?thesis by simp
  qed (use none t inv A(1) [where m' = m' and y = Early] A(1) [where m' = m' and y = Locked] in
      \<open>simp_all add: fun_upd_idem split: option.splits\<close>)
qed

lemma mutex_same: "mutex_inv mu z \<Longrightarrow> locked y \<longrightarrow> locked (z t) \<Longrightarrow> mutex_inv mu (z(t := y))"
  by (auto simp: mutex_inv_def)

lemma same_life_locked: "same_life x m y m' \<Longrightarrow> locked y \<longrightarrow> locked x"
  by (auto simp: same_life_def)

lemma init_locked: "init_sect sys ensureCache pc m pc' m' \<Longrightarrow> locked (zone pc') \<longrightarrow> locked (zone pc)"
  by (cases rule: init_sect.cases) auto

lemma hsect_mutex:
  assumes inv: "mutex_inv (ho_initMu g) z" and sect: "hsect sys grp ensureCache pc g pc' g'" and t: "z t = zone pc"
  shows "mutex_inv (ho_initMu g') (z(t := zone pc'))"
  using sect
proof cases
  case (h_lock c)
  with inv show ?thesis by (auto simp: mutex_inv_def)
next
  case h_unlock
  with inv t show ?thesis by (fastforce simp: mutex_inv_def)
qed (use t in \<open>auto intro!: mutex_same [OF inv] dest!: acq_life rel_life back_life shut_life init_locked dest: same_life_locked\<close>)

lemma hsect_life:
  assumes law: "cache_law ensureCache" and inv: "life_inv (ho_mgr g) z" and mu: "mutex_inv (ho_initMu g) z"
    and sect: "hsect sys grp ensureCache pc g pc' g'" and t: "z t = zone pc"
  shows "life_inv (ho_mgr g') (z(t := zone pc'))"
  using sect
proof cases
  case (h_shutdown m)
  from shut_life [OF h_shutdown(2)] same_life_inv [OF inv, of t Outside] shutdown_life [OF inv] h_shutdown(1) t show ?thesis
    by (auto simp: fun_upd_idem)
next
  case (h_initialize m)
  with init_life [OF law inv mu h_initialize(2) t] show ?thesis by simp
next
  case (h_lock c)
  with t show ?thesis by (auto intro!: life_move [OF inv])
next
  case h_unlock
  with t show ?thesis by (auto intro!: life_move [OF inv])
qed (use t in \<open>auto intro!: same_life_inv [OF inv] dest!: acq_life rel_life back_life\<close>)

subsection \<open>Releases in flight\<close>

fun in_window :: "hpc \<Rightarrow> bool" where
  "in_window (RIn a t) = True"
| "in_window (RLoad a t) = True"
| "in_window (RPool pc) = True"
| "in_window (RLeave r) = True"
| "in_window _ = False"

definition window_inv :: "'w mgr \<Rightarrow> (nat \<Rightarrow> bool) \<Rightarrow> bool" where
  "window_inv m win \<longleftrightarrow> finite {t. win t} \<and> mg_inflight m = int (card {t. win t})"

lemma window_after [simp]:
  "\<not> in_window (after_acquire d pc)" "\<not> in_window (ended k)" "\<not> in_window (after_failed k pc)"
  "in_window (after_release pc) \<longleftrightarrow> (\<forall>msg. pc \<noteq> Crashed msg)"
  by (cases pc; cases k; simp)+

text \<open>Every section that does not panic moves the counter by what it moves the goroutine.\<close>

definition counted :: "hpc \<Rightarrow> 'w mgr \<Rightarrow> hpc \<Rightarrow> 'w mgr \<Rightarrow> bool" where
  "counted pc m pc' m' \<longleftrightarrow>
     mg_inflight m' = mg_inflight m + of_bool (in_window pc') - of_bool (in_window pc)"

lemma acq_counted: "acq_sect sys grp pc m pc' m' \<Longrightarrow> counted pc m pc' m'"
  by (cases rule: acq_sect.cases) (auto simp: counted_def set_inst_def dest: pool_sect_frame inst_call_frame)

lemma rel_counted: "rel_sect sys pc m pc' m' \<Longrightarrow> \<forall>msg. pc' \<noteq> HCrashed msg \<Longrightarrow> counted pc m pc' m'"
  by (cases rule: rel_sect.cases) (auto simp: counted_def set_inst_def decInflight_def dest: pool_sect_frame)

lemma back_counted: "back_sect sys pc m pc' m' \<Longrightarrow> counted pc m pc' m'"
  by (cases rule: back_sect.cases) (auto simp: counted_def set_inst_def dest: pool_sect_frame inst_call_frame)

lemma shut_counted: "shut_sect sys pc m pc' m' \<Longrightarrow> counted pc m pc' m'"
  by (cases rule: shut_sect.cases) (auto simp: counted_def dest: inst_call_frame)

lemma init_counted:
  assumes "init_sect sys ensureCache pc m pc' m'" and "zone pc = Early \<longrightarrow> mg_pool m = None"
  shows "counted pc m pc' m'"
  using assms
  by (cases rule: init_sect.cases)
    (auto simp: counted_def doInitialize_def split: prod.splits option.splits if_splits sum.splits outcome.splits)

lemma window_move:
  assumes inv: "window_inv m win" and move: "mg_inflight m' = mg_inflight m + of_bool y - of_bool (win t)"
  shows "window_inv m' (win(t := y))"
proof -
  let ?S = "{u. win u}"
  have S: "finite ?S" "mg_inflight m = int (card ?S)" using inv by (simp_all add: window_inv_def)
  have T: "{u. (win(t := y)) u} = (if y then insert t ?S else ?S - {t})" by auto
  have "int (card (?S - {t})) = int (card ?S) - of_bool (win t)"
    using card_Suc_Diff1 [OF S(1), of t] by (cases "win t") auto
  moreover have "int (card (insert t ?S)) = int (card ?S) + 1 - of_bool (win t)"
    using S(1) by (simp add: card_insert_if)
  ultimately show ?thesis using S move unfolding window_inv_def T by (cases y) simp_all
qed

subsection \<open>Accounts\<close>

text \<open>Every instance ever made is well formed and can be released, the reserved ports are those of the
  instances, none shared, and only the registered ones \<open>R\<close> may be started.\<close>

definition acct :: "nat set \<Rightarrow> ('w, 'z) core_scheme \<Rightarrow> bool" where
  "acct R s \<longleftrightarrow> accounts_on {..<co_next s} s \<and>
     (\<forall>a < co_next s. inst_inv (co_heap s a) \<and> in_hasReleaser (co_heap s a) \<and> (in_started (co_heap s a) \<longrightarrow> a \<in> R))"

lemma acct_cong:
  "acct R s \<Longrightarrow> co_heap s' = co_heap s \<Longrightarrow> co_next s' = co_next s \<Longrightarrow> co_reg s' = co_reg s \<Longrightarrow> R \<subseteq> R' \<Longrightarrow> acct R' s'"
  unfolding acct_def accounts_on_def by auto

lemma owned_started: "inst_inv i \<Longrightarrow> owned i \<noteq> {} \<longleftrightarrow> in_started i"
  by (auto simp: inst_inv_def owned_def split: if_splits)

lemma acct_touch:
  assumes acct: "acct R s" and touch: "touch a s s'" and a: "a < co_next s"
  shows "acct R s'"
proof -
  have t: "co_next s' = co_next s" "inst_inv (co_heap s' a)" "in_hasReleaser (co_heap s' a) = in_hasReleaser (co_heap s a)"
    using touch by (simp_all add: touch_def)
  have other: "co_heap s' b = co_heap s b" if "b \<noteq> a" for b using touch that unfolding touch_def by (metis fun_upd_other)
  have "in_started (co_heap s' a) \<longrightarrow> in_started (co_heap s a)"
    using acct a touch owned_started [OF t(2)] owned_started [of "co_heap s a"] by (auto simp: acct_def touch_def)
  moreover have "accounts_on {..<co_next s} s'"
    using acct accounts_touch [OF _ touch, of "{..<co_next s}"] a by (simp add: acct_def)
  ultimately show ?thesis using acct a t other unfolding acct_def by metis
qed

lemma acct_new:
  assumes acct: "acct R s" and new: "co_next s' = Suc (co_next s)" "co_heap s' = (co_heap s)(co_next s := i)" "co_reg s' = co_reg s"
    and i: "inst_inv i" "\<not> in_started i" "in_hasReleaser i"
  shows "acct R s'"
proof -
  have "owned i = {}" using owned_started [OF i(1)] i(2) by blast
  with acct new i show ?thesis
    by (fastforce simp: acct_def accounts_on_def lessThan_Suc less_Suc_eq)
qed

lemma inst_inv_gen [simp]: "inst_inv (i\<lparr>in_gen := g\<rparr>) = inst_inv i"
  by (simp add: inst_inv_def)

lemma touch_gen: "inst_inv (co_heap s a) \<Longrightarrow> touch a s (set_inst a ((co_heap s a)\<lparr>in_gen := g\<rparr>) s)"
  by (rule touch_set_inst) (simp_all add: owned_def)

lemma touch_setErr: "inst_inv (co_heap s a) \<Longrightarrow> touch a s (set_inst a (setErr (co_heap s a) e) s)"
  by (rule touch_set_inst) (simp_all add: setErr_def owned_def inst_inv_def)

lemma mustRelease_Ret: "mustRelease i t = (Ret u, i') \<Longrightarrow> i' = i\<lparr>in_gen := t + 1\<rparr>"
  by (auto simp: mustRelease_eq split: if_splits)

lemma acct_set_gen: "acct R s \<Longrightarrow> a < co_next s \<Longrightarrow> acct R (set_inst a ((co_heap s a)\<lparr>in_gen := g\<rparr>) s)"
  by (rule acct_touch [OF _ touch_gen]) (simp_all add: acct_def)

lemma acct_stop:
  "acct R s \<Longrightarrow> a < co_next s \<Longrightarrow> inst_call a (\<lambda>i r w. inst_Stop sys i c r w) s = (e, s') \<Longrightarrow> acct R s'"
  using acct_touch [OF _ touch_stop, of R s a sys c] by (simp add: acct_def)

lemma acct_stopBestEffort: "acct R s \<Longrightarrow> a < co_next s \<Longrightarrow> acct R (stopInstanceBestEffort sys a s)"
  by (rule acct_touch [OF _ touch_stopBestEffort]) (simp_all add: acct_def)

lemma acct_start:
  assumes laws: "group_law grp" "net_law sys" and acct: "acct R s" and a: "a < co_next s" "a \<in> R" "\<not> in_started (co_heap s a)"
    and run: "inst_call a (\<lambda>i r w. inst_Start sys grp i d r w) s = (e, s')"
  shows "acct R s' \<and> in_gen (co_heap s' a) = in_gen (co_heap s a) \<and> in_started (co_heap s' a) = (e = None)"
proof -
  obtain i r w where st: "inst_Start sys grp (co_heap s a) d (co_reg s) (co_world s) = (e, i, r, w)"
    and s': "s' = (set_inst a i s)\<lparr>co_reg := r, co_world := w\<rparr>"
    using run by (auto simp: inst_call_def split: prod.splits)
  have inv: "inst_inv (co_heap s a)" using acct a(1) by (simp add: acct_def)
  have post: "start_post (co_heap s a) (co_reg s) i r (e = None)" by (rule inst_Start_post [OF laws inv a(3) st])
  have h: "co_heap s' = (co_heap s)(a := i)" "co_next s' = co_next s" "co_reg s' = r" using s' by (simp_all add: set_inst_def)
  have "owned (co_heap s a) = {}" using owned_started [OF inv] a(3) by blast
  then have "accounts_on {..<co_next s} s'"
    using accounts_started [of "{..<co_next s}" s a s' i] acct a(1) h post by (simp add: acct_def start_post_def)
  with acct a h post show ?thesis by (auto simp: acct_def start_post_def)
qed

lemma sect_acct:
  assumes fac: "instance_factory factory" and acct: "acct (set (po_all (sh_pool s))) s"
    and own: "\<And>a. own pc = Some a \<Longrightarrow> a < co_next s" and sect: "sect sys factory pc s pc' s'"
  shows "acct (set (po_all (sh_pool s'))) s'"
  using sect
proof cases
  case (mark a t i)
  then have "i = (co_heap s a)\<lparr>in_gen := in_gen (co_heap s a) + 1\<rparr>" by (auto simp: markAcquired_def)
  with acct_set_gen [OF acct own, of a] mark show ?thesis by (simp add: set_inst_def)
next
  case (make idx a)
  from instance_factory.factory_new [OF fac make(3)] obtain i where
    "a = co_next s" "co_next s' = Suc (co_next s)" "co_heap s' = (co_heap s)(co_next s := i)"
    "inst_inv i" "\<not> in_started i" "in_hasReleaser i" by blast
  moreover have "co_reg s' = co_reg s" "sh_pool s' = sh_pool s"
    using instance_factory.factory_frame [OF fac make(3)] more_pool by auto
  ultimately show ?thesis using acct_new [OF acct] by metis
next
  case (make_fail idx e)
  have "co_reg s' = co_reg s" "sh_pool s' = sh_pool s"
    using instance_factory.factory_frame [OF fac make_fail(3)] more_pool by auto
  with instance_factory.factory_fail [OF fac make_fail(3)] show ?thesis by (auto intro!: acct_cong [OF acct])
next
  case (make_panic idx m)
  have "co_reg s' = co_reg s" "sh_pool s' = sh_pool s"
    using instance_factory.factory_frame [OF fac make_panic(3)] more_pool by auto
  with instance_factory.factory_panic [OF fac make_panic(3)] show ?thesis by (auto intro!: acct_cong [OF acct])
next
  case (stop_new a)
  with own acct_stopBestEffort [OF acct] more_pool [OF stopInstanceBestEffort_gen(3), of sys a s] show ?thesis by simp
next
  case (stop a)
  with own acct_stopBestEffort [OF acct] more_pool [OF stopInstanceBestEffort_gen(3), of sys a s] show ?thesis by simp
next
  case (release a t u i)
  with acct_set_gen [OF acct own] mustRelease_Ret [OF release(4)] show ?thesis by (simp add: set_inst_def)
next
  case (release_failed a t u i)
  with acct_set_gen [OF acct own] mustRelease_Ret [OF release_failed(4)] show ?thesis by (simp add: set_inst_def)
qed (use acct in \<open>auto intro!: acct_cong [OF acct] simp: takeSlot_def popFree_def registerNew_def pushFree_def
    returnSlot_def closeLocked_def closeChan_def split: option.splits sem_event.splits if_splits\<close>)


subsection \<open>The pool of the manager\<close>

text \<open>A goroutine of the manager as one of the pool's: between the sections of the pool a lease is held.\<close>

fun pool_pc :: "hpc \<Rightarrow> pc" where
  "pool_pc (APool d pc) = pc"
| "pool_pc (ALook d a t) = Holds a t"
| "pool_pc (AStart d a t) = Holds a t"
| "pool_pc (ADone d a t) = Holds a t"
| "pool_pc (Held a t) = Holds a t"
| "pool_pc (RPurge a t) = Holds a t"
| "pool_pc (RRead a t) = Holds a t"
| "pool_pc (RRun h a t) = Holds a t"
| "pool_pc (REnter a t) = Holds a t"
| "pool_pc (RIn a t) = Holds a t"
| "pool_pc (RLoad a t) = Holds a t"
| "pool_pc (RPool pc) = pc"
| "pool_pc (RLeave (Some (a, t))) = Holds a t"
| "pool_pc (RNote z (Some (a, t))) = Holds a t"
| "pool_pc (AFail k a t) = Holds a t"
| "pool_pc (Back k pc) = pc"
| "pool_pc (Down k a t) = Holds a t"
| "pool_pc (DStop k c a) = RStop a"
| "pool_pc (HCrashed msg) = Crashed msg"
| "pool_pc _ = Idle"

lemma pool_pc_after [simp]:
  "pool_pc (ended k) = Idle" "pool_pc (after_acquire d pc) = pc" "pool_pc (after_failed k pc) = pc" "pool_pc (after_release pc) = pc"
  by (cases pc; cases k; simp)+

lemma pool_pc_outside: "zone pc \<noteq> Working \<Longrightarrow> pool_pc pc = Idle"
  by (cases pc) simp_all

lemma from_view_view [simp]: "pool_view (from_view m s) (sh_pool s) = s"
  by (simp add: pool_view_def from_view_def)

lemma pool_view_set_inst [simp]: "pool_view (set_inst a i m) p = set_inst a i (pool_view m p)" "mg_pool (set_inst a i m) = mg_pool m"
  by (simp_all add: pool_view_def set_inst_def)

text \<open>With \<open>l\<close> slots abandoned, the pool keeps its invariant and every port is accounted for.\<close>

definition served :: "nat \<Rightarrow> 'w mgr \<Rightarrow> (nat \<Rightarrow> pc) \<Rightarrow> bool" where
  "served l m pp \<longleftrightarrow> (\<exists>p. mg_pool m = Some p \<and> conc_inv l (pool_view m p) pp \<and> acct (set (po_all p)) m \<and>
     int (po_maxSize p) = mc_PoolSize (mg_cfg m))"

lemma conc_cong:
  "conc_inv l s pp \<Longrightarrow> sh_pool s' = sh_pool s \<Longrightarrow> \<forall>b. in_gen (co_heap s' b) = in_gen (co_heap s b) \<Longrightarrow>
     co_next s' = co_next s \<Longrightarrow> conc_inv l s' pp"
  by (simp add: conc_inv_def)

lemma acct_view [simp]: "acct R (pool_view m p) = acct R m"
  by (simp add: acct_def accounts_on_def)

lemma servedE:
  assumes "served l m pp"
  obtains p where "mg_pool m = Some p" "conc_inv l (pool_view m p) pp" "acct (set (po_all p)) m"
    "int (po_maxSize p) = mc_PoolSize (mg_cfg m)"
  using assms by (auto simp: served_def)

lemma served_own:
  assumes "served l m pp" and "own (pp t) = Some a"
  shows "a < co_next m" and "inst_inv (co_heap m a)"
proof -
  from assms(1) obtain p where p: "conc_inv l (pool_view m p) pp" "acct (set (po_all p)) m" by (rule servedE)
  then have "own_inv p (\<lambda>a. in_gen (co_heap m a)) (co_next m) pp" by (simp add: conc_inv_def)
  from own_invD(1) [OF this assms(2)] show "a < co_next m" .
  with p(2) show "inst_inv (co_heap m a)" by (simp add: acct_def)
qed

lemma served_keep:
  assumes "served l m pp" and "mg_pool m' = mg_pool m" and "mg_cfg m' = mg_cfg m" and "co_next m' = co_next m"
    and "\<forall>b. in_gen (co_heap m' b) = in_gen (co_heap m b)" and "\<And>R. acct R m \<Longrightarrow> acct R m'" and "pp t = x"
  shows "served l m' (pp(t := x))"
proof -
  from assms(1) obtain p where p: "mg_pool m = Some p" "conc_inv l (pool_view m p) pp" "acct (set (po_all p)) m"
    "int (po_maxSize p) = mc_PoolSize (mg_cfg m)" by (rule servedE)
  have "conc_inv l (pool_view m' p) pp" by (rule conc_cong [OF p(2)]) (simp_all add: assms)
  with p assms show ?thesis by (auto simp: served_def fun_upd_idem)
qed

lemma served_sect:
  assumes sv: "served l m pp" and cfg: "mc_Validate (mg_cfg m) = None" and sect: "pool_sect sys (pp t) m pc' m'"
  shows "served l m' (pp(t := pc'))"
proof -
  from sect obtain p s where p: "mg_pool m = Some p" and s: "sect sys (manager_factory sys m) (pp t) (pool_view m p) pc' s"
    and m': "m' = from_view m s" by cases
  from sv p have inv: "conc_inv l (pool_view m p) pp" "acct (set (po_all p)) m" "int (po_maxSize p) = mc_PoolSize (mg_cfg m)"
    by (auto simp: served_def)
  note fac = manager_factory_instance
  have np: "manager_factory sys m idx x \<noteq> (Panic msg, x')" for idx x msg and x' :: "'a shared"
    unfolding manager_factory_def by (rule instanceFactory_no_panic [OF manager_inst_config_valid [OF cfg]])
  have "conc_inv l s (pp(t := pc'))" by (rule sect_inv [OF fac np inv(1) s])
  moreover have "acct (set (po_all (sh_pool s))) s"
    using sect_acct [OF fac _ _ s] inv(2) served_own(1) [OF sv] by simp
  moreover have "po_maxSize (sh_pool s) = po_maxSize p" using sect_maxSize [OF fac s] by simp
  moreover have "acct R m' = acct R s" for R by (simp add: m' from_view_def acct_def accounts_on_def)
  moreover have "mg_pool m' = Some (sh_pool s)" "mg_cfg m' = mg_cfg m" "pool_view m' (sh_pool s) = s"
    using from_view_view [of m s] by (simp_all add: m' from_view_def)
  ultimately show ?thesis using inv(3) by (auto simp: served_def)
qed

lemma served_consume:
  assumes sv: "served l m pp" and t: "pp t = Holds a k" and x: "x = RConsumed a \<or> x = RStop a"
  shows "\<exists>i. mustRelease (co_heap m a) k = (Ret (), i) \<and> served l (set_inst a i m) (pp(t := x))"
proof -
  from sv obtain p where p: "mg_pool m = Some p" "conc_inv l (pool_view m p) pp" "acct (set (po_all p)) m"
    "int (po_maxSize p) = mc_PoolSize (mg_cfg m)" by (rule servedE)
  from conc_consumed [OF p(2) t x] obtain i where i: "mustRelease (co_heap m a) k = (Ret (), i)"
    "conc_inv l (set_inst a i (pool_view m p)) (pp(t := x))" by auto
  have "acct (set (po_all p)) (set_inst a i m)"
    using acct_set_gen [OF p(3)] served_own(1) [OF sv, of t a] t mustRelease_Ret [OF i(1)] by simp
  with i p show ?thesis by (auto simp: served_def)
qed

text \<open>The slot of a goroutine that stops its instance during the shutdown.\<close>

lemma conc_abandon:
  assumes inv: "conc_inv l s pp" and t: "pp t = RStop a"
  shows "conc_inv (Suc l) s (pp(t := Idle))"
proof -
  have sem: "sem_inv l (sh_pool s) pp" and own: "own_inv (sh_pool s) (\<lambda>a. in_gen (co_heap s a)) (co_next s) pp"
    using inv by (simp_all add: conc_inv_def)
  let ?S = "{u. has_slot (pp u)}"
  have "finite ?S" "t \<in> ?S" using sem t by (auto simp: sem_inv_def)
  then have "Suc (card (?S - {t})) = card ?S" by (rule card_Suc_Diff1)
  with sem have "sem_inv (Suc l) (sh_pool s) (pp(t := Idle))" unfolding sem_inv_def slots_update by auto
  moreover have "own_inv (sh_pool s) (\<lambda>a. in_gen (co_heap s a)) (co_next s) (pp(t := Idle))"
    by (rule own_inv_move [OF own]) (use own_invD(8) [OF own] in simp_all)
  ultimately show ?thesis by (simp add: conc_inv_def)
qed

subsection \<open>Every section serves\<close>

lemma inst_call_Stop_gen:
  "inst_call a (\<lambda>i r w. inst_Stop sys i c r w) m = (e, m') \<Longrightarrow> \<forall>b. in_gen (co_heap m' b) = in_gen (co_heap m b)"
  by (auto simp: inst_call_def inst_Stop_def set_inst_def Let_def split: prod.splits option.splits)

lemma served_world: "served l m pp \<Longrightarrow> pp t = x \<Longrightarrow> served l (m\<lparr>co_world := w\<rparr>) (pp(t := x))"
  by (rule served_keep) (auto simp: acct_def accounts_on_def)

lemma served_same: "served l m pp \<Longrightarrow> pp t = x \<Longrightarrow> served l m (pp(t := x))"
  by (simp add: fun_upd_idem)

lemma served_counter [simp]:
  "served l (m\<lparr>mg_inflight := n\<rparr>) pp = served l m pp" "served l (m\<lparr>mg_inflightDone := b\<rparr>) pp = served l m pp"
  "served l (m\<lparr>mg_state := s\<rparr>) pp = served l m pp" "served l (noteDrained b m) pp = served l m pp"
  by (simp_all add: served_def pool_view_def acct_def accounts_on_def noteDrained_def)

lemma served_stop:
  assumes "served l m pp" and "a < co_next m" and "inst_call a (\<lambda>i r w. inst_Stop sys i c r w) (m\<lparr>co_world := w\<rparr>) = (e, m')" and "pp t = x"
  shows "served l (m'\<lparr>co_world := w'\<rparr>) (pp(t := x))"
proof (rule served_keep [OF assms(1)])
  show "acct R (m'\<lparr>co_world := w'\<rparr>)" if "acct R m" for R
  proof -
    have "acct R (m\<lparr>co_world := w\<rparr>)" using that by (simp add: acct_def accounts_on_def)
    from acct_stop [OF this _ assms(3)] assms(2) show ?thesis by (simp add: acct_def accounts_on_def)
  qed
qed (use assms(4) inst_call_frame [OF assms(3)] inst_call_Stop_gen [OF assms(3)] in simp_all)

lemma served_setErr:
  assumes "served l m pp" and "own (pp t) = Some a" and "pp t = x"
  shows "served l (set_inst a (setErr (co_heap m a) e) m) (pp(t := x))"
proof (rule served_keep [OF assms(1)])
  show "acct R (set_inst a (setErr (co_heap m a) e) m)" if "acct R m" for R
    using acct_touch [OF that touch_setErr] served_own [OF assms(1,2)] by blast
qed (use assms(3) in \<open>simp_all add: set_inst_def setErr_def\<close>)

lemma served_start:
  assumes laws: "group_law grp" "net_law sys" and sv: "served l m pp" and t: "pp t = Holds a k" and idle: "\<not> IsStarted (co_heap m a)"
    and run: "inst_call a (\<lambda>i r w. inst_Start sys grp i d r w) m = (e, m')"
  shows "served l m' (pp(t := Holds a k))"
proof -
  from sv obtain p where p: "mg_pool m = Some p" "conc_inv l (pool_view m p) pp" "acct (set (po_all p)) m"
    "int (po_maxSize p) = mc_PoolSize (mg_cfg m)" by (rule servedE)
  then have own: "own_inv p (\<lambda>a. in_gen (co_heap m a)) (co_next m) pp" by (simp add: conc_inv_def)
  have a: "a < co_next m" "a \<in> set (po_all p)" "\<not> in_started (co_heap m a)"
    using own_invD(1,4) [OF own, of t a] t idle by (simp_all add: IsStarted_def)
  note st = acct_start [OF laws p(3) a run] and fr = inst_call_frame [OF run]
  have "\<forall>b. in_gen (co_heap m' b) = in_gen (co_heap m b)"
    using st run by (auto simp: inst_call_def set_inst_def split: prod.splits)
  then have "conc_inv l (pool_view m' p) pp" using fr by (intro conc_cong [OF p(2)]) simp_all
  with st fr p t show ?thesis by (auto simp: served_def fun_upd_idem)
qed

lemma served_wait: "served l m pp \<Longrightarrow> pp t = Idle \<Longrightarrow> served l m (pp(t := AWait d))"
  by (auto simp: served_def intro!: conc_silent)

lemma acq_served:
  assumes laws: "group_law grp" "net_law sys" and sv: "served l m pp" and cfg: "mc_Validate (mg_cfg m) = None"
    and t: "pp t = pool_pc pc" and sect: "acq_sect sys grp pc m pc' m'"
  shows "served l m' (pp(t := pool_pc pc'))"
  using sect
proof cases
  case (acq_inside pc pc' d)
  then show ?thesis using served_sect [OF sv cfg, of sys t] t by simp
next
  case (start_ok a d k)
  then show ?thesis using served_start [OF laws sv _ start_ok(3,4)] t by simp
next
  case (start_fail a d e m1 k)
  then have "served l m1 (pp(t := Holds a k))" using served_start [OF laws sv _ start_fail(4,5)] t by simp
  then have "served l (set_inst a (setErr (co_heap m1 a) e) m1) ((pp(t := Holds a k))(t := Holds a k))"
    by (rule served_setErr) simp_all
  with start_fail show ?thesis by simp
qed (use t sv in \<open>auto intro: served_world served_same served_wait\<close>)

lemma served_holds:
  assumes "served l m pp" and "pp t = Holds a k"
  shows "in_hasReleaser (co_heap m a) \<and> isCurrentToken (co_heap m a) k"
proof -
  from assms(1) obtain p where p: "conc_inv l (pool_view m p) pp" "acct (set (po_all p)) m" by (rule servedE)
  from p(1) have "own_inv p (\<lambda>a. in_gen (co_heap m a)) (co_next m) pp" by (simp add: conc_inv_def)
  from own_invD(1,3) [OF this, of t a] assms(2) p(2) show ?thesis by (simp add: acct_def isCurrentToken_def)
qed

lemma rel_served:
  assumes sv: "served l m pp" and cfg: "mc_Validate (mg_cfg m) = None"
    and t: "pp t = pool_pc pc" and sect: "rel_sect sys pc m pc' m'"
  shows "served l m' (pp(t := pool_pc pc'))"
  using sect
proof cases
  case (rel_stale a k msg)
  with served_holds [OF sv, of t a k] t show ?thesis by simp
next
  case (purge_nil a k)
  with served_setErr [OF sv] t show ?thesis by simp
next
  case (purge_fail a cc w1 h e w2 k)
  have "served l (m\<lparr>co_world := w2\<rparr>) (pp(t := Holds a k))" using served_world [OF sv] purge_fail(1) t by simp
  from served_setErr [OF this, of t a] purge_fail show ?thesis by simp
next
  case (rel_pool a k u i)
  with served_consume [OF sv, of t a k "RConsumed a"] t show ?thesis by auto
next
  case (rel_double a k msg i)
  with served_consume [OF sv, of t a k "RConsumed a"] t show ?thesis by auto
next
  case (rel_inside pc pc')
  then show ?thesis using served_sect [OF sv cfg, of sys t] t by simp
next
  case (rel_leave zero r)
  have "pool_pc (RNote zero r) = pool_pc (RLeave r)" by (cases r) auto
  with rel_leave sv t show ?thesis by (auto simp: decInflight_def fun_upd_idem)
qed (use t sv in \<open>auto intro: served_world served_same\<close>)

text \<open>Only a goroutine that saw the shutdown abandons its slot.\<close>

fun goes_down :: "hpc \<Rightarrow> bool" where
  "goes_down (RLeave r) = (r \<noteq> None)"
| "goes_down (RNote z r) = (r \<noteq> None)"
| "goes_down (Down k a t) = True"
| "goes_down (DStop k c a) = True"
| "goes_down _ = False"

lemma back_served:
  assumes sv: "served l m pp" and cfg: "mc_Validate (mg_cfg m) = None"
    and t: "pp t = pool_pc pc" and sect: "back_sect sys pc m pc' m'"
  shows "\<exists>l'. served l' m' (pp(t := pool_pc pc')) \<and> (l' = l \<or> goes_down pc)"
  using sect
proof cases
  case (fail_nil k a j)
  then show ?thesis using sv by (auto simp: served_def)
next
  case (fail_consume a j u i k)
  with served_consume [OF sv, of t a j "RStop a"] t show ?thesis by auto
next
  case (fail_double a j msg i k)
  with served_consume [OF sv, of t a j "RStop a"] t show ?thesis by auto
next
  case (fail_inside pc pc' k)
  then show ?thesis using served_sect [OF sv cfg, of sys t] t by auto
next
  case (down_consume c w a j u i k)
  from served_consume [OF sv, of t a j "RStop a"] t down_consume have "served l (set_inst a i m) (pp(t := RStop a))" by auto
  from served_world [OF this, of t] down_consume show ?thesis by auto
next
  case (down_double a j msg i k)
  with served_consume [OF sv, of t a j "RStop a"] t show ?thesis by auto
next
  case (down_stop a c e m1 k)
  have a: "a < co_next m" using served_own(1) [OF sv, of t a] t down_stop(1) by simp
  have "inst_call a (\<lambda>i r w. inst_Stop sys i c r w) (m\<lparr>co_world := co_world m\<rparr>) = (e, m1)" using down_stop(4) by simp
  from served_stop [OF sv a this] t have "served l m' pp" by (metis down_stop(3) fun_upd_triv)
  then have "served (Suc l) m' (pp(t := Idle))" using t down_stop(1) by (auto simp: served_def intro: conc_abandon)
  with down_stop show ?thesis by auto
qed

lemma shut_served:
  assumes sv: "served l m pp" and t: "pp t = Idle" and sect: "shut_sect sys pc m pc' m'"
    and todo: "\<And>all todo es. pc = SStop all todo es \<Longrightarrow> set todo \<subseteq> {..<co_next m}"
  shows "served l m' pp"
  using sect
proof cases
  case (shut_pool p)
  with sv have p: "conc_inv l (pool_view m p) pp" "acct (set (po_all p)) m" "int (po_maxSize p) = mc_PoolSize (mg_cfg m)"
    by (auto simp: served_def)
  have "conc_inv l (pool_view m' (closeLocked p)) (pp(t := Idle))"
    by (rule conc_silent [OF p(1)]) (simp_all add: shut_pool t closeLocked_def)
  with p shut_pool t show ?thesis by (auto simp: served_def closeLocked_def acct_def accounts_on_def fun_upd_idem)
next
  case (shut_chan p)
  with sv have p: "conc_inv l (pool_view m p) pp" "acct (set (po_all p)) m" "int (po_maxSize p) = mc_PoolSize (mg_cfg m)"
    by (auto simp: served_def)
  have "conc_inv l (pool_view m' (closeChan p)) (pp(t := Idle))"
    by (rule conc_silent [OF p(1)]) (simp_all add: shut_chan t closeChan_def)
  with p shut_chan t show ?thesis by (auto simp: served_def closeChan_def acct_def accounts_on_def fun_upd_idem)
next
  case (shut_stop a todo c w e m1 all es)
  have "a < co_next m" using assms(4) [OF shut_stop(1)] shut_stop(4) by auto
  from served_stop [OF sv this shut_stop(6) t] shut_stop(3) t show ?thesis by (simp add: fun_upd_idem)
qed (use sv in auto)


subsection \<open>The invariant\<close>

abbreviation pool_pcs :: "(nat \<Rightarrow> hpc) \<Rightarrow> nat \<Rightarrow> pc" where
  "pool_pcs pcs \<equiv> (\<lambda>t. pool_pc (pcs t))"

abbreviation windows :: "(nat \<Rightarrow> hpc) \<Rightarrow> nat \<Rightarrow> bool" where
  "windows pcs \<equiv> (\<lambda>t. in_window (pcs t))"

lemma upds:
  "pool_pcs (pcs(t := x)) = (pool_pcs pcs)(t := pool_pc x)" "windows (pcs(t := x)) = (windows pcs)(t := in_window x)"
  by auto

definition pool_ok :: "'w mgr \<Rightarrow> (nat \<Rightarrow> hpc) \<Rightarrow> bool" where
  "pool_ok m pcs \<longleftrightarrow> (if mg_pool m = None then acct {} m
     else \<exists>l. served l m (pool_pcs pcs) \<and> (0 < l \<longrightarrow> opened m (zones pcs) \<and> mg_state m = managerShuttingDown))"

definition down_inv :: "'w mgr \<Rightarrow> (nat \<Rightarrow> hpc) \<Rightarrow> bool" where
  "down_inv m pcs \<longleftrightarrow> (\<forall>t. goes_down (pcs t) \<longrightarrow> mg_state m = managerShuttingDown)"

definition todo_inv :: "'w mgr \<Rightarrow> (nat \<Rightarrow> hpc) \<Rightarrow> bool" where
  "todo_inv m pcs \<longleftrightarrow> (\<forall>t all todo es. pcs t = SStop all todo es \<longrightarrow> set todo \<subseteq> {..<co_next m})"

definition hinv :: "'w host \<Rightarrow> (nat \<Rightarrow> hpc) \<Rightarrow> bool" where
  "hinv g pcs \<longleftrightarrow> mutex_inv (ho_initMu g) (zones pcs) \<and> life_inv (ho_mgr g) (zones pcs) \<and>
     window_inv (ho_mgr g) (windows pcs) \<and> pool_ok (ho_mgr g) pcs \<and> down_inv (ho_mgr g) pcs \<and> todo_inv (ho_mgr g) pcs"

lemma hinvD:
  assumes "hinv g pcs"
  shows "mutex_inv (ho_initMu g) (zones pcs)" and "life_inv (ho_mgr g) (zones pcs)" and "window_inv (ho_mgr g) (windows pcs)"
    and "pool_ok (ho_mgr g) pcs" and "down_inv (ho_mgr g) pcs" and "todo_inv (ho_mgr g) pcs"
  using assms by (simp_all add: hinv_def)

text \<open>An open manager stays open, and from then on nothing takes back a shutdown.\<close>

lemma hsect_down:
  assumes life: "life_inv (ho_mgr g) z" and sect: "hsect sys grp ensureCache pc g pc' g'" and t: "z t = zone pc"
    and op: "opened (ho_mgr g) z"
  shows "zone pc' \<noteq> Early \<and> zone pc' \<noteq> Stored \<and>
    (mg_state (ho_mgr g) = managerShuttingDown \<longrightarrow> mg_state (ho_mgr g') = managerShuttingDown)"
proof -
  have z: "zone pc \<noteq> Early" "zone pc \<noteq> Stored" using op t by (auto simp: opened_def)
  have st: "mg_state (ho_mgr g) \<in> {managerReady, managerShuttingDown}" by (rule life_invD(6) [OF life op])
  from sect show ?thesis
  proof cases
    case (h_initialize m)
    from h_initialize(2) z st show ?thesis by cases (auto simp: h_initialize(1))
  qed (use z in \<open>auto simp: same_life_def dest!: acq_life rel_life back_life shut_life\<close>)
qed

lemma pool_sect_next: "pool_sect sys pc m pc' m' \<Longrightarrow> co_next m \<le> co_next m'"
proof (erule pool_sect.cases)
  fix m0 p pc0 pc1 s
  assume eq: "pc = pc0" "m = m0" "pc' = pc1" "m' = from_view m0 s"
    and s: "sect sys (manager_factory sys m0) pc0 (pool_view m0 p) pc1 s"
  note fac = manager_factory_instance
  from s have "co_next m0 \<le> co_next s"
    by cases (auto simp: set_inst_def stopInstanceBestEffort_gen(2) dest: instance_factory.factory_new [OF fac]
      instance_factory.factory_fail [OF fac] instance_factory.factory_panic [OF fac])
  with eq show ?thesis by (simp add: from_view_def)
qed

lemma hsect_next:
  assumes "hsect sys grp ensureCache pc g pc' g'" and early: "zone pc = Early \<Longrightarrow> mg_pool (ho_mgr g) = None"
  shows "co_next (ho_mgr g) \<le> co_next (ho_mgr g')"
  using assms(1)
proof cases
  case (h_acquire m)
  from h_acquire(2) show ?thesis
    by cases (auto simp: h_acquire(1) set_inst_def dest: pool_sect_next inst_call_frame)
next
  case (h_release m)
  from h_release(2) show ?thesis
    by cases (auto simp: h_release(1) set_inst_def decInflight_def dest: pool_sect_next)
next
  case (h_back m)
  from h_back(2) show ?thesis
    by cases (auto simp: h_back(1) set_inst_def dest: pool_sect_next inst_call_frame)
next
  case (h_shutdown m)
  from h_shutdown(2) show ?thesis by cases (auto simp: h_shutdown(1) dest: inst_call_frame)
next
  case (h_initialize m)
  from h_initialize(2) early show ?thesis
    by cases (auto simp: h_initialize(1) doInitialize_def split: prod.splits option.splits if_splits sum.splits outcome.splits)
qed simp_all

fun stopping :: "hpc \<Rightarrow> bool" where
  "stopping (SStop all todo es) = True"
| "stopping _ = False"

lemma stopping_after [simp]:
  "\<not> stopping (ended k)" "\<not> stopping (after_acquire d pc)" "\<not> stopping (after_failed k pc)" "\<not> stopping (after_release pc)"
  by (cases pc; cases k; simp)+

lemma not_stopping:
  "acq_sect sys grp pc m pc' m' \<Longrightarrow> \<not> stopping pc'" "rel_sect sys pc m pc' m' \<Longrightarrow> \<not> stopping pc'"
  "back_sect sys pc m pc' m' \<Longrightarrow> \<not> stopping pc'" "init_sect sys ensureCache pc m pc' m' \<Longrightarrow> \<not> stopping pc'"
  by (auto elim: acq_sect.cases rel_sect.cases back_sect.cases init_sect.cases)

lemma served_all: "served l m pp \<Longrightarrow> mg_pool m = Some p \<Longrightarrow> set (po_all p) \<subseteq> {..<co_next m}"
  by (auto simp: served_def conc_inv_def dest: own_invD(10))

lemma hsect_todo:
  assumes inv: "hinv g pcs" and sect: "hsect sys grp ensureCache (pcs t) g pc' g'"
  shows "todo_inv (ho_mgr g') (pcs(t := pc'))"
proof -
  let ?m = "ho_mgr g" and ?m' = "ho_mgr g'"
  note I = hinvD [OF inv]
  have grow: "co_next ?m \<le> co_next ?m'" by (rule hsect_next [OF sect]) (rule life_invD(2) [OF I(2)])
  have "set todo \<subseteq> {..<co_next ?m}" if pc': "pc' = SStop all todo es" for all todo es
    using sect
  proof cases
    case (h_shutdown m)
    from h_shutdown(2) show ?thesis
    proof cases
      case (shut_list p)
      from I(4) shut_list(4) obtain l where "served l ?m (pool_pcs pcs)" by (auto simp: pool_ok_def)
      with served_all [OF this shut_list(4)] shut_list pc' show ?thesis by (simp add: Instances_def)
    next
      case (shut_stop a todo0 c w e m1 all0 es0)
      then have "set todo0 \<subseteq> {..<co_next ?m}" using I(6) unfolding todo_inv_def by blast
      with shut_stop pc' show ?thesis using set_remove1_subset [of a todo0] by auto
    qed (use pc' in auto)
  qed (use pc' in \<open>auto dest: not_stopping\<close>)
  with I(6) grow show ?thesis unfolding todo_inv_def by (metis fun_upd_apply lessThan_subset_iff subset_trans)
qed

lemma goes_down_after [simp]:
  "\<not> goes_down (ended k)" "\<not> goes_down (after_acquire d pc)" "\<not> goes_down (after_failed k pc)" "\<not> goes_down (after_release pc)"
  by (cases pc; cases k; simp)+

lemma goes_down_working: "goes_down pc \<Longrightarrow> zone pc = Working"
  by (cases pc) simp_all

lemma hsect_goes_down:
  assumes "hsect sys grp ensureCache pc g pc' g'" and "goes_down pc'"
  shows "zone pc = Working \<and> (mg_state (ho_mgr g) = managerShuttingDown \<or> goes_down pc \<or> mg_pool (ho_mgr g) = None)"
  using assms(1)
proof cases
  case (h_acquire m)
  from h_acquire(2) assms(2) show ?thesis by cases auto
next
  case (h_release m)
  from h_release(2) assms(2) show ?thesis by cases auto
next
  case (h_back m)
  from h_back(2) assms(2) show ?thesis by cases auto
next
  case (h_shutdown m)
  from h_shutdown(2) assms(2) show ?thesis by cases auto
next
  case (h_initialize m)
  from h_initialize(2) assms(2) show ?thesis by cases auto
qed (use assms(2) in auto)

lemma hsect_down_inv:
  assumes inv: "hinv g pcs" and sect: "hsect sys grp ensureCache (pcs t) g pc' g'"
  shows "down_inv (ho_mgr g') (pcs(t := pc'))"
proof -
  note I = hinvD [OF inv]
  have op: "opened (ho_mgr g) (zones pcs)" if "zone (pcs u) = Working" for u using life_invD(4) [OF I(2)] that by blast
  have down: "mg_state (ho_mgr g') = managerShuttingDown"
    if "zone (pcs u) = Working" "mg_state (ho_mgr g) = managerShuttingDown" for u
    using hsect_down [OF I(2) sect refl op [OF that(1)]] that(2) by blast
  have "mg_state (ho_mgr g') = managerShuttingDown" if "goes_down (pcs u)" for u
    using down [OF goes_down_working [OF that]] I(5) that unfolding down_inv_def by blast
  moreover have "mg_state (ho_mgr g') = managerShuttingDown" if "goes_down pc'"
  proof -
    from hsect_goes_down [OF sect that] have w: "zone (pcs t) = Working" and
      "mg_state (ho_mgr g) = managerShuttingDown \<or> goes_down (pcs t) \<or> mg_pool (ho_mgr g) = None" by auto
    moreover have "mg_pool (ho_mgr g) \<noteq> None" using op [OF w] by (simp add: opened_def)
    ultimately have "mg_state (ho_mgr g) = managerShuttingDown" using I(5) unfolding down_inv_def by blast
    from down [OF w this] show ?thesis .
  qed
  ultimately show ?thesis unfolding down_inv_def by (metis fun_upd_apply)
qed

text \<open>The pool, when there is none yet and when there is one.\<close>

lemma new_pool_served:
  assumes cfg: "mc_Validate (mg_cfg m) = None" and new: "NewPool True (mc_PoolSize (mg_cfg m)) = Ret p" and acct: "acct {} m"
    and pool: "mg_pool m = Some p" and idle: "\<And>t. pp t = Idle"
  shows "served 0 m pp"
proof -
  have "0 \<le> mc_PoolSize (mg_cfg m)" using cfg by (simp add: mc_Validate_None_iff)
  then have p: "po_free p = []" "po_all p = []" "int (po_maxSize p) = mc_PoolSize (mg_cfg m)" "po_maxSize p = nat (mc_PoolSize (mg_cfg m))"
    "po_sem p = (if mc_PoolSize (mg_cfg m) > 0 then Some (nat (mc_PoolSize (mg_cfg m))) else None)"
    using new by (auto simp: NewPool_def split: if_splits)
  then have "conc_inv 0 (pool_view m p) pp" by (auto simp: conc_inv_def sem_inv_def own_inv_def idle)
  with p acct pool show ?thesis by (auto simp: served_def)
qed

lemma acct_fields [simp]:
  "acct R (m\<lparr>co_world := w\<rparr>) = acct R m" "acct R (m\<lparr>mg_pool := p\<rparr>) = acct R m" "acct R (m\<lparr>mg_cachedDBPath := c\<rparr>) = acct R m"
  "acct R (m\<lparr>mg_state := s\<rparr>) = acct R m" "acct R (m\<lparr>mg_inflightDone := b\<rparr>) = acct R m"
  by (simp_all add: acct_def accounts_on_def)

lemma pool_ok_init:
  assumes law: "cache_law ensureCache" and inv: "hinv g pcs" and none: "mg_pool (ho_mgr g) = None"
    and sect: "init_sect sys ensureCache (pcs t) (ho_mgr g) pc' m"
  shows "pool_ok m (pcs(t := pc'))"
proof -
  note I = hinvD [OF inv] and L = life_invD [OF hinvD(2) [OF inv]]
  have acct: "acct {} (ho_mgr g)" using I(4) none by (simp add: pool_ok_def)
  have idle: "pool_pc (pcs u) = Idle" for u
    using pool_pc_outside [of "pcs u"] L(4) [of u] none by (auto simp: opened_def)
  from sect show ?thesis
  proof cases
    case (init_ok c)
    obtain p path w where "NewPool True (mc_PoolSize (mg_cfg (ho_mgr g))) = Ret p"
      "m = (ho_mgr g)\<lparr>co_world := w, mg_cachedDBPath := path, mg_pool := Some p\<rparr>"
      using doInitialize_outcome(1) [OF law L(1) none init_ok(4)] by blast
    with idle L(1) acct init_ok(2) have "served 0 m (pool_pcs (pcs(t := pc')))" by (intro new_pool_served) auto
    then show ?thesis by (auto simp: pool_ok_def served_def)
  next
    case (init_fail c e)
    with doInitialize_outcome(2) [OF law L(1) none init_fail(4)] acct show ?thesis by (auto simp: pool_ok_def)
  next
    case (init_panic c msg)
    with doInitialize_outcome(3) [OF law L(1) none] show ?thesis by blast
  qed (use acct none in \<open>auto simp: pool_ok_def\<close>)
qed

lemma pool_ok_none:
  assumes law: "cache_law ensureCache" and inv: "hinv g pcs" and none: "mg_pool (ho_mgr g) = None"
    and sect: "hsect sys grp ensureCache (pcs t) g pc' g'"
  shows "pool_ok (ho_mgr g') (pcs(t := pc'))"
proof -
  note I = hinvD [OF inv] and L = life_invD [OF hinvD(2) [OF inv]]
  have acct: "acct {} (ho_mgr g)" using I(4) none by (simp add: pool_ok_def)
  have nw: "zone (pcs u) \<noteq> Working" for u using L(4) [of u] none by (auto simp: opened_def)
  have nr: "mg_state (ho_mgr g) \<noteq> managerReady" using L(5) none by (auto simp: opened_def)
  have same: ?thesis if "ho_mgr g' = ho_mgr g" using that none acct by (simp add: pool_ok_def)
  from sect show ?thesis
  proof cases
    case (h_acquire m)
    from h_acquire(2) nw [of t] nr same show ?thesis by cases (auto simp: h_acquire(1))
  next
    case (h_release m)
    from h_release(2) nw [of t] show ?thesis by cases auto
  next
    case (h_back m)
    from h_back(2) nw [of t] show ?thesis by cases auto
  next
    case (h_shutdown m)
    from h_shutdown(2) show ?thesis
    proof cases
      case (shut_stop a todo c w e m1 all es)
      have "a < co_next (ho_mgr g)" using I(6) shut_stop(1,4) unfolding todo_inv_def by blast
      then have "acct {} m1" using acct_stop [OF _ _ shut_stop(6)] acct by simp
      with inst_call_frame [OF shut_stop(6)] none shut_stop(3) h_shutdown(1) show ?thesis by (simp add: pool_ok_def)
    qed (use acct none h_shutdown(1) in \<open>auto simp: pool_ok_def\<close>)
  next
    case (h_initialize m)
    with pool_ok_init [OF law inv none h_initialize(2)] show ?thesis by simp
  qed (use same in auto)
qed


lemma hsect_served:
  assumes laws: "group_law grp" "net_law sys" and inv: "hinv g pcs" and some: "mg_pool (ho_mgr g) \<noteq> None"
    and sv: "served l (ho_mgr g) (pool_pcs pcs)" and sect: "hsect sys grp ensureCache (pcs t) g pc' g'"
  shows "\<exists>l'. served l' (ho_mgr g') (pool_pcs (pcs(t := pc'))) \<and> (l' = l \<or> goes_down (pcs t))"
proof -
  note I = hinvD [OF inv] and L = life_invD [OF hinvD(2) [OF inv]]
  have idle: "(pool_pcs pcs)(t := Idle) = pool_pcs pcs" if "zone (pcs t) \<noteq> Working"
    using pool_pc_outside [OF that] by (simp add: fun_upd_idem)
  have outside: "served l (ho_mgr g') (pool_pcs (pcs(t := pc')))"
    if "zone (pcs t) \<noteq> Working" "zone pc' \<noteq> Working" "served l (ho_mgr g') (pool_pcs pcs)"
    using that idle pool_pc_outside [OF that(2)] unfolding upds by simp
  from sect show ?thesis
  proof cases
    case (h_acquire m)
    with acq_served [OF laws sv L(1) _ h_acquire(2)] show ?thesis unfolding upds by auto
  next
    case (h_release m)
    with rel_served [OF sv L(1) _ h_release(2)] show ?thesis unfolding upds by auto
  next
    case (h_back m)
    with back_served [OF sv L(1) _ h_back(2)] show ?thesis unfolding upds by auto
  next
    case (h_shutdown m)
    note z = shut_life [OF h_shutdown(2)]
    have "served l m (pool_pcs pcs)"
      by (rule shut_served [OF sv _ h_shutdown(2)]) (use z I(6) pool_pc_outside [of "pcs t"] in \<open>auto simp: todo_inv_def\<close>)
    with outside z h_shutdown(1) show ?thesis by auto
  next
    case (h_initialize m)
    have "zone (pcs t) \<noteq> Early" using L(2) [of t] some by blast
    with h_initialize(2) have "zone (pcs t) \<noteq> Working \<and> zone pc' \<noteq> Working \<and> served l m (pool_pcs pcs)"
      by cases (use sv in auto)
    with outside h_initialize(1) show ?thesis by auto
  next
    case (h_lock c)
    with outside sv show ?thesis by auto
  next
    case h_unlock
    with outside sv show ?thesis by auto
  qed
qed

lemma hsect_pool_ok:
  assumes laws: "group_law grp" "net_law sys" "cache_law ensureCache" and inv: "hinv g pcs"
    and sect: "hsect sys grp ensureCache (pcs t) g pc' g'"
  shows "pool_ok (ho_mgr g') (pcs(t := pc'))"
proof (cases "mg_pool (ho_mgr g) = None")
  case True
  from pool_ok_none [OF laws(3) inv True sect] show ?thesis .
next
  case False
  note I = hinvD [OF inv] and L = life_invD [OF hinvD(2) [OF inv]]
  from I(4) False obtain l where l: "served l (ho_mgr g) (pool_pcs pcs)"
    "0 < l \<Longrightarrow> opened (ho_mgr g) (zones pcs) \<and> mg_state (ho_mgr g) = managerShuttingDown" by (auto simp: pool_ok_def)
  from hsect_served [OF laws(1,2) inv False l(1) sect] obtain l' where
    l': "served l' (ho_mgr g') (pool_pcs (pcs(t := pc')))" "l' = l \<or> goes_down (pcs t)" by blast
  have some: "mg_pool (ho_mgr g') \<noteq> None" using l'(1) by (auto simp: served_def)
  have "opened (ho_mgr g') (zones (pcs(t := pc'))) \<and> mg_state (ho_mgr g') = managerShuttingDown" if "0 < l'"
  proof -
    have op: "opened (ho_mgr g) (zones pcs)" "mg_state (ho_mgr g) = managerShuttingDown"
      using that l(2) l'(2) goes_down_working [of "pcs t"] L(4) [of t] I(5) unfolding down_inv_def by blast+
    from hsect_down [OF I(2) sect refl op(1)] op some show ?thesis unfolding opened_def zones_upd by auto
  qed
  with l'(1) some show ?thesis by (auto simp: pool_ok_def)
qed

lemma not_crashed:
  assumes "life_inv m (zones pcs)" and "pool_ok m pcs"
  shows "pcs t \<noteq> HCrashed msg"
proof
  assume crashed: "pcs t = HCrashed msg"
  then have "opened m (zones pcs)" using life_invD(4) [OF assms(1), of t] by simp
  with assms(2) obtain l where "served l m (pool_pcs pcs)" by (auto simp: pool_ok_def opened_def)
  then obtain p where "own_inv p (\<lambda>a. in_gen (co_heap m a)) (co_next m) (pool_pcs pcs)"
    by (auto simp: served_def conc_inv_def)
  from own_invD(6) [OF this, of t msg] crashed show False by simp
qed

lemma hsect_counted:
  assumes "hsect sys grp ensureCache pc g pc' g'" and "\<forall>msg. pc' \<noteq> HCrashed msg" and "zone pc = Early \<longrightarrow> mg_pool (ho_mgr g) = None"
  shows "counted pc (ho_mgr g) pc' (ho_mgr g')"
  using assms(1)
  by cases (use assms(2,3) in \<open>auto dest: acq_counted rel_counted back_counted shut_counted init_counted simp: counted_def\<close>)

lemma hinv_step:
  assumes laws: "group_law grp" "net_law sys" "cache_law ensureCache" and inv: "hinv g pcs"
    and sect: "hsect sys grp ensureCache (pcs t) g pc' g'"
  shows "hinv g' (pcs(t := pc'))"
proof -
  note I = hinvD [OF inv]
  have mu: "mutex_inv (ho_initMu g') (zones (pcs(t := pc')))" unfolding zones_upd by (rule hsect_mutex [OF I(1) sect refl])
  have life: "life_inv (ho_mgr g') (zones (pcs(t := pc')))" unfolding zones_upd by (rule hsect_life [OF laws(3) I(2,1) sect refl])
  have pool: "pool_ok (ho_mgr g') (pcs(t := pc'))" by (rule hsect_pool_ok [OF laws inv sect])
  have "pc' \<noteq> HCrashed msg" for msg using not_crashed [OF life pool, of t msg] by simp
  moreover have "zone (pcs t) = Early \<longrightarrow> mg_pool (ho_mgr g) = None" using life_invD(2) [OF I(2), of t] by blast
  ultimately have "counted (pcs t) (ho_mgr g) pc' (ho_mgr g')" using hsect_counted [OF sect] by blast
  then have "window_inv (ho_mgr g') (windows (pcs(t := pc')))"
    unfolding upds counted_def by (rule window_move [OF I(3)])
  with mu life pool hsect_down_inv [OF inv sect] hsect_todo [OF inv sect] show ?thesis by (simp add: hinv_def)
qed

lemma hinv_new:
  assumes "NewManagerWithConfig cfg w = Ret m"
  shows "hinv \<lparr>ho_mgr = m, ho_initMu = False\<rparr> (\<lambda>_. HIdle)"
  using assms
  by (auto simp: NewManagerWithConfig_def hinv_def mutex_inv_def life_inv_def opened_def window_inv_def pool_ok_def down_inv_def
      todo_inv_def acct_def accounts_on_def NewPortRegistry_def split: if_splits)

interpretation hi: host_invariant_new sys grp ensureCache
  "\<lambda>g pcs. group_law grp \<and> net_law sys \<and> cache_law ensureCache \<longrightarrow> hinv g pcs" for sys grp ensureCache
  by unfold_locales (auto intro: hinv_step hinv_new)

lemma hreach_inv:
  assumes "group_law grp" and "net_law sys" and "cache_law ensureCache" and "hreach sys grp ensureCache cfg (g, pcs)"
  shows "hinv g pcs"
  using hi.inv_reach [OF assms(4)] assms(1-3) by simp

lemma hsect_cfg:
  assumes "hsect sys grp ensureCache pc g pc' g'" and "zone pc = Early \<longrightarrow> mg_pool (ho_mgr g) = None"
  shows "mg_cfg (ho_mgr g') = mg_cfg (ho_mgr g)"
  using assms(1)
proof cases
  case (h_initialize m)
  from h_initialize(2) assms(2) show ?thesis
    by cases (auto simp: h_initialize(1) doInitialize_def split: prod.splits option.splits if_splits sum.splits outcome.splits)
qed (auto simp: same_life_def dest!: acq_life rel_life back_life shut_life)

lemma hreach_cfg:
  assumes laws: "group_law grp" "net_law sys" "cache_law ensureCache" and reach: "hreach sys grp ensureCache cfg (g, pcs)"
  shows "mg_cfg (ho_mgr g) = cfg"
  using reach
proof (induction "(g, pcs)" arbitrary: g pcs rule: hreach.induct)
  case (hreach_new w m)
  then show ?case by (auto simp: NewManagerWithConfig_def split: if_splits)
next
  case (hreach_step x t)
  from hreach_step(3) obtain g0 pcs0 pc' where x: "x = (g0, pcs0)" "hsect sys grp ensureCache (pcs0 t) g0 pc' g"
    by cases auto
  have "life_inv (ho_mgr g0) (zones pcs0)" using hinvD(2) [OF hreach_inv [OF laws]] hreach_step(1) x(1) by blast
  from hsect_cfg [OF x(2)] life_invD(2) [OF this, of t] hreach_step(2) [OF x(1)] show ?case by simp
qed

lemma pool_ok_acct: "pool_ok m pcs \<Longrightarrow> acct (registered m) m"
  by (auto simp: pool_ok_def served_def registered_def split: if_splits)

subsection \<open>Properties\<close>



end
