(* ===== verification/Progress.thy ===== *)
theory Progress
  imports Interleave
begin

text \<open>
  Progress and termination of the handlers under concurrency. A goroutine inside a handler can run its
  next section, or it waits for a slot or for \<^verbatim>\<open>initMu\<close> and some other goroutine can run one; and a
  goroutine that keeps running comes back to its caller. With these, no interleaving of the handlers
  deadlocks.
\<close>

subsection \<open>Where the goroutines can stand\<close>

fun acq_pc :: "pc \<Rightarrow> bool" where
  "acq_pc (Holds a t) = False" | "acq_pc (RConsumed a) = False" | "acq_pc (RStop a) = False" | "acq_pc CClosing = False"
| "acq_pc (Crashed msg) = False"
| "acq_pc _ = True"

fun fail_pc :: "pc \<Rightarrow> bool" where
  "fail_pc (RStop a) = True" | "fail_pc RSlot = True"
| "fail_pc _ = False"

fun rel_pc :: "pc \<Rightarrow> bool" where
  "rel_pc (RConsumed a) = True"
| "rel_pc pc = fail_pc pc"

text \<open>The sections of the pool that each handler runs.\<close>

fun pc_ok :: "hpc \<Rightarrow> bool" where
  "pc_ok (APool d pc) = acq_pc pc"
| "pc_ok (RPool pc) = rel_pc pc"
| "pc_ok (Back k pc) = fail_pc pc"
| "pc_ok _ = True"

lemma sect_pcs:
  assumes "sect sys factory pc s pc' s'"
  shows "acq_pc pc \<Longrightarrow> pc \<noteq> Idle \<Longrightarrow> acq_pc pc' \<or> pc' = Idle \<or> (\<exists>a t. pc' = Holds a t) \<or> (\<exists>msg. pc' = Crashed msg)"
    and "rel_pc pc \<Longrightarrow> rel_pc pc' \<or> pc' = Idle \<or> (\<exists>msg. pc' = Crashed msg)"
    and "fail_pc pc \<Longrightarrow> fail_pc pc' \<or> pc' = Idle \<or> (\<exists>msg. pc' = Crashed msg)"
  using assms by (cases rule: sect.cases; simp)+

lemma pool_sect_pcs:
  assumes "pool_sect sys pc m pc' m'"
  shows "acq_pc pc \<Longrightarrow> pc \<noteq> Idle \<Longrightarrow> pc_ok (after_acquire d pc')"
    and "rel_pc pc \<Longrightarrow> pc_ok (after_release pc')" and "fail_pc pc \<Longrightarrow> pc_ok (after_failed k pc')"
proof -
  from assms obtain p s where s: "sect sys (manager_factory sys m) pc (pool_view m p) pc' s" by cases
  note S = sect_pcs [OF s]
  show "pc_ok (after_acquire d pc')" if "acq_pc pc" "pc \<noteq> Idle" using S(1) [OF that] by (cases pc') simp_all
  show "pc_ok (after_release pc')" if "rel_pc pc" using S(2) [OF that] by (cases pc') simp_all
  show "pc_ok (after_failed k pc')" if "fail_pc pc" using S(3) [OF that] by (cases k; cases pc') simp_all
qed

lemma ended_ok [simp]: "pc_ok (ended k)"
  by (cases k) simp_all

lemma hsect_pc_ok:
  assumes "hsect sys grp ensureCache pc g pc' g'" and "pc_ok pc"
  shows "pc_ok pc'"
  using assms(1)
proof cases
  case (h_acquire m)
  from h_acquire(2) assms(2) show ?thesis by cases (auto intro: pool_sect_pcs(1))
next
  case (h_release m)
  from h_release(2) assms(2) show ?thesis by cases (auto intro: pool_sect_pcs(2))
next
  case (h_back m)
  from h_back(2) assms(2) show ?thesis by cases (auto intro: pool_sect_pcs(3))
next
  case (h_shutdown m)
  from h_shutdown(2) show ?thesis by cases simp_all
next
  case (h_initialize m)
  from h_initialize(2) show ?thesis by cases simp_all
qed simp_all

subsection \<open>Enabled sections\<close>

definition enabled ::
  "'w os \<Rightarrow> (kine_process, api_process, 'w) errgroup \<Rightarrow> 'w ensure_cache \<Rightarrow> 'w host \<Rightarrow> hpc \<Rightarrow> bool" where
  "enabled sys grp ensureCache g pc \<longleftrightarrow> (\<exists>pc' g'. hsect sys grp ensureCache pc g pc' g')"

text \<open>The two places where a goroutine waits: the \<^verbatim>\<open>select\<close> of the pool, with every branch shut, and the
  lock of \<^verbatim>\<open>initMu\<close>.\<close>

fun blocked :: "'w os \<Rightarrow> 'w host \<Rightarrow> hpc \<Rightarrow> bool" where
  "blocked sys g (APool d (AWait c)) \<longleftrightarrow>
     (case mg_pool (ho_mgr g) of None \<Rightarrow> False
      | Some p \<Rightarrow> po_sem p = Some 0 \<and> po_closeCh p \<noteq> Some True \<and> os_ctx_err sys c (co_world (ho_mgr g)) = None)"
| "blocked sys g (IWant c) \<longleftrightarrow> ho_initMu g"
| "blocked sys g _ \<longleftrightarrow> False"

lemma enabledI:
  "acq_sect sys grp pc (ho_mgr g) pc' m \<Longrightarrow> enabled sys grp ec g pc"
  "rel_sect sys pc (ho_mgr g) pc' m \<Longrightarrow> enabled sys grp ec g pc"
  "back_sect sys pc (ho_mgr g) pc' m \<Longrightarrow> enabled sys grp ec g pc"
  "shut_sect sys pc (ho_mgr g) pc' m \<Longrightarrow> enabled sys grp ec g pc"
  "init_sect sys ec pc (ho_mgr g) pc' m \<Longrightarrow> enabled sys grp ec g pc"
  unfolding enabled_def by (blast intro: h_acquire h_release h_back h_shutdown h_initialize)+

lemma sect_enabled:
  assumes "pc \<noteq> Idle" and "\<forall>c. pc \<noteq> AWait c" and "\<forall>msg. pc \<noteq> Crashed msg"
  shows "\<exists>pc' s'. sect sys factory pc s pc' s'"
proof (cases pc)
  case ASlot
  obtain ch p where "popFree (sh_pool s) = (ch, p)" by fastforce
  with ASlot show ?thesis by (cases ch) (blast intro: sect.intros)+
next
  case (APopped a)
  obtain t i where "markAcquired (co_heap s a) = (t, i)" by fastforce
  with APopped show ?thesis by (blast intro: mark)
next
  case (ANew idx)
  obtain out s' where f: "factory idx s = (out, s')" by fastforce
  show ?thesis
  proof (cases out)
    case (Ret r)
    with f ANew show ?thesis by (cases r) (blast intro: sect.intros)+
  next
    case (Panic msg)
    with f ANew show ?thesis by (blast intro: make_panic)
  qed
next
  case (AMade a)
  obtain b p where "registerNew a (sh_pool s) = (b, p)" by fastforce
  with AMade show ?thesis by (cases b) (auto intro: sect.intros)
next
  case (AClosedNew a)
  obtain out p where "returnSlot (sh_pool s) = (out, p)" by fastforce
  with AClosedNew show ?thesis by (cases out) (blast intro: sect.intros)+
next
  case (Holds a t)
  obtain out i where "mustRelease (co_heap s a) t = (out, i)" by fastforce
  with Holds show ?thesis by (cases out) (blast intro: sect.intros)+
next
  case (RConsumed a)
  obtain b p where "pushFree a (sh_pool s) = (b, p)" by fastforce
  with RConsumed show ?thesis by (cases b) (auto intro: sect.intros)
next
  case RSlot
  obtain out p where "returnSlot (sh_pool s) = (out, p)" by fastforce
  with RSlot show ?thesis by (cases out) (blast intro: sect.intros)+
qed (use assms in \<open>auto intro: sect.intros\<close>)

lemma wait_enabled:
  assumes "\<not> (po_sem (sh_pool s) = Some 0 \<and> po_closeCh (sh_pool s) \<noteq> Some True \<and> os_ctx_err sys c (co_world s) = None)"
  shows "\<exists>pc' s'. sect sys factory (AWait c) s pc' s'"
proof -
  have "\<exists>ev r. takeSlot sys c ev (co_world s) (sh_pool s) = Some r"
  proof (cases "po_sem (sh_pool s)")
    case None
    then show ?thesis by (simp add: takeSlot_def)
  next
    case (Some k)
    then have "k > 0 \<or> po_closeCh (sh_pool s) = Some True \<or> os_ctx_err sys c (co_world s) \<noteq> None" using assms by auto
    with Some show ?thesis
      by (elim disjE; intro exI [of _ "if k > 0 then GotSlot else if po_closeCh (sh_pool s) = Some True then SawClosed else SawDone"])
        (auto simp: takeSlot_def)
  qed
  then obtain ev e p where "takeSlot sys c ev (co_world s) (sh_pool s) = Some (e, p)" by fastforce
  then show ?thesis by (cases e) (blast intro: slot_refused slot_taken)+
qed

lemma pool_sect_enabled:
  assumes "mg_pool m = Some p" and "pc \<noteq> Idle" and "\<forall>msg. pc \<noteq> Crashed msg"
    and "\<And>c. pc = AWait c \<Longrightarrow> \<not> (po_sem p = Some 0 \<and> po_closeCh p \<noteq> Some True \<and> os_ctx_err sys c (co_world m) = None)"
  shows "\<exists>pc' m'. pool_sect sys pc m pc' m'"
proof -
  have "\<exists>pc' s'. sect sys (manager_factory sys m) pc (pool_view m p) pc' s'"
  proof (cases "\<exists>c. pc = AWait c")
    case True
    with assms(4) wait_enabled [of "pool_view m p"] show ?thesis by auto
  next
    case False
    with sect_enabled [OF assms(2) _ assms(3)] show ?thesis by blast
  qed
  with pool_sectI [OF assms(1)] show ?thesis by blast
qed

text \<open>Every place of a handler: by the handlers that have it.\<close>

lemma acquire_enabled:
  assumes "\<And>d pc. x = APool d pc \<Longrightarrow> acq_pc pc \<and> mg_pool (ho_mgr g) \<noteq> None" and "\<not> blocked sys g x"
    and "(\<exists>c. x = AReady c) \<or> (\<exists>d pc. x = APool d pc) \<or> (\<exists>d a t. x \<in> {ALook d a t, AStart d a t, ADone d a t}) \<or> (\<exists>d. x = AEnd d)"
  shows "enabled sys grp ec g x"
proof -
  let ?m = "ho_mgr g"
  consider c where "x = AReady c" | d pc where "x = APool d pc" | d a t where "x \<in> {ALook d a t, AStart d a t, ADone d a t}" | d where "x = AEnd d"
    using assms(3) by blast
  then show ?thesis
  proof cases
    case (1 c)
    obtain d w where d: "os_ctx_with_timeout sys c (mc_AcquireTimeout (mg_cfg ?m)) (co_world ?m) = (d, w)" by fastforce
    show ?thesis
      by (cases "mg_pool ?m = None") (use 1 enabledI(1) [OF acq_nil] enabledI(1) [OF acq_pool [OF _ d]] in auto)
  next
    case (2 d pc)
    then obtain p where p: "mg_pool ?m = Some p" "acq_pc pc" using assms(1) by blast
    show ?thesis
    proof (cases "pc = Idle")
      case True
      with 2 show ?thesis
        by (cases "os_ctx_err sys d (co_world ?m) = None") (auto intro: enabledI(1) acq_wait acq_ended)
    next
      case False
      have "\<exists>pc' m'. pool_sect sys pc ?m pc' m'"
        by (rule pool_sect_enabled [OF p(1) False]) (use assms(2) 2 p in auto)
      with False 2 show ?thesis by (blast intro: enabledI(1) acq_inside)
    qed
  next
    case (3 d a t)
    obtain e m' where "inst_call a (\<lambda>i r w. inst_Start sys grp i d r w) ?m = (e, m')" by fastforce
    then have "enabled sys grp ec g (AStart d a t)"
      by (cases "IsStarted (co_heap ?m a)"; cases e) (auto intro: enabledI(1) start_warm start_ok start_fail)
    moreover have "enabled sys grp ec g (ALook d a t)"
      by (cases "mg_state ?m = managerShuttingDown") (auto intro: enabledI(1) look_down look_up)
    ultimately show ?thesis using 3 by (auto intro: enabledI(1) acq_return)
  next
    case (4 d)
    then show ?thesis by (auto intro: enabledI(1) acq_error)
  qed
qed

lemma purge_enabled:
  "enabled sys grp ec g (RPurge a t)" "enabled sys grp ec g (RRead a t)" "enabled sys grp ec g (RRun h a t)"
proof -
  let ?m = "ho_mgr g"
  show "enabled sys grp ec g (RPurge a t)"
    by (cases "in_started (co_heap ?m a)") (auto intro: enabledI(2) purge_cold purge_warm)
  show "enabled sys grp ec g (RRead a t)"
    by (cases "in_purge (co_heap ?m a)") (auto intro: enabledI(2) purge_nil purge_handle)
  obtain cc w1 where cc: "os_ctx_with_timeout sys Background (ic_CleanupTimeout (in_cfg (co_heap ?m a))) (co_world ?m) = (cc, w1)"
    by fastforce
  obtain e w2 where "purge_purge sys h cc w1 = (e, w2)" by fastforce
  then show "enabled sys grp ec g (RRun h a t)" by (cases e) (auto intro: enabledI(2) purge_ok [OF cc] purge_fail [OF cc])
qed

lemma return_enabled:
  assumes "mg_pool (ho_mgr g) = Some p"
  shows "enabled sys grp ec g (RLoad a t)" and "enabled sys grp ec g (AFail k a t)" and "enabled sys grp ec g (Down k a t)"
    and "rel_pc pc \<Longrightarrow> enabled sys grp ec g (RPool pc)" and "fail_pc pc \<Longrightarrow> enabled sys grp ec g (Back k pc)"
proof -
  let ?m = "ho_mgr g"
  obtain out i where mr: "mustRelease (co_heap ?m a) t = (out, i)" by fastforce
  obtain c w where c: "os_ctx_with_timeout sys Background (mc_InstanceStopTimeout (mg_cfg ?m)) (co_world ?m) = (c, w)" by fastforce
  show "enabled sys grp ec g (RLoad a t)"
    by (cases out) (use mr assms in \<open>auto intro: enabledI(2) rel_pool rel_double\<close>)
  show "enabled sys grp ec g (AFail k a t)"
    by (cases out) (use mr assms in \<open>auto intro: enabledI(3) fail_consume fail_double\<close>)
  show "enabled sys grp ec g (Down k a t)"
    by (cases out) (use mr in \<open>auto intro: enabledI(3) down_consume [OF c] down_double\<close>)
  show "enabled sys grp ec g (RPool pc)" if "rel_pc pc"
    using pool_sect_enabled [OF assms, of pc] that by (cases pc) (auto intro: enabledI(2) rel_inside)
  show "enabled sys grp ec g (Back k pc)" if "fail_pc pc"
    using pool_sect_enabled [OF assms, of pc] that by (cases pc) (auto intro: enabledI(3) fail_inside)
qed

lemma leave_enabled:
  "enabled sys grp ec g (Held a t)" "enabled sys grp ec g (RIn a t)" "enabled sys grp ec g (RLeave r)" "enabled sys grp ec g (RNote z r)"
  "enabled sys grp ec g (DStop k c a)"
proof -
  let ?m = "ho_mgr g"
  show "enabled sys grp ec g (Held a t)"
    by (cases "in_hasReleaser (co_heap ?m a) \<and> isCurrentToken (co_heap ?m a) t") (auto intro: enabledI(2) rel_stale rel_current)
  show "enabled sys grp ec g (RIn a t)"
    by (cases "mg_state ?m = managerShuttingDown") (auto intro: enabledI(2) rel_down rel_up)
  obtain z' m' where "decInflight ?m = (z', m')" by fastforce
  then show "enabled sys grp ec g (RLeave r)" by (rule enabledI(2) [OF rel_leave])
  show "enabled sys grp ec g (RNote z r)" by (cases r) (auto intro: enabledI(2) rel_done rel_stop)
  obtain e m' where "inst_call a (\<lambda>i r w. inst_Stop sys i c r w) ?m = (e, m')" by fastforce
  then show "enabled sys grp ec g (DStop k c a)" by (rule enabledI(3) [OF down_stop])
qed

lemma shutdown_enabled:
  "enabled sys grp ec g SGo" "enabled sys grp ec g (SStop all todo es)"
  "mg_pool (ho_mgr g) \<noteq> None \<Longrightarrow> enabled sys grp ec g SClosing" "mg_pool (ho_mgr g) \<noteq> None \<Longrightarrow> enabled sys grp ec g SClosed"
proof -
  let ?m = "ho_mgr g"
  show "enabled sys grp ec g SGo" by (cases "mg_pool ?m") (auto intro: enabledI(4) shut_nil shut_pool)
  show "enabled sys grp ec g (SStop all todo es)"
  proof (cases todo)
    case Nil
    then show ?thesis by (auto intro: enabledI(4) shut_join)
  next
    case (Cons a as)
    obtain c w where c: "os_ctx_with_timeout sys Background (mc_InstanceStopTimeout (mg_cfg ?m)) (co_world ?m) = (c, w)" by fastforce
    obtain e m' where "inst_call a (\<lambda>i r w. inst_Stop sys i c r w) (?m\<lparr>co_world := w\<rparr>) = (e, m')" by fastforce
    from shut_stop [OF _ c this, of todo] Cons show ?thesis by (auto intro: enabledI(4))
  qed
qed (auto intro: enabledI(4) shut_chan shut_list)

lemma initialize_enabled:
  "enabled sys grp ec g (IHas c)" "enabled sys grp ec g (IBody c)" "enabled sys grp ec g IRoll"
proof -
  let ?m = "ho_mgr g"
  show "enabled sys grp ec g (IHas c)" by (cases "mg_state ?m") (auto intro: enabledI(5) init_over init_go)
  obtain out m' where d: "doInitialize sys ec c ?m = (out, m')" by fastforce
  have "enabled sys grp ec g (IBody c)" if "mc_Validate (mg_cfg ?m) = None"
  proof (cases out)
    case (Ret r)
    with d that show ?thesis by (cases r) (auto intro: enabledI(5) init_ok init_fail)
  qed (use d that in \<open>auto intro: enabledI(5) init_panic\<close>)
  then show "enabled sys grp ec g (IBody c)"
    by (cases "mc_Validate (mg_cfg ?m) = None") (auto intro: enabledI(5) init_invalid)
  show "enabled sys grp ec g IRoll" using enabledI(5) [OF init_rollback [OF refl]] by blast
qed

lemma rest_enabled:
  "enabled sys grp ec g HIdle" "enabled sys grp ec g (REnter a t)" "enabled sys grp ec g SStored" "enabled sys grp ec g (SSeen z)"
  "enabled sys grp ec g SWait" "enabled sys grp ec g (SDone e)" "enabled sys grp ec g (ILoaded c)" "enabled sys grp ec g IReady"
  "enabled sys grp ec g ICreated"
  by (blast intro: enabledI rel_enter shut_store shut_look shut_close shut_timeout shut_return init_begin init_ready init_created)+

lemma lock_enabled: "enabled sys grp ec g IEnd" "\<not> ho_initMu g \<Longrightarrow> enabled sys grp ec g (IWant c)"
  unfolding enabled_def using h_unlock h_lock by blast+

fun closing :: "hpc \<Rightarrow> bool" where
  "closing SClosing = True" | "closing SClosed = True"
| "closing _ = False"

lemma enabled_or_blocked:
  assumes "pc_ok x" and "zone x = Working \<or> closing x \<Longrightarrow> mg_pool (ho_mgr g) \<noteq> None" and "\<forall>msg. x \<noteq> HCrashed msg"
  shows "enabled sys grp ec g x \<or> blocked sys g x"
proof (cases x)
  case (APool d pc)
  with acquire_enabled [of x g sys] assms(1,2) show ?thesis by auto
qed (use assms return_enabled [of g] acquire_enabled [of x g sys] in
    \<open>auto simp: purge_enabled leave_enabled shutdown_enabled initialize_enabled rest_enabled lock_enabled\<close>)

subsection \<open>Who lets the others go on\<close>

fun shutting :: "hpc \<Rightarrow> bool" where
  "shutting SStored = True" | "shutting (SSeen z) = True" | "shutting SWait = True" | "shutting SGo = True" | "shutting SClosing = True"
| "shutting _ = False"

text \<open>The channel \<^verbatim>\<open>closeCh\<close> of the pool, when there is one.\<close>

definition gate :: "'w mgr \<Rightarrow> bool option" where
  "gate m = Option.bind (mg_pool m) po_closeCh"

definition gated :: "'w mgr \<Rightarrow> bool" where
  "gated m \<longleftrightarrow> (\<forall>p. mg_pool m = Some p \<longrightarrow> (po_sem p = None \<longleftrightarrow> po_closeCh p = None))"

text \<open>A held mutex has an owner; between the store of the state and the close of the channel there is a
  goroutine on its way to close it; and one that closes the pool has a pool.\<close>

definition live_inv :: "'w host \<Rightarrow> (nat \<Rightarrow> hpc) \<Rightarrow> bool" where
  "live_inv g pcs \<longleftrightarrow> (\<forall>t. pc_ok (pcs t)) \<and> gated (ho_mgr g) \<and> (ho_initMu g \<longrightarrow> (\<exists>t. locked (zone (pcs t)))) \<and>
     (\<forall>t. closing (pcs t) \<longrightarrow> mg_pool (ho_mgr g) \<noteq> None) \<and>
     (opened (ho_mgr g) (zones pcs) \<longrightarrow> mg_state (ho_mgr g) = managerShuttingDown \<longrightarrow> gate (ho_mgr g) = Some False \<longrightarrow>
        (\<exists>t. shutting (pcs t)))"

lemma live_invD:
  assumes "live_inv g pcs"
  shows "pc_ok (pcs t)" and "gated (ho_mgr g)" and "ho_initMu g \<Longrightarrow> \<exists>t. locked (zone (pcs t))"
    and "closing (pcs t) \<Longrightarrow> mg_pool (ho_mgr g) \<noteq> None"
    and "opened (ho_mgr g) (zones pcs) \<Longrightarrow> mg_state (ho_mgr g) = managerShuttingDown \<Longrightarrow> gate (ho_mgr g) = Some False \<Longrightarrow>
      \<exists>t. shutting (pcs t)"
  using assms unfolding live_inv_def by blast+

lemma sect_gate:
  assumes fac: "instance_factory factory" and sect: "sect sys factory pc s pc' s'" and "pc \<noteq> CClosing"
  shows "po_closeCh (sh_pool s') = po_closeCh (sh_pool s)" and "po_sem (sh_pool s') = None \<longleftrightarrow> po_sem (sh_pool s) = None"
proof -
  have "po_closeCh (sh_pool s') = po_closeCh (sh_pool s) \<and> (po_sem (sh_pool s') = None \<longleftrightarrow> po_sem (sh_pool s) = None)"
    using sect
  proof cases
    case (make idx a)
    then show ?thesis using more_pool [OF conjunct2 [OF instance_factory.factory_frame [OF fac make(3)]]] by simp
  next
    case (make_fail idx e)
    then show ?thesis using more_pool [OF conjunct2 [OF instance_factory.factory_frame [OF fac make_fail(3)]]] by simp
  next
    case (make_panic idx m)
    then show ?thesis using more_pool [OF conjunct2 [OF instance_factory.factory_frame [OF fac make_panic(3)]]] by simp
  next
    case (stop_new a)
    then show ?thesis using more_pool [OF stopInstanceBestEffort_gen(3), of sys a s] by simp
  next
    case (stop a)
    then show ?thesis using more_pool [OF stopInstanceBestEffort_gen(3), of sys a s] by simp
  qed (use assms(3) in \<open>auto simp: takeSlot_def popFree_def registerNew_def pushFree_def returnSlot_def closeLocked_def set_inst_def
      split: option.splits sem_event.splits if_splits\<close>)
  then show "po_closeCh (sh_pool s') = po_closeCh (sh_pool s)" "po_sem (sh_pool s') = None \<longleftrightarrow> po_sem (sh_pool s) = None" by simp_all
qed

text \<open>A section that leaves the channel alone.\<close>

definition same_gate :: "'w mgr \<Rightarrow> 'w mgr \<Rightarrow> bool" where
  "same_gate m m' \<longleftrightarrow> gate m' = gate m \<and> (gated m \<longrightarrow> gated m')"

lemma same_gate_pool: "mg_pool m' = mg_pool m \<Longrightarrow> same_gate m m'"
  by (simp add: same_gate_def gate_def gated_def)

lemma pool_sect_gate:
  assumes "pool_sect sys pc m pc' m'" and "pc \<noteq> CClosing"
  shows "same_gate m m'"
proof -
  from assms(1) obtain p s where p: "mg_pool m = Some p" and s: "sect sys (manager_factory sys m) pc (pool_view m p) pc' s"
    and m': "m' = from_view m s" by cases
  note fac = manager_factory_instance
  from sect_gate [OF fac s assms(2)] p show ?thesis by (simp add: m' from_view_def same_gate_def gate_def gated_def)
qed

lemma handler_sect_gate: "pool_sect sys pc m pc' m' \<Longrightarrow> acq_pc pc \<or> rel_pc pc \<or> fail_pc pc \<Longrightarrow> same_gate m m'"
  by (erule pool_sect_gate) (cases pc; simp)

lemma acq_gate: "acq_sect sys grp pc m pc' m' \<Longrightarrow> pc_ok pc \<Longrightarrow> same_gate m m'"
  by (cases rule: acq_sect.cases)
    (auto intro: handler_sect_gate same_gate_pool dest!: inst_call_frame simp: set_inst_def)

lemma rel_gate: "rel_sect sys pc m pc' m' \<Longrightarrow> pc_ok pc \<Longrightarrow> same_gate m m'"
  by (cases rule: rel_sect.cases)
    (auto intro: handler_sect_gate same_gate_pool simp: set_inst_def decInflight_def)

lemma back_gate: "back_sect sys pc m pc' m' \<Longrightarrow> pc_ok pc \<Longrightarrow> same_gate m m'"
  by (cases rule: back_sect.cases)
    (auto intro: handler_sect_gate same_gate_pool dest!: inst_call_frame simp: set_inst_def)

lemma live_invI:
  assumes "\<And>t. pc_ok (pcs t)" and "gated (ho_mgr g)" and "ho_initMu g \<Longrightarrow> \<exists>t. locked (zone (pcs t))"
    and "\<And>t. closing (pcs t) \<Longrightarrow> mg_pool (ho_mgr g) \<noteq> None"
    and "mg_pool (ho_mgr g) \<noteq> None \<Longrightarrow> mg_state (ho_mgr g) = managerShuttingDown \<Longrightarrow> gate (ho_mgr g) = Some False \<Longrightarrow>
      opened (ho_mgr g) (zones pcs) \<Longrightarrow> \<exists>t. shutting (pcs t)"
  shows "live_inv g pcs"
  using assms unfolding live_inv_def opened_def by blast

lemma host_mgr: "ho_mgr (g\<lparr>ho_mgr := m\<rparr>) = m" "ho_initMu (g\<lparr>ho_mgr := m\<rparr>) = ho_initMu g"
  by simp_all

text \<open>A section of a client, that leaves the life cycle and the channel alone, keeps the invariant.\<close>

lemma live_same:
  assumes inv: "live_inv g pcs" and life: "same_life (zone (pcs t)) (ho_mgr g) (zone pc') m" and gate: "same_gate (ho_mgr g) m"
    and ok: "pc_ok pc'" and sh: "shutting (pcs t) \<longrightarrow> shutting pc'" and cl: "closing pc' \<longrightarrow> mg_pool m \<noteq> None"
  shows "live_inv (g\<lparr>ho_mgr := m\<rparr>) (pcs(t := pc'))"
proof -
  note D = live_invD [OF inv]
  let ?pcs = "pcs(t := pc')"
  have pool: "mg_pool m = None \<longleftrightarrow> mg_pool (ho_mgr g) = None" and st: "mg_state m = mg_state (ho_mgr g)"
    using life by (simp_all add: same_life_def)
  have z: "zone pc' = x \<longleftrightarrow> zone (pcs t) = x" if "locked x" for x
    using life that unfolding same_life_def by (metis locked.simps(1,2))
  then have zs: "zone (?pcs u) = x \<longleftrightarrow> zone (pcs u) = x" if "locked x" for u x using that by simp
  have op: "opened m (zones ?pcs) = opened (ho_mgr g) (zones pcs)" using pool zs unfolding opened_def by simp
  show ?thesis
  proof (rule live_invI, unfold host_mgr)
    show "\<exists>u. locked (zone (?pcs u))" if "ho_initMu g" using D(3) [OF that] zs by metis
    show "\<exists>u. shutting (?pcs u)"
      if "opened m (zones ?pcs)" "mg_state m = managerShuttingDown" "gate m = Some False"
    proof -
      from that D(5) gate st obtain u where "shutting (pcs u)" unfolding op same_gate_def by auto
      with sh show ?thesis by (intro exI [of _ u]) auto
    qed
    show "mg_pool m \<noteq> None" if "closing (?pcs u)" for u
      using that cl D(4) [of u] pool by (cases "u = t") simp_all
    show "gated m" using gate D(2) by (simp add: same_gate_def)
  qed (use D(1) ok in simp)
qed

lemma client_pcs:
  "acq_sect sys grp pc m pc' m' \<Longrightarrow> \<not> shutting pc \<and> \<not> closing pc'" "rel_sect sys pc m pc' m' \<Longrightarrow> \<not> shutting pc \<and> \<not> closing pc'"
  "back_sect sys pc m pc' m' \<Longrightarrow> \<not> shutting pc \<and> \<not> closing pc'" "init_sect sys ensureCache pc m pc' m' \<Longrightarrow> \<not> shutting pc \<and> \<not> closing pc'"
proof -
  have [simp]: "\<not> closing (after_acquire d x)" "\<not> closing (after_release x)" "\<not> closing (ended k)" "\<not> closing (after_failed k x)"
    for d k x by (cases x; cases k; simp)+
  show "acq_sect sys grp pc m pc' m' \<Longrightarrow> \<not> shutting pc \<and> \<not> closing pc'" by (cases rule: acq_sect.cases) auto
  show "rel_sect sys pc m pc' m' \<Longrightarrow> \<not> shutting pc \<and> \<not> closing pc'" by (cases rule: rel_sect.cases) auto
  show "back_sect sys pc m pc' m' \<Longrightarrow> \<not> shutting pc \<and> \<not> closing pc'" by (cases rule: back_sect.cases) auto
  show "init_sect sys ensureCache pc m pc' m' \<Longrightarrow> \<not> shutting pc \<and> \<not> closing pc'" by (cases rule: init_sect.cases) auto
qed

lemma live_shut:
  assumes inv: "live_inv g pcs" and sect: "shut_sect sys (pcs t) (ho_mgr g) pc' m"
  shows "live_inv (g\<lparr>ho_mgr := m\<rparr>) (pcs(t := pc'))"
proof -
  note D = live_invD [OF inv]
  let ?pcs = "pcs(t := pc')"
  have z: "zone (pcs t) = Outside" "zone pc' = Outside" using shut_life [OF sect] by auto
  then have zs: "zone (?pcs u) = zone (pcs u)" for u by simp
  have moved: "live_inv (g\<lparr>ho_mgr := m\<rparr>) ?pcs"
    if ok: "shutting pc' \<or> gate m \<noteq> Some False \<or> mg_pool m = None" "gated m" "mg_pool m = None \<longrightarrow> mg_pool (ho_mgr g) = None"
      "closing pc' \<longrightarrow> mg_pool m \<noteq> None" "pc_ok pc'"
  proof (rule live_invI, unfold host_mgr)
    show "mg_pool m \<noteq> None" if "closing (?pcs u)" for u
      using that D(4) [of u] ok(3,4) by (cases "u = t") auto
    show "\<exists>u. shutting (?pcs u)" if "mg_pool m \<noteq> None" "gate m = Some False"
      using ok(1) that by (intro exI [of _ t]) auto
    show "\<exists>u. locked (zone (?pcs u))" if "ho_initMu g" unfolding zs by (rule D(3) [OF that])
  qed (use D(1) ok in simp_all)
  have same: "live_inv (g\<lparr>ho_mgr := m\<rparr>) ?pcs"
    if "mg_state m = mg_state (ho_mgr g)" "mg_cfg m = mg_cfg (ho_mgr g)" "mg_pool m = mg_pool (ho_mgr g)" "\<not> shutting (pcs t)"
      "closing pc' \<longrightarrow> mg_pool m \<noteq> None" "pc_ok pc'"
    by (rule live_same [OF inv]) (use that z same_gate_pool in \<open>auto simp: same_life_def\<close>)
  from sect show ?thesis
  proof cases
    case (shut_list p)
    show ?thesis by (rule same) (use shut_list in simp_all)
  next
    case (shut_stop a todo c w e m1 all es)
    show ?thesis by (rule same) (use shut_stop inst_call_frame [OF shut_stop(6)] in simp_all)
  next
    case (shut_join all es)
    show ?thesis by (rule same) (use shut_join in simp_all)
  next
    case (shut_return e)
    show ?thesis by (rule same) (use shut_return in simp_all)
  qed (rule moved; use D(2) in \<open>simp add: gate_def gated_def closeLocked_def closeChan_def\<close>)+
qed

lemma live_init:
  assumes law: "cache_law ensureCache" and hinv: "hinv g pcs" and inv: "live_inv g pcs"
    and sect: "init_sect sys ensureCache (pcs t) (ho_mgr g) pc' m"
  shows "live_inv (g\<lparr>ho_mgr := m\<rparr>) (pcs(t := pc'))"
proof -
  note D = live_invD [OF inv] and I = hinvD [OF hinv] and L = life_invD [OF hinvD(2) [OF hinv]]
  let ?pcs = "pcs(t := pc')"
  have pool: "zone (pcs t) = Early \<Longrightarrow> mg_pool (ho_mgr g) = None" by (rule L(2))
  have moved: "live_inv (g\<lparr>ho_mgr := m\<rparr>) ?pcs"
    if ok: "locked (zone pc')" "gated m" "mg_pool m = None \<longrightarrow> mg_pool (ho_mgr g) = None" "pc_ok pc'"
      "zone pc' = Stored \<or> mg_pool m = None \<or> mg_state m \<noteq> managerShuttingDown"
  proof (rule live_invI, unfold host_mgr)
    show "mg_pool m \<noteq> None" if "closing (?pcs u)" for u
      using that D(4) [of u] ok(3) client_pcs(4) [OF sect] by (cases "u = t") auto
    show "\<exists>u. locked (zone (?pcs u))" using ok(1) by (intro exI [of _ t]) simp
    show "\<exists>u. shutting (?pcs u)" if "opened m (zones ?pcs)" "mg_state m = managerShuttingDown"
    proof -
      have "zone (?pcs t) \<noteq> Stored" "mg_pool m \<noteq> None" using that(1) unfolding opened_def by blast+
      with ok(5) that(2) show ?thesis by simp
    qed
  qed (use D(1) ok in simp_all)
  have same: "live_inv (g\<lparr>ho_mgr := m\<rparr>) ?pcs" if "m = ho_mgr g" "zone pc' = zone (pcs t)" "pc_ok pc'"
    by (rule live_same [OF inv]) (use that client_pcs(4) [OF sect] same_gate_pool in \<open>auto simp: same_life_def\<close>)
  from sect show ?thesis
  proof cases
    case (init_want c)
    show ?thesis by (rule same) (use init_want in simp_all)
  next
    case (init_over c)
    show ?thesis by (rule same) (use init_over in simp_all)
  next
    case (init_go c)
    show ?thesis by (rule moved) (use init_go D(2) in auto)
  next
    case (init_ok c)
    then obtain p path w where "NewPool True (mc_PoolSize (mg_cfg (ho_mgr g))) = Ret p"
      "m = (ho_mgr g)\<lparr>co_world := w, mg_cachedDBPath := path, mg_pool := Some p\<rparr>"
      using doInitialize_outcome(1) [OF law L(1) pool init_ok(4)] by auto
    then show ?thesis by (intro moved) (use init_ok in \<open>auto simp: gated_def NewPool_def split: if_splits\<close>)
  next
    case (init_fail c e)
    then have "mg_pool (ho_mgr g) = None" "mg_pool m = None" using pool doInitialize_outcome(2) [OF law L(1) pool init_fail(4)] by auto
    then show ?thesis by (intro moved) (use init_fail in \<open>simp_all add: gated_def\<close>)
  next
    case (init_panic c msg)
    with doInitialize_outcome(3) [OF law L(1) pool] show ?thesis by simp
  qed (rule moved; use D(2) pool in \<open>simp add: gated_def\<close>)+
qed

lemma live_lock:
  assumes inv: "live_inv g pcs" and z: "zone (pcs t) \<in> {Outside, Locked}" "zone pc' \<in> {Outside, Locked}"
    and ok: "pc_ok pc'" "\<not> shutting (pcs t)" "\<not> closing pc'" and mu: "b \<longrightarrow> locked (zone pc')"
  shows "live_inv (g\<lparr>ho_initMu := b\<rparr>) (pcs(t := pc'))"
proof -
  note D = live_invD [OF inv]
  let ?pcs = "pcs(t := pc')"
  have op: "opened (ho_mgr g) (zones ?pcs) = opened (ho_mgr g) (zones pcs)"
    unfolding opened_def using z by (metis fun_upd_apply hzone.distinct(3,5,17,19) insertE singletonD)
  show ?thesis
  proof (rule live_invI)
    show "\<exists>u. locked (zone (?pcs u))" if "ho_initMu (g\<lparr>ho_initMu := b\<rparr>)" using that mu by (intro exI [of _ t]) simp
    show "mg_pool (ho_mgr (g\<lparr>ho_initMu := b\<rparr>)) \<noteq> None" if "closing (?pcs u)" for u
      using that D(4) [of u] ok(3) by (cases "u = t") auto
    show "\<exists>u. shutting (?pcs u)" if "opened (ho_mgr (g\<lparr>ho_initMu := b\<rparr>)) (zones ?pcs)"
      "mg_state (ho_mgr (g\<lparr>ho_initMu := b\<rparr>)) = managerShuttingDown" "gate (ho_mgr (g\<lparr>ho_initMu := b\<rparr>)) = Some False"
    proof -
      from that D(5) op obtain u where "shutting (pcs u)" by auto
      with ok(2) show ?thesis by (intro exI [of _ u]) auto
    qed
  qed (use D(1,2) ok(1) in simp_all)
qed

lemma live_step:
  assumes law: "cache_law ensureCache" and hinv: "hinv g pcs" and inv: "live_inv g pcs"
    and sect: "hsect sys grp ensureCache (pcs t) g pc' g'"
  shows "live_inv g' (pcs(t := pc'))"
proof -
  have ok: "pc_ok (pcs t)" "pc_ok pc'" using live_invD(1) [OF inv] hsect_pc_ok [OF sect] by blast+
  from sect show ?thesis
  proof cases
    case (h_acquire m)
    from live_same [OF inv acq_life [OF h_acquire(2)] acq_gate [OF h_acquire(2) ok(1)] ok(2)] client_pcs(1) [OF h_acquire(2)] h_acquire(1)
    show ?thesis by simp
  next
    case (h_release m)
    from live_same [OF inv rel_life [OF h_release(2)] rel_gate [OF h_release(2) ok(1)] ok(2)] client_pcs(2) [OF h_release(2)] h_release(1)
    show ?thesis by simp
  next
    case (h_back m)
    from live_same [OF inv back_life [OF h_back(2)] back_gate [OF h_back(2) ok(1)] ok(2)] client_pcs(3) [OF h_back(2)] h_back(1)
    show ?thesis by simp
  next
    case (h_shutdown m)
    with live_shut [OF inv h_shutdown(2)] show ?thesis by simp
  next
    case (h_initialize m)
    with live_init [OF law hinv inv h_initialize(2)] show ?thesis by simp
  next
    case (h_lock c)
    with live_lock [OF inv, of t pc' True] show ?thesis by simp
  next
    case h_unlock
    with live_lock [OF inv, of t pc' False] show ?thesis by simp
  qed
qed

lemma live_new: "NewManagerWithConfig cfg w = Ret m \<Longrightarrow> live_inv \<lparr>ho_mgr = m, ho_initMu = False\<rparr> (\<lambda>_. HIdle)"
  by (auto simp: NewManagerWithConfig_def live_inv_def gated_def gate_def split: if_splits)

interpretation lv: host_invariant_new sys grp ensureCache
  "\<lambda>g pcs. group_law grp \<and> net_law sys \<and> cache_law ensureCache \<longrightarrow> hinv g pcs \<and> live_inv g pcs" for sys grp ensureCache
  by unfold_locales (auto intro: hinv_step hinv_new live_step live_new)

lemma hreach_live:
  assumes "group_law grp" and "net_law sys" and "cache_law ensureCache" and "hreach sys grp ensureCache cfg (g, pcs)"
  shows "live_inv g pcs"
  using lv.inv_reach [OF assms(4)] assms(1-3) by simp

subsection \<open>Ranks\<close>

text \<open>How far a goroutine is from its caller: first by the place in the code, then, while a shutdown
  stops the instances, by how many are left.\<close>

fun pool_rank :: "pc \<Rightarrow> nat" where
  "pool_rank (AWait c) = 10"
| "pool_rank ASlot = 9"
| "pool_rank (ANew idx) = 8"
| "pool_rank (AMade a) = 7"
| "pool_rank (APopped a) = 6"
| "pool_rank (AClosedNew a) = 6"
| "pool_rank (AStop a) = 5"
| "pool_rank (RConsumed a) = 4"
| "pool_rank (RStop a) = 3"
| "pool_rank RSlot = 2"
| "pool_rank CClosing = 1"
| "pool_rank _ = 0"

fun rank :: "hpc \<Rightarrow> nat" where
  "rank (AReady c) = 40"
| "rank (APool d pc) = (if pc = Idle then 38 else 20 + pool_rank pc)"
| "rank (ALook d a t) = 19"
| "rank (AStart d a t) = 18"
| "rank (RPurge a t) = 24"
| "rank (RRead a t) = 23"
| "rank (RRun h a t) = 22"
| "rank (AFail k a t) = 15"
| "rank (Back k pc) = 5 + pool_rank pc"
| "rank (ADone d a t) = 1"
| "rank (REnter a t) = 21"
| "rank (RIn a t) = 20"
| "rank (RLoad a t) = 19"
| "rank (RPool pc) = 10 + pool_rank pc"
| "rank (RLeave r) = 9"
| "rank (RNote z r) = 8"
| "rank (Down k a t) = 7"
| "rank (DStop k c a) = 3"
| "rank (AEnd d) = 1"
| "rank SStored = 9" | "rank (SSeen z) = 8" | "rank SWait = 7" | "rank SGo = 6" | "rank SClosing = 5" | "rank SClosed = 4"
| "rank (SStop all todo es) = 3"
| "rank (SDone e) = 1"
| "rank (IWant c) = 9" | "rank (IHas c) = 8" | "rank (ILoaded c) = 7" | "rank (IBody c) = 6" | "rank IRoll = 5" | "rank IReady = 4"
| "rank ICreated = 4" | "rank IEnd = 3"
| "rank _ = 0"

fun left :: "hpc \<Rightarrow> nat" where
  "left (SStop all todo es) = length todo"
| "left _ = 0"

definition distance :: "hpc \<Rightarrow> nat \<times> nat" where
  "distance pc = (rank pc, left pc)"

definition nearer :: "(hpc \<times> hpc) set" where
  "nearer = inv_image (less_than <*lex*> less_than) distance"

lemma wf_nearer: "wf nearer"
  unfolding nearer_def by (intro wf_inv_image wf_lex_prod wf_less_than)

text \<open>The caller has the goroutine back: nothing runs, or the caller has its lease.\<close>

fun returned :: "hpc \<Rightarrow> bool" where
  "returned HIdle = True"
| "returned (Held a t) = True"
| "returned _ = False"

lemma nearerI: "rank pc' < rank pc \<Longrightarrow> (pc', pc) \<in> nearer"
  by (simp add: nearer_def distance_def)

lemma sect_rank: "sect sys factory pc s pc' s' \<Longrightarrow> acq_pc pc \<and> pc \<noteq> Idle \<or> rel_pc pc \<or> fail_pc pc \<Longrightarrow> pool_rank pc' < pool_rank pc"
  by (cases rule: sect.cases) auto

lemma pool_sect_rank:
  "pool_sect sys pc m pc' m' \<Longrightarrow> acq_pc pc \<and> pc \<noteq> Idle \<or> rel_pc pc \<or> fail_pc pc \<Longrightarrow> pool_rank pc' < pool_rank pc"
  by (auto elim!: pool_sect.cases dest: sect_rank)

lemma rank_after:
  "rank (after_acquire d pc) \<le> 20 + pool_rank pc" "rank (after_release pc) \<le> 10 + pool_rank pc" "rank (after_failed k pc) \<le> 5 + pool_rank pc"
  "rank (ended k) \<le> 1"
  by (cases pc; cases k; simp)+

lemma hsect_nearer:
  assumes "hsect sys grp ensureCache pc g pc' g'" and "pc_ok pc" and "\<not> returned pc"
  shows "(pc', pc) \<in> nearer"
  using assms(1)
proof cases
  case (h_acquire m)
  from h_acquire(2) show ?thesis
  proof cases
    case (acq_inside pc pc' d)
    with assms(2) pool_sect_rank [OF acq_inside(4)] rank_after(1) [of d pc'] show ?thesis by (auto intro: nearerI)
  qed (use assms(3) in \<open>auto intro: nearerI\<close>)
next
  case (h_release m)
  from h_release(2) show ?thesis
  proof cases
    case (rel_inside pc pc')
    with assms(2) pool_sect_rank [OF rel_inside(3)] rank_after(2) [of pc'] show ?thesis by (auto intro: nearerI)
  qed (use assms(3) in \<open>auto intro: nearerI\<close>)
next
  case (h_back m)
  from h_back(2) show ?thesis
  proof cases
    case (fail_inside pc pc' k)
    with assms(2) pool_sect_rank [OF fail_inside(3)] rank_after(3) [of k pc'] show ?thesis by (auto intro: nearerI)
  next
    case (fail_nil k a t)
    with rank_after(4) [of k] show ?thesis by (auto intro: nearerI)
  next
    case (down_stop a c e m' k)
    with rank_after(4) [of k] show ?thesis by (auto intro: nearerI)
  qed (auto intro: nearerI)
next
  case (h_shutdown m)
  from h_shutdown(2) show ?thesis
  proof cases
    case (shut_stop a todo c w e m' all es)
    have "length (remove1 a todo) < length todo"
      using shut_stop(4) length_pos_if_in_set [OF shut_stop(4)] by (simp add: length_remove1)
    with shut_stop show ?thesis by (simp add: nearer_def distance_def)
  qed (use assms(3) in \<open>auto intro: nearerI\<close>)
next
  case (h_initialize m)
  from h_initialize(2) show ?thesis by cases (use assms(3) in \<open>auto intro: nearerI\<close>)
qed (auto intro: nearerI)

interpretation ok: host_invariant_new sys grp ensureCache "\<lambda>g pcs. \<forall>t. pc_ok (pcs t)" for sys grp ensureCache
  by unfold_locales (auto intro: hsect_pc_ok)

lemma hstep_other: "hstep sys grp ensureCache u x y \<Longrightarrow> u \<noteq> t \<Longrightarrow> snd y t = snd x t"
  by (auto elim!: hstep.cases)

lemma hstep_own:
  assumes "hstep sys grp ensureCache t x y" and "pc_ok (snd x t)" and "\<not> returned (snd x t)"
  shows "(snd y t, snd x t) \<in> nearer"
  using assms(1)
proof cases
  case (hstepI pcs g pc' g')
  with hsect_nearer [OF hstepI(3)] assms(2,3) show ?thesis by simp
qed

text \<open>In a run, a goroutine stays where it is until its next turn.\<close>

lemma next_turn:
  assumes run: "\<And>i. hstep sys grp ensureCache (who i) (x i) (x (Suc i))" and inf: "infinite {i. who i = t}"
  obtains j where "n \<le> j" "who j = t" "snd (x j) t = snd (x n) t"
proof -
  have "\<exists>j \<ge> n. who j = t" using inf unfolding finite_nat_set_iff_bounded by (auto simp: not_less)
  then obtain j where j: "n \<le> j" "who j = t" "\<And>i. n \<le> i \<Longrightarrow> i < j \<Longrightarrow> who i \<noteq> t"
    using LeastI_ex [of "\<lambda>j. n \<le> j \<and> who j = t"] not_less_Least [of _ "\<lambda>j. n \<le> j \<and> who j = t"] that by blast
  have "snd (x i) t = snd (x n) t" if "n \<le> i" "i \<le> j" for i
    using that
  proof (induction i rule: dec_induct)
    case (step i)
    with hstep_other [OF run, of i t] j(3) [of i] show ?case by simp
  qed simp
  with j that show ?thesis by blast
qed

text \<open>Whom a waiting goroutine waits for.\<close>

lemma waits_for:
  assumes life: "life_inv (ho_mgr g) (zones pcs)" and pool: "pool_ok (ho_mgr g) pcs" and gated: "gated (ho_mgr g)"
    and mu: "ho_initMu g \<Longrightarrow> \<exists>u. locked (zone (pcs u))"
    and shut: "opened (ho_mgr g) (zones pcs) \<Longrightarrow> mg_state (ho_mgr g) = managerShuttingDown \<Longrightarrow> gate (ho_mgr g) = Some False \<Longrightarrow>
      \<exists>u. shutting (pcs u)"
    and wait: "blocked sys g (pcs t)"
  shows "\<exists>u. has_slot (pool_pc (pcs u)) \<or> shutting (pcs u) \<or> locked (zone (pcs u))"
proof -
  from wait consider (slot) d c p where "pcs t = APool d (AWait c)" "mg_pool (ho_mgr g) = Some p" "po_sem p = Some 0"
      "po_closeCh p \<noteq> Some True" | (mutex) c where "pcs t = IWant c" "ho_initMu g"
    by (cases "(sys, g, pcs t)" rule: blocked.cases) (auto split: option.splits)
  then show ?thesis
  proof cases
    case (slot d c p)
    from pool slot(2) obtain l where l: "served l (ho_mgr g) (pool_pcs pcs)"
      "0 < l \<longrightarrow> opened (ho_mgr g) (zones pcs) \<and> mg_state (ho_mgr g) = managerShuttingDown" by (auto simp: pool_ok_def)
    from l(1) slot(2) have "sem_inv l p (pool_pcs pcs)" by (auto simp: served_def conc_inv_def)
    with slot(3) have "card {u. has_slot (pool_pc (pcs u))} + l > 0" by (auto simp: sem_inv_def)
    moreover have "gate (ho_mgr g) = Some False" using gated slot by (auto simp: gate_def gated_def)
    ultimately show ?thesis using l(2) shut by (cases "l = 0") (auto simp: card_gt_0_iff)
  qed (use mu in blast)
qed

subsection \<open>Properties\<close>

text \<open>C5. No interleaving of the handlers deadlocks: a goroutine can run its next section, or it waits for a
  slot or for \<^verbatim>\<open>initMu\<close> and then another goroutine that has a slot, that is about to close the pool or
  that has the mutex can run one. So no slot and no lock is lost, also when a shutdown abandons slots.\<close>

theorem handlers_progress:
  assumes "group_law grp" and "net_law sys" and "cache_law ensureCache" and "hreach sys grp ensureCache cfg (g, pcs)"
  shows "enabled sys grp ensureCache g (pcs t) \<or>
    blocked sys g (pcs t) \<and> (\<exists>u. u \<noteq> t \<and> enabled sys grp ensureCache g (pcs u) \<and>
      (has_slot (pool_pc (pcs u)) \<or> shutting (pcs u) \<or> locked (zone (pcs u))))"
proof -
  note I = hinvD [OF hreach_inv [OF assms]] and D = live_invD [OF hreach_live [OF assms]]
  have pool: "zone (pcs u) = Working \<or> closing (pcs u) \<Longrightarrow> mg_pool (ho_mgr g) \<noteq> None" for u
    using life_invD(4) [OF I(2), of u] D(4) [of u] by (auto simp: opened_def)
  have goes: "enabled sys grp ensureCache g (pcs u) \<or> blocked sys g (pcs u)" for u
    using not_crashed [OF I(2,4), of u] by (intro enabled_or_blocked D(1) pool) auto
  have free: "\<not> blocked sys g (pcs u)" if "has_slot (pool_pc (pcs u)) \<or> shutting (pcs u) \<or> locked (zone (pcs u))" for u
    using that by (cases "(sys, g, pcs u)" rule: blocked.cases) auto
  show ?thesis
  proof (cases "blocked sys g (pcs t)")
    case True
    then obtain u where u: "has_slot (pool_pc (pcs u)) \<or> shutting (pcs u) \<or> locked (zone (pcs u))"
      using waits_for [OF I(2,4) D(2,3,5)] by blast
    then have nb: "\<not> blocked sys g (pcs u)" by (rule free)
    with True have "u \<noteq> t" by auto
    with True u nb goes [of u] show ?thesis by blast
  qed (use goes in blast)
qed


subsection \<open>Sample runs\<close>

lemma hreach_sect:
  "hreach sys grp ensureCache cfg (g, pcs) \<Longrightarrow> pcs t = pc \<Longrightarrow> hsect sys grp ensureCache pc g pc' g' \<Longrightarrow>
     hreach sys grp ensureCache cfg (g', pcs(t := pc'))"
  by (blast intro: hreach_step hstepI)

text \<open>Two calls of \<^verbatim>\<open>Initialize\<close> on a new manager: one has the mutex, the other waits for it.\<close>

lemma sample_waiting:
  assumes "NewManagerWithConfig sample_cfg 0 = Ret m"
  shows "hreach counting_net seq_group keep_cache sample_cfg
    (\<lparr>ho_mgr = m, ho_initMu = True\<rparr>, (\<lambda>_. HIdle)(0 := IWant 1, 0 := IHas 1, 1 := IWant 1))"
proof -
  let ?h = "\<lambda>b. \<lparr>ho_mgr = m, ho_initMu = b\<rparr>"
  have want: "hsect counting_net seq_group keep_cache HIdle (?h b) (IWant 1) (?h b)" for b
    using h_initialize [OF init_want, of counting_net seq_group keep_cache "?h b" 1] by simp
  have lock: "hsect counting_net seq_group keep_cache (IWant 1) (?h False) (IHas 1) (?h True)"
    using h_lock [of "?h False" counting_net seq_group keep_cache 1] by simp
  have "hreach counting_net seq_group keep_cache sample_cfg (?h False, \<lambda>_. HIdle)" by (rule hreach_new [OF assms])
  from hreach_sect [OF hreach_sect [OF hreach_sect [OF this _ want, of 0] _ lock, of 0] _ want, of 1] show ?thesis by simp
qed

theorem handlers_progress_witness:
  "\<exists>g pcs. hreach counting_net seq_group keep_cache sample_cfg (g, pcs) \<and> blocked counting_net g (pcs 1) \<and>
     (enabled counting_net seq_group keep_cache g (pcs 1) \<or> (\<exists>u. u \<noteq> 1 \<and> enabled counting_net seq_group keep_cache g (pcs u)))"
proof -
  obtain m :: "nat mgr" where new: "NewManagerWithConfig sample_cfg 0 = Ret m" using sample_Initialize by blast
  note reach = sample_waiting [OF new]
  from handlers_progress [OF seq_group_law counting_net_law keep_cache_law reach, of 1] reach show ?thesis
    by (intro exI conjI) (assumption, simp, blast)
qed

text \<open>A goroutine that calls \<^verbatim>\<open>Initialize\<close> again and again on a manager that shuts down, while the one that
  shuts it down takes no turn.\<close>

definition calls :: "nat \<Rightarrow> hpc" where
  "calls i = (if i mod 4 = 0 then HIdle else if i mod 4 = 1 then IWant 1 else if i mod 4 = 2 then IHas 1 else IEnd)"

definition calls_run :: "nat mgr \<Rightarrow> nat \<Rightarrow> nat host \<times> (nat \<Rightarrow> hpc)" where
  "calls_run m i = (\<lparr>ho_mgr = m, ho_initMu = 2 \<le> i mod 4\<rparr>, (\<lambda>_. HIdle)(1 := SStored, 0 := calls i))"

lemma calls_sect:
  assumes "mg_state m = managerShuttingDown"
  shows "hsect sys grp ensureCache (calls i) \<lparr>ho_mgr = m, ho_initMu = 2 \<le> i mod 4\<rparr> (calls (Suc i)) \<lparr>ho_mgr = m, ho_initMu = 2 \<le> Suc i mod 4\<rparr>"
proof -
  let ?h = "\<lambda>b. \<lparr>ho_mgr = m, ho_initMu = b\<rparr>"
  have "i mod 4 < 4" by simp
  then consider "i mod 4 = 0" | "i mod 4 = 1" | "i mod 4 = 2" | "i mod 4 = 3" by linarith
  then show ?thesis
  proof cases
    case 1
    then have "Suc i mod 4 = 1" by presburger
    with 1 h_initialize [OF init_want, of sys grp ensureCache "?h False" 1] show ?thesis by (simp add: calls_def)
  next
    case 2
    then have "Suc i mod 4 = 2" by presburger
    with 2 h_lock [of "?h False" sys grp ensureCache 1] show ?thesis by (simp add: calls_def)
  next
    case 3
    then have "Suc i mod 4 = 3" by presburger
    with 3 h_initialize [OF init_over, of "?h True" sys grp ensureCache 1] assms show ?thesis by (simp add: calls_def)
  next
    case 4
    then have "Suc i mod 4 = 0" by presburger
    with 4 h_unlock [of sys grp ensureCache "?h True"] show ?thesis by (simp add: calls_def)
  qed
qed

lemma calls_step:
  assumes "mg_state m = managerShuttingDown"
  shows "hstep sys grp ensureCache 0 (calls_run m i) (calls_run m (Suc i))"
  using calls_sect [OF assms, of sys grp ensureCache i]
    hstepI [of sys grp ensureCache "(\<lambda>_. HIdle)(1 := SStored, 0 := calls i)" 0 "fst (calls_run m i)" "calls (Suc i)" "fst (calls_run m (Suc i))"]
  by (simp add: calls_run_def)


end
