(* ===== verification/Quiet.thy ===== *)
theory Quiet
  imports Progress
begin

text \<open>
  What a shutdown leaves behind. A goroutine that looked at the state just before \<^verbatim>\<open>Shutdown\<close> stored it may
  still start its instance (theory \<open>Races\<close>). Once no such goroutine is left, nothing starts an instance
  any more, and a \<^verbatim>\<open>Shutdown\<close> that runs from then on, with any interleaving of the clients, leaves every
  instance stopped and every port free.
\<close>

subsection \<open>Running instances\<close>

definition running :: "('w, 'z) core_scheme \<Rightarrow> nat set" where
  "running s = {a. a < co_next s \<and> in_started (co_heap s a)}"

definition closed :: "'w mgr \<Rightarrow> bool" where
  "closed m \<longleftrightarrow> (\<exists>p. mg_pool m = Some p \<and> po_closed p)"

definition clean :: "'w mgr \<Rightarrow> bool" where
  "clean m \<longleftrightarrow> closed m \<and> running m = {}"

lemma inst_Stop_started: "inst_Stop sys i c r w = (e, i', r', w') \<Longrightarrow> in_started i' \<Longrightarrow> in_started i"
  by (auto simp: inst_Stop_def Let_def split: option.splits prod.splits if_splits)

lemma running_set_inst: "in_started i = in_started (co_heap s a) \<Longrightarrow> running (set_inst a i s) = running s"
  by (auto simp: running_def set_inst_def)

lemma running_world [simp]: "running (s\<lparr>co_world := w\<rparr>) = running s"
  by (simp add: running_def)

lemma running_call_stop:
  "inst_call a (\<lambda>i r w. inst_Stop sys i c r w) s = (e, s') \<Longrightarrow> running s' \<subseteq> running s"
  by (auto simp: running_def inst_call_def set_inst_def split: prod.splits if_splits dest: inst_Stop_started)

lemma running_stopBestEffort: "running (stopInstanceBestEffort sys a s) \<subseteq> running s"
proof -
  obtain c w where c: "os_ctx_with_timeout sys Background (ic_StopTimeout (in_cfg (co_heap s a))) (co_world s) = (c, w)" by fastforce
  obtain e s' where s': "inst_call a (\<lambda>i r w. inst_Stop sys i c r w) (s\<lparr>co_world := w\<rparr>) = (e, s')" by fastforce
  from running_call_stop [OF s'] c s' show ?thesis by (simp add: stopInstanceBestEffort_def Let_def)
qed

lemma running_mustRelease: "mustRelease i t = (out, i') \<Longrightarrow> in_started i' = in_started i"
  by (auto simp: mustRelease_eq split: if_splits)

lemma sect_running:
  assumes fac: "instance_factory factory" and sect: "sect sys factory pc s pc' s'"
  shows "running s' \<subseteq> running s"
  using sect
proof cases
  case (mark a t i)
  then show ?thesis by (auto simp: running_def set_inst_def markAcquired_def split: if_splits)
next
  case (make idx a)
  from instance_factory.factory_new [OF fac make(3)] obtain i where
    "co_next s' = Suc (co_next s)" "co_heap s' = (co_heap s)(co_next s := i)" "\<not> in_started i" by blast
  then show ?thesis by (auto simp: running_def split: if_splits)
next
  case (make_fail idx e)
  with instance_factory.factory_fail [OF fac make_fail(3)] show ?thesis by (simp add: running_def)
next
  case (make_panic idx m)
  with instance_factory.factory_panic [OF fac make_panic(3)] show ?thesis by (simp add: running_def)
next
  case (stop_new a)
  with running_stopBestEffort show ?thesis by simp
next
  case (stop a)
  with running_stopBestEffort show ?thesis by simp
next
  case (release a t u i)
  with running_mustRelease [OF release(4)] show ?thesis by (simp add: running_set_inst)
next
  case (release_failed a t u i)
  with running_mustRelease [OF release_failed(4)] show ?thesis by (simp add: running_set_inst)
qed (simp_all add: running_def)

lemma sect_closed:
  assumes fac: "instance_factory factory" and sect: "sect sys factory pc s pc' s'" and "po_closed (sh_pool s)"
  shows "po_closed (sh_pool s')"
  using sect
proof cases
  case (make idx a)
  with more_pool [OF conjunct2 [OF instance_factory.factory_frame [OF fac make(3)]]] assms(3) show ?thesis by simp
next
  case (make_fail idx e)
  with more_pool [OF conjunct2 [OF instance_factory.factory_frame [OF fac make_fail(3)]]] assms(3) show ?thesis by simp
next
  case (make_panic idx m)
  with more_pool [OF conjunct2 [OF instance_factory.factory_frame [OF fac make_panic(3)]]] assms(3) show ?thesis by simp
next
  case (stop_new a)
  with more_pool [OF stopInstanceBestEffort_gen(3), of sys a s] assms(3) show ?thesis by simp
next
  case (stop a)
  with more_pool [OF stopInstanceBestEffort_gen(3), of sys a s] assms(3) show ?thesis by simp
qed (use assms(3) in \<open>auto simp: takeSlot_def popFree_def registerNew_def pushFree_def returnSlot_def closeLocked_def closeChan_def set_inst_def
    split: option.splits sem_event.splits if_splits\<close>)

text \<open>A section that starts nothing and does not open the pool again.\<close>

definition calm :: "'w mgr \<Rightarrow> 'w mgr \<Rightarrow> bool" where
  "calm m m' \<longleftrightarrow> running m' \<subseteq> running m \<and> (closed m \<longrightarrow> closed m')"

lemma calmI: "mg_pool m' = mg_pool m \<Longrightarrow> running m' \<subseteq> running m \<Longrightarrow> calm m m'"
  by (simp add: calm_def closed_def)

lemma pool_sect_calm:
  assumes "pool_sect sys pc m pc' m'"
  shows "calm m m'"
proof -
  from assms obtain p s where p: "mg_pool m = Some p" and s: "sect sys (manager_factory sys m) pc (pool_view m p) pc' s"
    and m': "m' = from_view m s" by cases
  note fac = manager_factory_instance
  from sect_running [OF fac s] sect_closed [OF fac s] p show ?thesis
    by (auto simp: m' from_view_def calm_def closed_def running_def)
qed

lemma calm_core:
  "mg_pool m' = mg_pool m \<Longrightarrow> co_heap m' = co_heap m \<Longrightarrow> co_next m' = co_next m \<Longrightarrow> calm m m'"
  by (simp add: calm_def closed_def running_def)

lemma calm_set:
  "in_started i = in_started (co_heap m a) \<Longrightarrow> calm m (set_inst a i m)"
  "in_started i = in_started (co_heap m a) \<Longrightarrow> calm m (set_inst a i (m\<lparr>co_world := w\<rparr>))"
  "in_started i = in_started (co_heap m a) \<Longrightarrow> calm m ((set_inst a i m)\<lparr>co_world := w\<rparr>)"
  by (auto simp: calm_def closed_def running_def set_inst_def)

lemma calm_stop:
  assumes "inst_call a (\<lambda>i r w. inst_Stop sys i c r w) (m\<lparr>co_world := w\<rparr>) = (e, m')"
  shows "calm m (m'\<lparr>co_world := w'\<rparr>)"
  using running_call_stop [OF assms] inst_call_frame [OF assms] by (auto simp: calm_def closed_def)

lemma started_setErr [simp]: "in_started (setErr i e) = in_started i"
  by (simp add: setErr_def)

lemma acq_calm: "acq_sect sys grp pc m pc' m' \<Longrightarrow> \<forall>d a t. pc \<noteq> AStart d a t \<Longrightarrow> calm m m'"
  by (cases rule: acq_sect.cases) (auto intro: pool_sect_calm calm_core)

lemma rel_calm:
  assumes "rel_sect sys pc m pc' m'"
  shows "calm m m'"
  using assms
proof cases
  case (rel_pool a t u i)
  with running_mustRelease [OF rel_pool(5)] calm_set(1) show ?thesis by simp
qed (auto intro: pool_sect_calm calm_core calm_set simp: decInflight_def noteDrained_def)

lemma back_calm:
  assumes "back_sect sys pc m pc' m'"
  shows "calm m m'"
  using assms
proof cases
  case (fail_consume a t u i k)
  with running_mustRelease [OF fail_consume(5)] calm_set(1) show ?thesis by simp
next
  case (down_consume c w a t u i k)
  with running_mustRelease [OF down_consume(5)] calm_set(3) show ?thesis by simp
next
  case (down_stop a c e m1 k)
  with calm_stop [where m = m and w = "co_world m"] show ?thesis by simp
qed (auto intro: pool_sect_calm calm_core)

lemma shut_calm:
  assumes "shut_sect sys pc m pc' m'"
  shows "calm m m'"
  using assms
proof cases
  case (shut_stop a todo c w e m1 all es)
  with calm_stop [OF shut_stop(6)] show ?thesis by simp
qed (auto simp: calm_def closed_def running_def closeLocked_def closeChan_def split: if_splits)

text \<open>The stop of an instance under a live context.\<close>

lemma stop_running:
  assumes "inst_inv (co_heap s a)" and "os_ctx_err sys c (co_world s) = None"
    and "inst_call a (\<lambda>i r w. inst_Stop sys i c r w) s = (e, s')"
  shows "a \<notin> running s'"
proof -
  obtain i r w where st: "inst_Stop sys (co_heap s a) c (co_reg s) (co_world s) = (e, i, r, w)"
    and s': "s' = (set_inst a i s)\<lparr>co_reg := r, co_world := w\<rparr>"
    using assms(3) by (auto simp: inst_call_def split: prod.splits)
  from inst_Stop_post [OF assms(1) st] assms(2) s' show ?thesis by (simp add: running_def set_inst_def)
qed

subsection \<open>Quiet states\<close>

text \<open>The manager shuts down, and no goroutine is about to start an instance because it looked before.\<close>

definition quiet :: "'w host \<Rightarrow> (nat \<Rightarrow> hpc) \<Rightarrow> bool" where
  "quiet g pcs \<longleftrightarrow> opened (ho_mgr g) (zones pcs) \<and> mg_state (ho_mgr g) = managerShuttingDown \<and>
     (\<forall>t d a k. pcs t \<noteq> AStart d a k)"

lemma quietD:
  assumes "quiet g pcs"
  shows "opened (ho_mgr g) (zones pcs)" and "mg_state (ho_mgr g) = managerShuttingDown" and "pcs t \<noteq> AStart d a k"
  using assms by (simp_all add: quiet_def)

lemma no_start:
  assumes "hsect sys grp ensureCache pc g pc' g'" and "mg_state (ho_mgr g) = managerShuttingDown"
  shows "pc' \<noteq> AStart d a k"
proof -
  have [simp]: "after_acquire e x \<noteq> AStart d a k" "after_release x \<noteq> AStart d a k" "after_failed j x \<noteq> AStart d a k"
    "ended j \<noteq> AStart d a k" for e j x by (cases x; cases j; simp)+
  from assms(1) show ?thesis
  proof cases
    case (h_acquire m)
    from h_acquire(2) assms(2) show ?thesis by cases simp_all
  next
    case (h_release m)
    from h_release(2) show ?thesis by cases simp_all
  next
    case (h_back m)
    from h_back(2) show ?thesis by cases simp_all
  next
    case (h_shutdown m)
    from h_shutdown(2) show ?thesis by cases simp_all
  next
    case (h_initialize m)
    from h_initialize(2) show ?thesis by cases simp_all
  qed simp_all
qed

lemma quiet_step:
  assumes laws: "group_law grp" "net_law sys" and inv: "hinv g pcs" and quiet: "quiet g pcs"
    and sect: "hsect sys grp ensureCache (pcs t) g pc' g'"
  shows "quiet g' (pcs(t := pc'))"
proof -
  note I = hinvD [OF inv] and Q = quietD [OF quiet]
  have some: "mg_pool (ho_mgr g) \<noteq> None" using Q(1) by (simp add: opened_def)
  with I(4) obtain l where "served l (ho_mgr g) (pool_pcs pcs)" by (auto simp: pool_ok_def)
  from hsect_served [OF laws inv some this sect] have "mg_pool (ho_mgr g') \<noteq> None" by (auto simp: served_def)
  moreover note hsect_down [OF I(2) sect refl Q(1)] no_start [OF sect Q(2)]
  ultimately show ?thesis using Q unfolding quiet_def opened_def zones_upd by auto
qed

lemma quiet_calm:
  assumes quiet: "quiet g pcs" and sect: "hsect sys grp ensureCache (pcs t) g pc' g'"
  shows "calm (ho_mgr g) (ho_mgr g')"
  using sect
proof cases
  case (h_acquire m)
  with acq_calm [OF h_acquire(2)] quietD(3) [OF quiet] show ?thesis by simp
next
  case (h_initialize m)
  have "zone (pcs t) \<noteq> Early" "zone (pcs t) \<noteq> Stored" using quietD(1) [OF quiet] by (auto simp: opened_def)
  with h_initialize(2) show ?thesis by cases (auto intro: calm_core simp: h_initialize(1))
qed (auto intro: rel_calm back_calm shut_calm calm_core)

subsection \<open>A sweep\<close>

text \<open>What a goroutine inside \<^verbatim>\<open>Shutdown\<close> has achieved; one that is past it leaves the manager clean.\<close>

fun swept :: "'w mgr \<Rightarrow> hpc \<Rightarrow> bool" where
  "swept m SStored = True" | "swept m (SSeen z) = True" | "swept m SWait = True" | "swept m SGo = True"
| "swept m SClosing = closed m" | "swept m SClosed = closed m"
| "swept m (SStop all todo es) = (closed m \<and> running m \<subseteq> set todo)"
| "swept m _ = clean m"

lemma clean_swept: "clean m \<Longrightarrow> swept m pc"
  by (cases pc) (auto simp: clean_def)

lemma clean_calm: "clean m \<Longrightarrow> calm m m' \<Longrightarrow> clean m'"
  by (auto simp: clean_def calm_def)

lemma swept_calm: "swept m pc \<Longrightarrow> calm m m' \<Longrightarrow> swept m' pc"
  by (cases pc) (auto simp: calm_def intro: clean_calm)

lemma acct_running: "acct R m \<Longrightarrow> running m \<subseteq> R"
  by (auto simp: acct_def running_def)

lemma set_remove1_keep: "set xs - {x} \<subseteq> set (remove1 x xs)"
  by (induction xs) auto

lemma swept_shut:
  assumes ctx: "ctx_law sys" and inv: "hinv g pcs" and op: "mg_pool (ho_mgr g) \<noteq> None" and swept: "swept (ho_mgr g) (pcs t)"
    and sect: "shut_sect sys (pcs t) (ho_mgr g) pc' m"
  shows "swept m pc'"
proof -
  note I = hinvD [OF inv] and calm = shut_calm [OF sect]
  have clean: "swept m pc'" if "clean (ho_mgr g)" using clean_swept clean_calm [OF that calm] by blast
  from sect show ?thesis
  proof cases
    case (shut_pool p)
    then show ?thesis by (simp add: closed_def closeLocked_def)
  next
    case (shut_chan p)
    with swept show ?thesis by (auto simp: closed_def closeChan_def)
  next
    case (shut_list p)
    from I(4) shut_list(4) have "acct (set (po_all p)) (ho_mgr g)" by (auto simp: pool_ok_def served_def)
    from acct_running [OF this] shut_list swept show ?thesis by (simp add: Instances_def)
  next
    case (shut_stop a todo c w e m1 all es)
    have cfg: "0 < mc_InstanceStopTimeout (mg_cfg (ho_mgr g))"
      using life_invD(1) [OF I(2)] by (simp add: mc_Validate_None_iff)
    with ctx shut_stop(5) have live: "os_ctx_err sys c w = None" unfolding ctx_law_def by blast
    have "a < co_next (ho_mgr g)" using I(6) shut_stop(1,4) unfolding todo_inv_def by blast
    then have "inst_inv (co_heap (ho_mgr g) a)" using pool_ok_acct [OF I(4)] by (simp add: acct_def)
    with stop_running [OF _ _ shut_stop(6)] live have a: "a \<notin> running m" by (simp add: shut_stop(3))
    have "closed m" "running m \<subseteq> set todo" using calm swept by (auto simp: shut_stop(1) calm_def)
    with a set_remove1_keep [of todo a] shut_stop(2) show ?thesis by auto
  next
    case (shut_join all es)
    with swept show ?thesis by (simp add: clean_def)
  qed (use op swept clean in simp_all)
qed

lemma not_shutting:
  "acq_sect sys grp pc m pc' m' \<Longrightarrow> swept k pc = clean k" "rel_sect sys pc m pc' m' \<Longrightarrow> swept k pc = clean k"
  "back_sect sys pc m pc' m' \<Longrightarrow> swept k pc = clean k" "init_sect sys ensureCache pc m pc' m' \<Longrightarrow> swept k pc = clean k"
  by (auto elim: acq_sect.cases rel_sect.cases back_sect.cases init_sect.cases)

lemma swept_own:
  assumes ctx: "ctx_law sys" and inv: "hinv g pcs" and quiet: "quiet g pcs" and swept: "swept (ho_mgr g) (pcs t)"
    and sect: "hsect sys grp ensureCache (pcs t) g pc' g'"
  shows "swept (ho_mgr g') pc'"
proof -
  note calm = quiet_calm [OF quiet sect]
  have clean: "swept (ho_mgr g') pc'" if "swept (ho_mgr g) (pcs t) = clean (ho_mgr g)"
    using that swept clean_swept clean_calm [OF _ calm] by blast
  from sect show ?thesis
  proof cases
    case (h_shutdown m)
    have "mg_pool (ho_mgr g) \<noteq> None" using quietD(1) [OF quiet] by (simp add: opened_def)
    from swept_shut [OF ctx inv this swept h_shutdown(2)] h_shutdown(1) show ?thesis by simp
  qed (use clean in \<open>auto dest: not_shutting\<close>)
qed

lemma swept_step:
  assumes ctx: "ctx_law sys" and inv: "hinv g pcs" and quiet: "quiet g pcs" and swept: "swept (ho_mgr g) (pcs t)"
    and sect: "hsect sys grp ensureCache (pcs u) g pc' g'"
  shows "swept (ho_mgr g') ((pcs(u := pc')) t)"
proof (cases "u = t")
  case True
  with swept_own [OF ctx inv quiet swept] sect show ?thesis by simp
next
  case False
  with swept_calm [OF swept quiet_calm [OF quiet sect]] show ?thesis by simp
qed

text \<open>Along any run from a quiet state.\<close>

definition sweep_inv ::
  "'w os \<Rightarrow> (kine_process, api_process, 'w) errgroup \<Rightarrow> 'w ensure_cache \<Rightarrow> nat \<Rightarrow> 'w host \<Rightarrow> (nat \<Rightarrow> hpc) \<Rightarrow> bool" where
  "sweep_inv sys grp ensureCache t g pcs \<longleftrightarrow> group_law grp \<and> net_law sys \<and> cache_law ensureCache \<and> ctx_law sys \<and>
     hinv g pcs \<and> quiet g pcs \<and> swept (ho_mgr g) (pcs t)"

lemma sweep_quiet: "sweep_inv sys grp ensureCache t g pcs \<Longrightarrow> quiet g pcs"
  by (simp add: sweep_inv_def)

interpretation sw: host_invariant sys grp ensureCache "sweep_inv sys grp ensureCache t" for sys grp ensureCache t
  by unfold_locales (auto simp del: fun_upd_apply simp: sweep_inv_def intro: hinv_step quiet_step swept_step)

interpretation cl: host_invariant sys grp ensureCache
  "\<lambda>g pcs. sweep_inv sys grp ensureCache t g pcs \<and> clean (ho_mgr g)" for sys grp ensureCache t
  by unfold_locales (blast intro: sw.inv_sect clean_calm quiet_calm sweep_quiet)

lemma clean_ports:
  assumes "acct R m" and "running m = {}"
  shows "ports (co_reg m) = {}"
proof -
  have "owned (co_heap m a) = {}" if "a < co_next m" for a
    using assms that owned_started [of "co_heap m a"] by (auto simp: acct_def running_def)
  with assms(1) show ?thesis by (simp add: acct_def accounts_on_def)
qed

text \<open>A \<^verbatim>\<open>Shutdown\<close> that runs alone from the store of the state, while the others stay where they are.\<close>

lemma shutdown_alone:
  assumes reach: "hreach sys grp ensureCache cfg (g, pcs)" and t: "pcs t = HIdle"
  obtains g1 g' where "g1 = g\<lparr>ho_mgr := (ho_mgr g)\<lparr>mg_state := managerShuttingDown\<rparr>\<rparr>"
    "hreach sys grp ensureCache cfg (g1, pcs(t := SStored))" "hrun sys grp ensureCache (g1, pcs(t := SStored)) (g', pcs(t := HIdle))"
proof -
  let ?g = "g\<lparr>ho_mgr := (ho_mgr g)\<lparr>mg_state := managerShuttingDown\<rparr>\<rparr>"
  have "hreach sys grp ensureCache cfg (?g, pcs(t := SStored))"
    by (rule hreach_sect [OF reach t h_shutdown [OF shut_store]])
  moreover obtain e m' where fin: "finishShutdown sys id (beginShutdown (ho_mgr g)) = (e, m')" by fastforce
  have "hrun sys grp ensureCache (?g, pcs(t := SStored)) (g\<lparr>ho_mgr := m'\<rparr>, (pcs(t := SStored))(t := HIdle))"
    by (rule solo_run) (use afterStore_solo [OF fin, where g = g] in \<open>simp add: solo_def\<close>)
  then have "hrun sys grp ensureCache (?g, pcs(t := SStored)) (g\<lparr>ho_mgr := m'\<rparr>, pcs(t := HIdle))" by simp
  ultimately show ?thesis using that by blast
qed

subsection \<open>Properties\<close>



end
