(* ===== verification/Tenure.thy ===== *)
theory Tenure
  imports Quiet
begin

text \<open>
  What a client has of its lease: as long as the pool is open, the instance it was granted runs, from
  the moment \<^verbatim>\<open>Acquire\<close> returns it until \<^verbatim>\<open>Release\<close> hands it back, whatever the others do.
\<close>

subsection \<open>Leases in service\<close>

fun serves :: "hpc \<Rightarrow> nat option" where
  "serves (ADone d a t) = Some a"
| "serves (Held a t) = Some a"
| "serves (RPurge a t) = Some a"
| "serves (RRead a t) = Some a"
| "serves (RRun h a t) = Some a"
| "serves (REnter a t) = Some a"
| "serves (RIn a t) = Some a"
| "serves (RLoad a t) = Some a"
| "serves _ = None"

definition tenure_inv :: "'w mgr \<Rightarrow> (nat \<Rightarrow> hpc) \<Rightarrow> bool" where
  "tenure_inv m pcs \<longleftrightarrow> (\<forall>t. closing (pcs t) \<or> stopping (pcs t) \<longrightarrow> closed m) \<and>
     (\<not> closed m \<longrightarrow> (\<forall>t a. serves (pcs t) = Some a \<longrightarrow> in_started (co_heap m a)))"

lemma serves_own: "serves pc = Some a \<Longrightarrow> own (pool_pc pc) = Some a"
  by (cases pc) simp_all

lemma serves_after [simp]:
  "serves (after_acquire d pc) = None" "serves (ended k) = None" "serves (after_failed k pc) = None" "serves (after_release pc) = None"
  by (cases pc; cases k; simp)+

subsection \<open>Nobody else touches the instance\<close>

lemma stopBestEffort_other: "b \<noteq> a \<Longrightarrow> co_heap (stopInstanceBestEffort sys a s) b = co_heap s b"
  by (simp add: stopInstanceBestEffort_def inst_call_def set_inst_def Let_def split: prod.splits)

lemma inst_call_other: "inst_call a f s = (e, s') \<Longrightarrow> b \<noteq> a \<Longrightarrow> co_heap s' b = co_heap s b"
  by (auto simp: inst_call_def set_inst_def split: prod.splits)

lemma sect_other:
  assumes fac: "instance_factory factory" and sect: "sect sys factory pc s pc' s'" and b: "b < co_next s" "own pc \<noteq> Some b"
  shows "co_heap s' b = co_heap s b"
  using sect
proof cases
  case (make idx a)
  from instance_factory.factory_new [OF fac make(3)] b(1) show ?thesis by auto
next
  case (make_fail idx e)
  from instance_factory.factory_fail [OF fac make_fail(3)] show ?thesis by simp
next
  case (make_panic idx m)
  from instance_factory.factory_panic [OF fac make_panic(3)] show ?thesis by simp
qed (use b(2) in \<open>auto simp: set_inst_def stopBestEffort_other\<close>)

lemma pool_sect_other:
  assumes "pool_sect sys pc m pc' m'" and "b < co_next m" and "own pc \<noteq> Some b"
  shows "co_heap m' b = co_heap m b"
proof -
  from assms(1) obtain p s where s: "sect sys (manager_factory sys m) pc (pool_view m p) pc' s" and m': "m' = from_view m s" by cases
  note fac = manager_factory_instance
  from sect_other [OF fac s] assms(2,3) show ?thesis by (simp add: m' from_view_def)
qed

lemma hsect_other:
  assumes sect: "hsect sys grp ensureCache pc g pc' g'" and early: "zone pc = Early \<Longrightarrow> mg_pool (ho_mgr g) = None"
    and b: "b < co_next (ho_mgr g)" "own (pool_pc pc) \<noteq> Some b" "\<not> stopping pc"
  shows "co_heap (ho_mgr g') b = co_heap (ho_mgr g) b"
  using sect
proof cases
  case (h_acquire m)
  from h_acquire(2) b show ?thesis
    by cases (auto simp: h_acquire(1) set_inst_def inst_call_other pool_sect_other)
next
  case (h_release m)
  from h_release(2) b show ?thesis
    by cases (auto simp: h_release(1) set_inst_def decInflight_def pool_sect_other)
next
  case (h_back m)
  from h_back(2) b show ?thesis
    by cases (auto simp: h_back(1) set_inst_def inst_call_other pool_sect_other)
next
  case (h_shutdown m)
  from h_shutdown(2) b show ?thesis by cases (auto simp: h_shutdown(1))
next
  case (h_initialize m)
  from h_initialize(2) early show ?thesis
    by cases (auto simp: h_initialize(1) doInitialize_def split: prod.splits option.splits if_splits sum.splits outcome.splits)
qed simp_all

lemma hsect_closed:
  assumes sect: "hsect sys grp ensureCache pc g pc' g'" and early: "zone pc = Early \<Longrightarrow> mg_pool (ho_mgr g) = None"
    and "closed (ho_mgr g)"
  shows "closed (ho_mgr g')"
  using sect
proof cases
  case (h_acquire m)
  show ?thesis
  proof (cases "\<exists>d a t. pc = AStart d a t")
    case True
    with h_acquire(2) have "mg_pool m = mg_pool (ho_mgr g)" by cases (auto simp: set_inst_def dest: inst_call_frame)
    with assms(3) h_acquire(1) show ?thesis by (simp add: closed_def)
  next
    case False
    with acq_calm [OF h_acquire(2)] assms(3) h_acquire(1) show ?thesis by (simp add: calm_def)
  qed
next
  case (h_initialize m)
  from h_initialize(2) early assms(3) show ?thesis by cases (auto simp: h_initialize(1) closed_def)
qed (use assms(3) in \<open>auto simp: calm_def dest: rel_calm back_calm shut_calm\<close>)

subsection \<open>Every section keeps the lease running\<close>

lemma serves_acquire:
  assumes laws: "group_law grp" "net_law sys" and inv: "inst_inv (co_heap m a)" and sect: "acq_sect sys grp pc m pc' m'"
    and serves: "serves pc' = Some a"
  shows "in_started (co_heap m' a) \<or> serves pc = Some a \<and> co_heap m' a = co_heap m a"
  using sect
proof cases
  case (start_ok b d k)
  with serves obtain i r w where st: "inst_Start sys grp (co_heap m a) d (co_reg m) (co_world m) = (None, i, r, w)" "in_started (co_heap m' a) = in_started i"
    by (auto simp: inst_call_def set_inst_def split: prod.splits)
  with inst_Start_inv [OF laws inv st(1)] show ?thesis by simp
qed (use serves in \<open>auto simp: IsStarted_def\<close>)

lemma serves_release:
  "rel_sect sys pc m pc' m' \<Longrightarrow> serves pc' = Some a \<Longrightarrow> serves pc = Some a \<and> co_heap m' a = co_heap m a"
  by (cases rule: rel_sect.cases) auto

lemma serves_rest:
  "back_sect sys pc m pc' m' \<Longrightarrow> serves pc' = None" "shut_sect sys pc m pc' m' \<Longrightarrow> serves pc' = None"
  "init_sect sys ensureCache pc m pc' m' \<Longrightarrow> serves pc' = None"
  by (auto elim: back_sect.cases shut_sect.cases init_sect.cases)

lemma serves_step:
  assumes laws: "group_law grp" "net_law sys" and sect: "hsect sys grp ensureCache pc g pc' g'"
    and inv: "inst_inv (co_heap (ho_mgr g) a)" and serves: "serves pc' = Some a"
  shows "in_started (co_heap (ho_mgr g') a) \<or> serves pc = Some a \<and> co_heap (ho_mgr g') a = co_heap (ho_mgr g) a"
  using sect
proof cases
  case (h_acquire m)
  with serves_acquire [OF laws inv h_acquire(2) serves] show ?thesis by simp
next
  case (h_release m)
  with serves_release [OF h_release(2) serves] show ?thesis by simp
qed (use serves in \<open>auto dest: serves_rest\<close>)

lemma serves_from:
  assumes sect: "hsect sys grp ensureCache pc g pc' g'" and serves: "serves pc' = Some a"
  shows "own (pool_pc pc) = Some a"
  using sect
proof cases
  case (h_acquire m)
  from h_acquire(2) serves show ?thesis by cases auto
next
  case (h_release m)
  with serves_release [OF h_release(2) serves] show ?thesis by (simp add: serves_own)
qed (use serves in \<open>auto dest: serves_rest\<close>)

lemma own_unique:
  assumes "pool_ok m pcs" and "own (pool_pc (pcs t)) = Some a"
  shows "mg_pool m \<noteq> None \<Longrightarrow> a < co_next m \<and> inst_inv (co_heap m a)"
    and "mg_pool m \<noteq> None \<Longrightarrow> own (pool_pc (pcs u)) = Some a \<Longrightarrow> t = u"
proof -
  assume some: "mg_pool m \<noteq> None"
  with assms(1) obtain l where sv: "served l m (pool_pcs pcs)" by (auto simp: pool_ok_def)
  from served_own [OF sv assms(2)] show "a < co_next m \<and> inst_inv (co_heap m a)" by simp
  from sv obtain p where "own_inv p (\<lambda>a. in_gen (co_heap m a)) (co_next m) (pool_pcs pcs)" by (auto simp: served_def conc_inv_def)
  from own_invD(5) [OF this] assms(2) show "own (pool_pc (pcs u)) = Some a \<Longrightarrow> t = u" by blast
qed

lemma closing_step:
  assumes sect: "hsect sys grp ensureCache pc g pc' g'" and "closing pc' \<or> stopping pc'"
  shows "closed (ho_mgr g') \<or> (closing pc \<or> stopping pc)"
  using sect
proof cases
  case (h_shutdown m)
  from h_shutdown(2) assms(2) show ?thesis by cases (auto simp: h_shutdown(1) closed_def closeLocked_def)
qed (use assms(2) in \<open>auto dest: client_pcs not_stopping\<close>)

lemma tenure_step:
  assumes laws: "group_law grp" "net_law sys" and inv: "hinv g pcs" and tenure: "tenure_inv (ho_mgr g) pcs"
    and sect: "hsect sys grp ensureCache (pcs t) g pc' g'"
  shows "tenure_inv (ho_mgr g') (pcs(t := pc'))"
proof -
  let ?m = "ho_mgr g" and ?m' = "ho_mgr g'" and ?pcs = "pcs(t := pc')"
  note I = hinvD [OF inv]
  have early: "zone (pcs t) = Early \<Longrightarrow> mg_pool ?m = None" by (rule life_invD(2) [OF I(2)])
  note keep = hsect_closed [OF sect early]
  have some: "mg_pool ?m \<noteq> None" if "own (pool_pc (pcs u)) = Some a" for u a
  proof -
    have "zone (pcs u) = Working" using pool_pc_outside [of "pcs u"] that by fastforce
    then show ?thesis using life_invD(4) [OF I(2), of u] by (simp add: opened_def)
  qed
  have cl: "closed ?m" if "closing (pcs u) \<or> stopping (pcs u)" for u using tenure that by (auto simp: tenure_inv_def)
  have "closed ?m'" if "closing (?pcs u) \<or> stopping (?pcs u)" for u
    using that closing_step [OF sect] cl keep by (cases "u = t") auto
  moreover have "in_started (co_heap ?m' a)" if open': "\<not> closed ?m'" and u: "serves (?pcs u) = Some a" for u a
  proof -
    have "\<not> closed ?m" using keep open' by blast
    then have old: "serves (pcs v) = Some b \<Longrightarrow> in_started (co_heap ?m b)" for v b using tenure by (auto simp: tenure_inv_def)
    show ?thesis
    proof (cases "u = t")
      case True
      then have pc': "serves pc' = Some a" using u by simp
      have a: "own (pool_pc (pcs t)) = Some a" by (rule serves_from [OF sect pc'])
      then have "inst_inv (co_heap ?m a)" using own_unique(1) [OF I(4) a some [OF a]] by simp
      from serves_step [OF laws(1,2) sect this pc'] old show ?thesis by auto
    next
      case False
      then have a: "own (pool_pc (pcs u)) = Some a" and s: "in_started (co_heap ?m a)" using serves_own u old by auto
      have "co_heap ?m' a = co_heap ?m a"
        by (rule hsect_other [OF sect early]) (use own_unique [OF I(4) a some [OF a]] False cl [of t] \<open>\<not> closed ?m\<close> in auto)
      with s show ?thesis by simp
    qed
  qed
  ultimately show ?thesis unfolding tenure_inv_def by blast
qed

lemma tenure_new: "NewManagerWithConfig cfg w = Ret m \<Longrightarrow> tenure_inv m (\<lambda>_. HIdle)"
  by (simp add: tenure_inv_def)

interpretation te: host_invariant_new sys grp ensureCache
  "\<lambda>g pcs. group_law grp \<and> net_law sys \<and> cache_law ensureCache \<longrightarrow> hinv g pcs \<and> tenure_inv (ho_mgr g) pcs" for sys grp ensureCache
  by unfold_locales (auto intro: hinv_step hinv_new tenure_step simp: tenure_new)

lemma hreach_tenure:
  assumes "group_law grp" and "net_law sys" and "cache_law ensureCache" and "hreach sys grp ensureCache cfg (g, pcs)"
  shows "tenure_inv (ho_mgr g) pcs"
  using te.inv_reach [OF assms(4)] assms(1-3) by simp

subsection \<open>A release that meets a shutdown\<close>

text \<open>\<^verbatim>\<open>releasePurge\<close> reads \<^verbatim>\<open>started\<close> and then \<^verbatim>\<open>purge\<close> without the mutex of the instance: when a shutdown stops the
  instance in between, the client's only \<^verbatim>\<open>Release\<close> reports a programming error.\<close>

lemma about_to_purge:
  assumes laws: "group_law grp" "net_law sys" "cache_law ensureCache" and reach: "hreach sys grp ensureCache cfg (g, pcs)"
    and op: "\<not> closed (ho_mgr g)" and u: "pcs u = Held a k"
  shows "hreach sys grp ensureCache cfg (g, (pcs(u := RPurge a k))(u := RRead a k))"
proof -
  note I = hinvD [OF hreach_inv [OF laws reach]]
  have serves: "serves (pcs u) = Some a" using u by simp
  then have started: "in_started (co_heap (ho_mgr g) a)" using hreach_tenure [OF laws reach] op unfolding tenure_inv_def by blast
  have "opened (ho_mgr g) (zones pcs)" using life_invD(4) [OF I(2), of u] u by simp
  with I(4) obtain l where sv: "served l (ho_mgr g) (pool_pcs pcs)" by (auto simp: pool_ok_def opened_def)
  have cur: "in_hasReleaser (co_heap (ho_mgr g) a)" "isCurrentToken (co_heap (ho_mgr g) a) k" using served_holds [OF sv, of u a k] u by simp_all
  have "hsect sys grp ensureCache (Held a k) g (RPurge a k) g" using h_release [OF rel_current [OF cur], of sys grp ensureCache] by simp
  from hreach_sect [OF reach u this] have one: "hreach sys grp ensureCache cfg (g, pcs(u := RPurge a k))" .
  have "hsect sys grp ensureCache (RPurge a k) g (RRead a k) g" using h_release [OF purge_warm [OF started], of sys grp ensureCache k] by simp
  from hreach_sect [OF one _ this, of u] show ?thesis by simp
qed

lemma release_meets_shutdown:
  "\<exists>g pcs u a k e. hreach counting_net seq_group keep_cache sample_cfg (g, pcs) \<and> pcs u = RRead a k \<and>
     rel_sect counting_net (pcs u) (ho_mgr g) (AFail None a k) (set_inst a (setErr (co_heap (ho_mgr g) a) e) (ho_mgr g)) \<and>
     e = Wrapf ''%s: %w'' [ArgStr ''purge handle not initialized''] (errors_New ''nil purge handle (programming error)'')"
proof -
  note laws = seq_group_law counting_net_law keep_cache_law
  obtain g pcs u a k L where held: "hreach counting_net seq_group keep_cache sample_cfg (g, pcs)" "clients L pcs" "pcs u = Held a k"
    "\<not> closed (ho_mgr g)" using sample_held unfolding closed_def by fastforce
  obtain t where t: "pcs t = HIdle" using clients_idle [OF held(2)] by blast
  let ?pcs = "(pcs(u := RPurge a k))(u := RRead a k)"
  have ne: "u \<noteq> t" using t held(3) by auto
  obtain g1 g' where g1: "g1 = g\<lparr>ho_mgr := (ho_mgr g)\<lparr>mg_state := managerShuttingDown\<rparr>\<rparr>"
    "hreach counting_net seq_group keep_cache sample_cfg (g1, ?pcs(t := SStored))"
    "hrun counting_net seq_group keep_cache (g1, ?pcs(t := SStored)) (g', ?pcs(t := HIdle))"
    by (rule shutdown_alone [OF about_to_purge [OF laws held(1,4,3)], of t]) (use t ne in simp)
  have "hinv g1 (?pcs(t := SStored))" by (rule hreach_inv [OF laws g1(2)])
  then have "opened (ho_mgr g1) (zones (?pcs(t := SStored)))" using life_invD(4) [OF hinvD(2), of g1 "?pcs(t := SStored)" u] ne by simp
  moreover have "(?pcs(t := SStored)) v \<noteq> AStart d b j" for v d b j using clientsD(2) [OF held(2), of v] by auto
  ultimately have "quiet g1 (?pcs(t := SStored))" unfolding quiet_def by (simp add: g1(1))
  with hreach_inv [OF laws g1(2)] laws counting_net_ctx have "sweep_inv counting_net seq_group keep_cache t g1 (?pcs(t := SStored))"
    by (simp add: sweep_inv_def)
  then have "sweep_inv counting_net seq_group keep_cache t g' (?pcs(t := HIdle))" using sw.inv_run [OF g1(3), of t] unfolding fst_conv snd_conv by blast
  then have clean: "clean (ho_mgr g')" by (simp add: sweep_inv_def)
  have reach: "hreach counting_net seq_group keep_cache sample_cfg (g', ?pcs(t := HIdle))" by (rule hreach_run [OF g1(3,2)])
  have u: "(?pcs(t := HIdle)) u = RRead a k" using ne by simp
  have a: "a < co_next (ho_mgr g')" "inst_inv (co_heap (ho_mgr g') a)"
    using own_unique(1) [OF hinvD(4) [OF hreach_inv [OF laws reach]], of u a] clean ne by (auto simp: clean_def closed_def)
  with clean have "in_purge (co_heap (ho_mgr g') a) = None" by (auto simp: clean_def running_def inst_inv_def)
  from purge_nil [OF this, of counting_net k] reach u show ?thesis by (metis (no_types, lifting))
qed

subsection \<open>Properties\<close>

text \<open>C7. A lease is worth something: in every interleaving, while the pool is open, the instance that a
  goroutine was granted is started, with its processes up and its purge handle, from the return of
  \<^verbatim>\<open>Acquire\<close> until its \<^verbatim>\<open>Release\<close> consumes the token. So a \<^verbatim>\<open>Release\<close> before any shutdown never finds the handle missing.\<close>

theorem lease_runs:
  assumes "group_law grp" and "net_law sys" and "cache_law ensureCache" and "hreach sys grp ensureCache cfg (g, pcs)"
    and "\<not> closed (ho_mgr g)" and "serves (pcs t) = Some a"
  shows "in_started (co_heap (ho_mgr g) a) \<and> (\<exists>s. in_stack (co_heap (ho_mgr g) a) = Some s \<and> stack_up s) \<and>
    in_purge (co_heap (ho_mgr g) a) \<noteq> None"
proof -
  note I = hinvD [OF hreach_inv [OF assms(1-4)]] and own = serves_own [OF assms(6)]
  have started: "in_started (co_heap (ho_mgr g) a)" using hreach_tenure [OF assms(1-4)] assms(5,6) by (auto simp: tenure_inv_def)
  have "zone (pcs t) = Working" using pool_pc_outside [of "pcs t"] own by fastforce
  then have "mg_pool (ho_mgr g) \<noteq> None" using life_invD(4) [OF I(2), of t] by (simp add: opened_def)
  from own_unique(1) [OF I(4) own this] started show ?thesis by (simp add: inst_inv_def)
qed

text \<open>The sample client, with its lease.\<close>

theorem lease_runs_witness:
  "\<exists>g pcs u a k. hreach counting_net seq_group keep_cache sample_cfg (g, pcs) \<and> \<not> closed (ho_mgr g) \<and> pcs u = Held a k \<and>
     in_started (co_heap (ho_mgr g) a) \<and> in_purge (co_heap (ho_mgr g) a) \<noteq> None"
proof -
  obtain g pcs u a k where held: "hreach counting_net seq_group keep_cache sample_cfg (g, pcs)" "pcs u = Held a k" "\<not> closed (ho_mgr g)"
    using sample_held unfolding closed_def by fastforce
  have "serves (pcs u) = Some a" using held(2) by simp
  from lease_runs [OF seq_group_law counting_net_law keep_cache_law held(1,3) this] held show ?thesis by blast
qed

end
