(* ===== verification/Logger.thy ===== *)
theory Logger
  imports Prelude
begin

text \<open>
  The package logger: \<^verbatim>\<open>internal/core/log.go\<close> and the \<^verbatim>\<open>SetLogger\<close> of \<^verbatim>\<open>log.go\<close>. Two atomic cells hold the logger a
  caller has set and a cached default. Here are the two functions run one at a time, their sections,
  one for each atomic operation, and the interleavings of any number of calls.
\<close>

subsection \<open>Loggers and cells\<close>

text \<open>A \<^verbatim>\<open>*slog.Logger\<close>: its address, its handler and its attributes. \<^verbatim>\<open>With\<close> makes a new one.\<close>

record slogger =
  sl_addr :: nat
  sl_handler :: nat
  sl_attrs :: "(string \<times> string) list"

record log_state =
  lg_logger :: "slogger option"
  lg_defaultLogger :: "slogger option"
  lg_slogDefault :: slogger
  lg_next :: nat

definition newDefaultLogger :: "log_state \<Rightarrow> slogger \<times> log_state" where
  "newDefaultLogger s =
     ((lg_slogDefault s)\<lparr>sl_addr := lg_next s, sl_attrs := sl_attrs (lg_slogDefault s) @ [(''component'', ''k8senv'')]\<rparr>,
      s\<lparr>lg_next := Suc (lg_next s)\<rparr>)"

definition compareAndSwapNil :: "slogger \<Rightarrow> log_state \<Rightarrow> bool \<times> log_state" where
  "compareAndSwapNil l s =
     (if lg_defaultLogger s = None then (True, s\<lparr>lg_defaultLogger := Some l\<rparr>) else (False, s))"

definition core_Logger :: "log_state \<Rightarrow> slogger \<times> log_state" where
  "core_Logger s =
     (case lg_logger s of
        Some l \<Rightarrow> (l, s)
      | None \<Rightarrow>
          (case lg_defaultLogger s of
             Some l \<Rightarrow> (l, s)
           | None \<Rightarrow>
               (case newDefaultLogger s of (l, s1) \<Rightarrow>
                  (case compareAndSwapNil l s1 of
                     (True, s2) \<Rightarrow> (l, s2)
                   | (False, s2) \<Rightarrow> (case lg_defaultLogger s2 of Some l2 \<Rightarrow> (l2, s2) | None \<Rightarrow> (l, s2))))))"

definition core_SetLogger :: "slogger option \<Rightarrow> log_state \<Rightarrow> log_state" where
  "core_SetLogger l s = (s\<lparr>lg_logger := l\<rparr>)\<lparr>lg_defaultLogger := None\<rparr>"

definition SetLogger :: "slogger option \<Rightarrow> log_state \<Rightarrow> log_state" where
  "SetLogger l s = core_SetLogger l s"

subsection \<open>Sections\<close>

text \<open>Between two atomic operations; \<open>LGot\<close> is a call of \<^verbatim>\<open>Logger\<close> that returns, \<open>LClear\<close> the window of \<^verbatim>\<open>SetLogger\<close>.\<close>

datatype lpc = LIdle | LDefault | LMake | LCas slogger | LReload slogger | LGot slogger | LClear

inductive log_sect :: "lpc \<Rightarrow> log_state \<Rightarrow> lpc \<Rightarrow> log_state \<Rightarrow> bool" where
  load_custom: "lg_logger s = Some l \<Longrightarrow> log_sect LIdle s (LGot l) s"
| load_nil: "lg_logger s = None \<Longrightarrow> log_sect LIdle s LDefault s"
| cached: "lg_defaultLogger s = Some l \<Longrightarrow> log_sect LDefault s (LGot l) s"
| uncached: "lg_defaultLogger s = None \<Longrightarrow> log_sect LDefault s LMake s"
| make: "newDefaultLogger s = (l, s') \<Longrightarrow> log_sect LMake s (LCas l) s'"
| cas_won: "compareAndSwapNil l s = (True, s') \<Longrightarrow> log_sect (LCas l) s (LGot l) s'"
| cas_lost: "compareAndSwapNil l s = (False, s') \<Longrightarrow> log_sect (LCas l) s (LReload l) s'"
| reload: "lg_defaultLogger s = Some l2 \<Longrightarrow> log_sect (LReload l) s (LGot l2) s"
| reload_nil: "lg_defaultLogger s = None \<Longrightarrow> log_sect (LReload l) s (LGot l) s"
| got: "log_sect (LGot l) s LIdle s"

text \<open>\<^verbatim>\<open>SetLogger\<close>, with the logger it stores, and \<^verbatim>\<open>slog.SetDefault\<close>.\<close>

inductive set_sect :: "slogger option \<Rightarrow> lpc \<Rightarrow> log_state \<Rightarrow> lpc \<Rightarrow> log_state \<Rightarrow> bool" where
  store: "set_sect l LIdle s LClear (s\<lparr>lg_logger := l\<rparr>)"
| clear: "set_sect l LClear s LIdle (s\<lparr>lg_defaultLogger := None\<rparr>)"
| slog_SetDefault: "set_sect l LIdle s LIdle (s\<lparr>lg_slogDefault := d\<rparr>)"

text \<open>The states that the goroutines reach from empty cells; \<open>G\<close> has the loggers that were given to
  \<^verbatim>\<open>SetLogger\<close>.\<close>

inductive log_reach :: "slogger option set \<Rightarrow> log_state \<Rightarrow> (nat \<Rightarrow> lpc) \<Rightarrow> bool" where
  log_start: "lg_logger s = None \<Longrightarrow> lg_defaultLogger s = None \<Longrightarrow> log_reach {} s (\<lambda>_. LIdle)"
| log_call: "log_reach G s pcs \<Longrightarrow> log_sect (pcs t) s pc' s' \<Longrightarrow> log_reach G s' (pcs(t := pc'))"
| log_set: "log_reach G s pcs \<Longrightarrow> set_sect l (pcs t) s pc' s' \<Longrightarrow>
    log_reach (if pc' = LClear then insert l G else G) s' (pcs(t := pc'))"

subsection \<open>One call at a time\<close>

lemma Logger_solo:
  assumes "core_Logger s = (l, s')"
  shows "(\<lambda>a b. log_sect (fst a) (snd a) (fst b) (snd b))\<^sup>*\<^sup>* (LIdle, s) (LGot l, s')" (is "?R\<^sup>*\<^sup>* _ _")
proof (cases "lg_logger s")
  case (Some k)
  with assms have "?R (LIdle, s) (LGot l, s')" by (simp add: core_Logger_def load_custom)
  then show ?thesis by blast
next
  case None
  then have first: "?R (LIdle, s) (LDefault, s)" by (simp add: load_nil)
  show ?thesis
  proof (cases "lg_defaultLogger s")
    case (Some k)
    with assms None have "?R (LDefault, s) (LGot l, s')" by (simp add: core_Logger_def cached)
    with first show ?thesis by (blast intro: converse_rtranclp_into_rtranclp)
  next
    case None': None
    obtain k s1 where new: "newDefaultLogger s = (k, s1)" by fastforce
    with None' have d: "lg_defaultLogger s1 = None" by (auto simp: newDefaultLogger_def)
    with assms None None' new have "l = k" "s' = s1\<lparr>lg_defaultLogger := Some k\<rparr>" by (auto simp: core_Logger_def compareAndSwapNil_def)
    then have "?R (LCas k, s1) (LGot l, s')" using d by (simp add: cas_won compareAndSwapNil_def)
    moreover have "?R (LMake, s) (LCas k, s1)" using new by (simp add: make)
    moreover have "?R (LDefault, s) (LMake, s)" using None' by (simp add: uncached)
    ultimately show ?thesis using first by (meson converse_rtranclp_into_rtranclp r_into_rtranclp)
  qed
qed

text \<open>The cached default stays until it is cleared; a set logger wins; a cleared one is made again.\<close>

lemma Logger_cached:
  assumes "core_Logger s = (l, s')"
  shows "core_Logger s' = (l, s')"
    and "core_Logger (SetLogger (Some k) s) = (k, SetLogger (Some k) s)"
    and "(''component'', ''k8senv'') \<in> set (sl_attrs (fst (core_Logger (SetLogger None s))))"
  using assms
  by (auto simp: core_Logger_def SetLogger_def core_SetLogger_def newDefaultLogger_def compareAndSwapNil_def
      split: option.splits prod.splits if_splits)

subsection \<open>Interleavings\<close>

text \<open>A default of this package: it has the component attribute.\<close>

definition component :: "slogger \<Rightarrow> bool" where
  "component l \<longleftrightarrow> (''component'', ''k8senv'') \<in> set (sl_attrs l)"

text \<open>What a goroutine has in its hands was set by a caller or is a default.\<close>

fun sound :: "slogger option set \<Rightarrow> lpc \<Rightarrow> bool" where
  "sound G (LCas l) \<longleftrightarrow> component l"
| "sound G (LReload l) \<longleftrightarrow> component l"
| "sound G (LGot l) \<longleftrightarrow> Some l \<in> G \<or> component l"
| "sound G _ \<longleftrightarrow> True"

definition cells :: "slogger option set \<Rightarrow> log_state \<Rightarrow> bool" where
  "cells G s \<longleftrightarrow> (\<forall>l. lg_logger s = Some l \<longrightarrow> Some l \<in> G) \<and> (\<forall>l. lg_defaultLogger s = Some l \<longrightarrow> component l)"

lemma call_sound: "log_sect pc s pc' s' \<Longrightarrow> sound G pc \<Longrightarrow> cells G s \<Longrightarrow> sound G pc' \<and> cells G s'"
  by (cases rule: log_sect.cases)
    (auto simp: cells_def component_def newDefaultLogger_def compareAndSwapNil_def split: if_splits)

lemma set_sound:
  "set_sect l pc s pc' s' \<Longrightarrow> cells G s \<Longrightarrow> sound G pc' \<and> cells (if pc' = LClear then insert l G else G) s'"
  by (cases rule: set_sect.cases) (auto simp: cells_def)

lemma sound_mono: "sound G pc \<Longrightarrow> G \<subseteq> H \<Longrightarrow> sound H pc"
  by (cases pc) auto

lemma log_reach_sound: "log_reach G s pcs \<Longrightarrow> cells G s \<and> (\<forall>t. sound G (pcs t))"
proof (induction rule: log_reach.induct)
  case (log_call G s pcs t pc' s')
  with call_sound [OF log_call(2), of G] show ?case by auto
next
  case (log_set G s pcs l t pc' s')
  from set_sound [OF log_set(2), of G] log_set(3) have
    "sound G pc'" "cells (if pc' = LClear then insert l G else G) s'" by auto
  with log_set(3) show ?case by (auto intro: sound_mono)
qed (simp add: cells_def)

text \<open>While nobody sets a logger, every answer is the cached default.\<close>

fun answered :: "log_state \<Rightarrow> lpc \<Rightarrow> bool" where
  "answered s (LGot l) \<longleftrightarrow> lg_defaultLogger s = Some l"
| "answered s (LReload l) \<longleftrightarrow> lg_defaultLogger s \<noteq> None"
| "answered s LClear \<longleftrightarrow> False"
| "answered s _ \<longleftrightarrow> True"

definition alone_inv :: "log_state \<Rightarrow> (nat \<Rightarrow> lpc) \<Rightarrow> bool" where
  "alone_inv s pcs \<longleftrightarrow> lg_logger s = None \<and> (\<forall>t. answered s (pcs t))"

lemma answered_mono: "answered s pc \<Longrightarrow> lg_defaultLogger s = None \<or> lg_defaultLogger s' = lg_defaultLogger s \<Longrightarrow> answered s' pc"
  by (cases pc) auto

lemma call_answered:
  assumes "log_sect pc s pc' s'" and "answered s pc" and "lg_logger s = None"
  shows "answered s' pc' \<and> lg_logger s' = None \<and> (lg_defaultLogger s = None \<or> lg_defaultLogger s' = lg_defaultLogger s)"
  using assms by cases (auto simp: newDefaultLogger_def compareAndSwapNil_def split: if_splits)

lemma log_reach_alone: "log_reach G s pcs \<Longrightarrow> G = {} \<Longrightarrow> alone_inv s pcs"
proof (induction rule: log_reach.induct)
  case (log_call G s pcs t pc' s')
  then have inv: "alone_inv s pcs" by blast
  from call_answered [OF log_call(2)] inv have "answered s' pc'" "lg_logger s' = None"
    "lg_defaultLogger s = None \<or> lg_defaultLogger s' = lg_defaultLogger s" by (auto simp: alone_inv_def)
  with inv answered_mono show ?case by (auto simp: alone_inv_def)
next
  case (log_set G s pcs l t pc' s')
  then have ne: "pc' \<noteq> LClear" and inv: "alone_inv s pcs" by (auto split: if_splits)
  have "answered s (pcs t)" using inv by (simp add: alone_inv_def)
  with log_set(2) inv ne show ?case by cases (auto simp: alone_inv_def intro: answered_mono)
qed (simp add: alone_inv_def)

subsection \<open>Properties\<close>

text \<open>C28. Any number of goroutines call \<^verbatim>\<open>Logger\<close> and \<^verbatim>\<open>SetLogger\<close> at once: a call of \<^verbatim>\<open>Logger\<close> answers with a logger that
  a caller has set or with a default that has the component attribute; and while nobody sets one, all
  calls answer with the same logger, whoever wins the race to make it.\<close>

theorem logger_answers:
  assumes "log_reach G s pcs" and "pcs t = LGot l"
  shows "(Some l \<in> G \<or> (''component'', ''k8senv'') \<in> set (sl_attrs l)) \<and> (G = {} \<longrightarrow> (\<forall>u k. pcs u = LGot k \<longrightarrow> k = l))"
proof -
  have "sound G (pcs t)" using log_reach_sound [OF assms(1)] by blast
  moreover have "k = l" if "G = {}" "pcs u = LGot k" for u k
  proof -
    have "answered s (pcs u)" "answered s (pcs t)" using log_reach_alone [OF assms(1) that(1)] by (simp_all add: alone_inv_def)
    with that(2) assms(2) show ?thesis by simp
  qed
  ultimately show ?thesis using assms(2) by (auto simp: component_def)
qed

text \<open>Two first calls race: the second loses the swap and answers with the logger of the first.\<close>

definition raced :: "nat \<Rightarrow> slogger" where
  "raced a = \<lparr>sl_addr = a, sl_handler = 0, sl_attrs = [(''component'', ''k8senv'')]\<rparr>"

definition race_cells :: "slogger option \<Rightarrow> nat \<Rightarrow> log_state" where
  "race_cells d n = \<lparr>lg_logger = None, lg_defaultLogger = d, lg_slogDefault = \<lparr>sl_addr = 9, sl_handler = 0, sl_attrs = []\<rparr>, lg_next = n\<rparr>"

lemma race_steps:
  "log_sect LIdle (race_cells d n) LDefault (race_cells d n)"
  "log_sect LDefault (race_cells None n) LMake (race_cells None n)"
  "log_sect LMake (race_cells d n) (LCas (raced n)) (race_cells d (Suc n))"
  "log_sect (LCas l) (race_cells None n) (LGot l) (race_cells (Some l) n)"
  "log_sect (LCas l) (race_cells (Some k) n) (LReload l) (race_cells (Some k) n)"
  "log_sect (LReload l) (race_cells (Some k) n) (LGot k) (race_cells (Some k) n)"
  by (rule log_sect.intros; simp add: race_cells_def raced_def newDefaultLogger_def compareAndSwapNil_def)+

lemma race_run:
  "\<exists>pcs. log_reach {} (race_cells (Some (raced 0)) 2) pcs \<and> pcs 0 = LGot (raced 0) \<and> pcs 1 = LGot (raced 0)"
proof -
  note go = log_call [where G = "{}"]
  have "log_reach {} (race_cells None 0) (\<lambda>_. LIdle)" by (rule log_start) (simp_all add: race_cells_def)
  then have "\<exists>pcs. log_reach {} (race_cells None 0) pcs \<and> pcs 0 = LMake \<and> pcs 1 = LIdle"
    using go [OF go [OF _ _, where t = 0], where t = 0] race_steps(1,2) by fastforce
  then have "\<exists>pcs. log_reach {} (race_cells None 0) pcs \<and> pcs 0 = LMake \<and> pcs 1 = LDefault"
    using go [where t = 1] race_steps(1) by fastforce
  then have "\<exists>pcs. log_reach {} (race_cells None 0) pcs \<and> pcs 0 = LMake \<and> pcs 1 = LMake"
    using go [where t = 1] race_steps(2) by fastforce
  then have "\<exists>pcs. log_reach {} (race_cells None 1) pcs \<and> pcs 0 = LCas (raced 0) \<and> pcs 1 = LMake"
    using go [where t = 0] race_steps(3) [of None 0] by fastforce
  then have "\<exists>pcs. log_reach {} (race_cells None 2) pcs \<and> pcs 0 = LCas (raced 0) \<and> pcs 1 = LCas (raced 1)"
    using go [where t = 1] race_steps(3) [of None 1] by (fastforce simp: numeral_2_eq_2)
  then have "\<exists>pcs. log_reach {} (race_cells (Some (raced 0)) 2) pcs \<and> pcs 0 = LGot (raced 0) \<and> pcs 1 = LCas (raced 1)"
    using go [where t = 0] race_steps(4) by fastforce
  then have "\<exists>pcs. log_reach {} (race_cells (Some (raced 0)) 2) pcs \<and> pcs 0 = LGot (raced 0) \<and> pcs 1 = LReload (raced 1)"
    using go [where t = 1] race_steps(5) by fastforce
  then show ?thesis using go [where t = 1] race_steps(6) by fastforce
qed

theorem logger_answers_witness:
  "\<exists>s pcs l. log_reach {} s pcs \<and> pcs 0 = LGot l \<and> (\<forall>u k. pcs u = LGot k \<longrightarrow> k = l) \<and> (''component'', ''k8senv'') \<in> set (sl_attrs l)"
proof -
  obtain pcs where run: "log_reach {} (race_cells (Some (raced 0)) 2) pcs" "pcs 0 = LGot (raced 0)" using race_run by blast
  from logger_answers [OF run] run show ?thesis by blast
qed

end
