(* ===== verification/Crdwalk.thy ===== *)
theory Crdwalk
  imports Paths World "HOL-Library.Char_ord" "HOL-Library.List_Lexorder"
begin

text \<open>
  \<^verbatim>\<open>internal/crdcache/walk.go\<close> and \<^verbatim>\<open>hash.go\<close>: the YAML files of a directory tree, in the order of
  \<^verbatim>\<open>filepath.WalkDir\<close>, and the hash of their names and contents that keys the cache.
\<close>

subsection \<open>The tree\<close>

text \<open>What \<^verbatim>\<open>Lstat\<close> and \<^verbatim>\<open>ReadDir\<close> find: a directory carries the error of its \<^verbatim>\<open>ReadDir\<close>, if any, and the
  entries it returned.\<close>

datatype dir_entry = FileEntry string | DirEntry string "go_error option" "dir_entry list"

primrec entry_name :: "dir_entry \<Rightarrow> string" where
  "entry_name (FileEntry n) = n"
| "entry_name (DirEntry n e ds) = n"

primrec entry_isDir :: "dir_entry \<Rightarrow> bool" where
  "entry_isDir (FileEntry n) = False"
| "entry_isDir (DirEntry n e ds) = True"

text \<open>The files, and the functions of the standard library, that the package reads with.\<close>

record 'w crd_files =
  cf_dir_tree :: "string \<Rightarrow> 'w \<Rightarrow> go_error + dir_entry"
  cf_read_file :: "string \<Rightarrow> 'w \<Rightarrow> go_error + string"
  cf_sha256_hex :: "string \<Rightarrow> string"

subsection \<open>Walking\<close>

definition to_lower :: "string \<Rightarrow> string" where
  "to_lower = map (\<lambda>c. if CHR ''A'' \<le> c \<and> c \<le> CHR ''Z'' then char_of (of_char c + 32 :: nat) else c)"

definition is_yaml :: "string \<Rightarrow> bool" where
  "is_yaml path \<longleftrightarrow> (let ext = to_lower (filepath_Ext path) in ext = ''.yaml'' \<or> ext = ''.yml'')"

definition hidden :: "string \<Rightarrow> bool" where
  "hidden name \<longleftrightarrow> (case name of [] \<Rightarrow> False | c # _ \<Rightarrow> c = CHR ''.'')"

datatype walk_err = SkipDir | WalkErr go_error

text \<open>The function the code passes to \<^verbatim>\<open>WalkDir\<close>, on the slice it closes over.\<close>

definition visit ::
  "string \<Rightarrow> string \<Rightarrow> bool \<Rightarrow> string \<Rightarrow> go_error option \<Rightarrow> string list \<Rightarrow> walk_err option \<times> string list" where
  "visit dirPath path isDir name err files =
     (case err of
        Some e \<Rightarrow> (Some (WalkErr e), files)
      | None \<Rightarrow>
          (if isDir
           then (if path \<noteq> dirPath \<and> hidden name then (Some SkipDir, files) else (None, files))
           else if is_yaml path then (None, files @ [path]) else (None, files)))"

text \<open>\<^verbatim>\<open>walkDir\<close> of the standard library with that function: \<^verbatim>\<open>SkipDir\<close> from a directory skips it, from a
  file the rest of its directory; a second call reports an error of \<^verbatim>\<open>ReadDir\<close>.\<close>

fun walkDir :: "string \<Rightarrow> string \<Rightarrow> dir_entry \<Rightarrow> string list \<Rightarrow> walk_err option \<times> string list"
and walkEntries :: "string \<Rightarrow> string \<Rightarrow> dir_entry list \<Rightarrow> string list \<Rightarrow> walk_err option \<times> string list" where
  "walkDir dirPath path (FileEntry n) files = visit dirPath path False n None files"
| "walkDir dirPath path (DirEntry n re ds) files =
     (case visit dirPath path True n None files of
        (Some SkipDir, fs) \<Rightarrow> (None, fs)
      | (Some e, fs) \<Rightarrow> (Some e, fs)
      | (None, fs) \<Rightarrow>
          (case (if re = None then (None, fs) else visit dirPath path True n re fs) of
             (Some SkipDir, fs1) \<Rightarrow> (None, fs1)
           | (Some e, fs1) \<Rightarrow> (Some e, fs1)
           | (None, fs1) \<Rightarrow> walkEntries dirPath path ds fs1))"
| "walkEntries dirPath path [] files = (None, files)"
| "walkEntries dirPath path (d # ds) files =
     (case walkDir dirPath (filepath_Join [path, entry_name d]) d files of
        (Some SkipDir, fs) \<Rightarrow> (None, fs)
      | (Some e, fs) \<Rightarrow> (Some e, fs)
      | (None, fs) \<Rightarrow> walkEntries dirPath path ds fs)"

definition walkYAMLFiles :: "('w, 'x) crd_files_scheme \<Rightarrow> string \<Rightarrow> 'w \<Rightarrow> go_error + string list" where
  "walkYAMLFiles io dirPath w =
     (case (case cf_dir_tree io dirPath w of
              Inl e \<Rightarrow> visit dirPath dirPath False [] (Some e) []
            | Inr d \<Rightarrow> walkDir dirPath dirPath d []) of
        (Some (WalkErr e), files) \<Rightarrow> Inl (Wrapf ''walk directory %s: %w'' [ArgStr dirPath] e)
      | (_, files) \<Rightarrow> Inr files)"

subsection \<open>Hashing\<close>

definition ErrNoYAMLFiles :: go_error where "ErrNoYAMLFiles = Sentinel ''no YAML files found''"

record hashed_file =
  hf_relPath :: string
  hf_content :: string

definition NUL :: char where "NUL = CHR 0x00"

text \<open>The loop of \<^verbatim>\<open>computeDirHash\<close>, with what was written to the hash and the files so far.\<close>

fun hashFiles ::
  "('w, 'x) crd_files_scheme \<Rightarrow> string \<Rightarrow> string list \<Rightarrow> 'w \<Rightarrow> string \<Rightarrow> hashed_file list \<Rightarrow>
   go_error + string \<times> hashed_file list" where
  "hashFiles io dirPath [] w written files = Inr (written, files)"
| "hashFiles io dirPath (p # ps) w written files =
     (case cf_read_file io p w of
        Inl e \<Rightarrow> Inl (Wrapf ''read %s: %w'' [ArgStr p] e)
      | Inr content \<Rightarrow>
          (case filepath_Rel dirPath p of
             Inl e \<Rightarrow> Inl (Wrapf ''rel path for %s: %w'' [ArgStr p] e)
           | Inr relPath \<Rightarrow>
               hashFiles io dirPath ps w (((written @ relPath @ [NUL]) @ content) @ [NUL])
                 (files @ [\<lparr>hf_relPath = relPath, hf_content = content\<rparr>])))"

definition computeDirHash ::
  "('w, 'x) crd_files_scheme \<Rightarrow> string \<Rightarrow> 'w \<Rightarrow> go_error + string \<times> hashed_file list" where
  "computeDirHash io dirPath w =
     (case walkYAMLFiles io dirPath w of
        Inl e \<Rightarrow> Inl (Wrapf ''walk dir: %w'' [] e)
      | Inr paths \<Rightarrow>
          (if paths = [] then Inl (Wrapf ''%w in %s'' [ArgStr dirPath] ErrNoYAMLFiles)
           else (case hashFiles io dirPath paths w [] [] of
                   Inl e \<Rightarrow> Inl e
                 | Inr (written, files) \<Rightarrow> Inr (take 16 (cf_sha256_hex io written), files))))"

subsection \<open>What a directory holds\<close>

text \<open>The files below a directory, as lists of names, in the order of the entries.\<close>

fun files_of :: "dir_entry \<Rightarrow> string list list"
and entry_files :: "dir_entry list \<Rightarrow> string list list" where
  "files_of (FileEntry n) = [[]]"
| "files_of (DirEntry n re ds) = entry_files ds"
| "entry_files [] = []"
| "entry_files (d # ds) = map ((#) (entry_name d)) (files_of d) @ entry_files ds"

text \<open>The files the package wants: a YAML extension, and no hidden directory on the way.\<close>

definition wanted :: "string list \<Rightarrow> bool" where
  "wanted es \<longleftrightarrow> is_yaml (last es) \<and> (\<forall>e \<in> set (butlast es). \<not> hidden e)"

definition path_below :: "string \<Rightarrow> string list \<Rightarrow> string" where
  "path_below = foldl (\<lambda>p e. filepath_Join [p, e])"

definition skipped :: "dir_entry \<Rightarrow> bool" where
  "skipped d \<longleftrightarrow> entry_isDir d \<and> hidden (entry_name d)"

text \<open>Entries as \<^verbatim>\<open>ReadDir\<close> returns them: file names, in increasing order.\<close>

fun listed :: "dir_entry \<Rightarrow> bool" where
  "listed (FileEntry n) \<longleftrightarrow> True"
| "listed (DirEntry n re ds) \<longleftrightarrow>
     list_all plain_elem (map entry_name ds) \<and> sorted_wrt (<) (map entry_name ds) \<and> list_all listed ds"

fun readable :: "dir_entry \<Rightarrow> bool" where
  "readable (FileEntry n) \<longleftrightarrow> True"
| "readable (DirEntry n re ds) \<longleftrightarrow> re = None \<and> list_all (\<lambda>d. skipped d \<or> readable d) ds"

lemma filepath_Ext_last_elem: "filepath_Ext p = filepath_Ext (last_elem p)"
proof -
  have "last_elem (last_elem p) = last_elem p"
    by (rule last_elem_no_sep) (auto simp: last_elem_def dest: set_takeWhileD)
  then show ?thesis unfolding filepath_Ext_def last_elem_def by simp
qed

lemma is_yaml_Join: "plain_elem e \<Longrightarrow> is_yaml (filepath_Join [p, e]) = is_yaml e"
  unfolding is_yaml_def using filepath_Ext_last_elem [of "filepath_Join [p, e]"] by simp

lemma Join_plain_not_Nil [simp]: "plain_elem e \<Longrightarrow> filepath_Join [p, e] \<noteq> []"
  using filepath_Join_not_Nil [of e "[p, e]"] by (auto simp: plain_elem_def)

lemma path_below_simps [simp]:
  "path_below p [] = p" "path_below p (e # es) = path_below (filepath_Join [p, e]) es"
  by (simp_all add: path_below_def)

lemma norm_path_below:
  assumes "p \<noteq> []" and "list_all plain_elem es"
  shows "norm (path_below p es) = norm p @ es" "rooted (path_below p es) = rooted p"
  using assms by (induction es arbitrary: p) simp_all

lemma files_of_not_Nil:
  "entry_isDir d \<Longrightarrow> es \<in> set (files_of d) \<Longrightarrow> es \<noteq> []"
  "es \<in> set (entry_files ds) \<Longrightarrow> es \<noteq> []"
  by (induction d and ds arbitrary: es and es rule: files_of_entry_files.induct) auto

lemma wanted_Cons:
  "es \<noteq> [] \<Longrightarrow> wanted (e # es) \<longleftrightarrow> \<not> hidden e \<and> wanted es"
  "wanted [e] \<longleftrightarrow> is_yaml e"
  by (auto simp: wanted_def)

text \<open>Below the root a directory is never the root itself, and a hidden one is skipped.\<close>

lemma walkDir_skipped:
  assumes "skipped d" and "path \<noteq> dirPath"
  shows "walkDir dirPath path d files = (None, files)"
  using assms by (cases d) (simp_all add: skipped_def visit_def)

lemma filter_wanted_Cons:
  assumes "[] \<notin> set ess"
  shows "filter wanted (map ((#) e) ess) = (if hidden e then [] else map ((#) e) (filter wanted ess))"
  using assms by (induction ess) (auto simp: wanted_Cons)

lemma entry_wanted:
  "filter wanted (map ((#) (entry_name d)) (files_of d)) =
     (if entry_isDir d
      then (if skipped d then [] else map ((#) (entry_name d)) (filter wanted (files_of d)))
      else if is_yaml (entry_name d) then [[entry_name d]] else [])"
proof (cases d)
  case (DirEntry n re ds)
  have "[] \<notin> set (entry_files ds)" using files_of_not_Nil(2) by blast
  with DirEntry show ?thesis by (simp add: filter_wanted_Cons skipped_def)
qed (simp add: wanted_Cons)

lemma walk_below:
  "entry_isDir d \<Longrightarrow> path \<noteq> [] \<Longrightarrow> length (norm dirPath) \<le> length (norm path) \<Longrightarrow> listed d \<Longrightarrow> readable d \<Longrightarrow>
     path = dirPath \<or> \<not> skipped d \<Longrightarrow>
     walkDir dirPath path d files = (None, files @ map (path_below path) (filter wanted (files_of d)))"
  "path \<noteq> [] \<Longrightarrow> length (norm dirPath) \<le> length (norm path) \<Longrightarrow> list_all plain_elem (map entry_name ds) \<Longrightarrow>
     list_all listed ds \<Longrightarrow> list_all (\<lambda>d. skipped d \<or> readable d) ds \<Longrightarrow>
     walkEntries dirPath path ds files = (None, files @ map (path_below path) (filter wanted (entry_files ds)))"
proof (induction d and ds arbitrary: path files and path files rule: files_of_entry_files.induct)
  case (2 n re ds)
  have "visit dirPath path True n None files = (None, files)"
    using 2(7) by (auto simp: visit_def skipped_def)
  with 2 show ?case by simp
next
  case (4 d ds)
  let ?p = "filepath_Join [path, entry_name d]"
  have pl: "plain_elem (entry_name d)" using 4(5) by simp
  then have ne: "?p \<noteq> []" by simp
  have len: "length (norm dirPath) < length (norm ?p)" using 4(3,4) pl by simp
  then have neq: "?p \<noteq> dirPath" by auto
  have "walkDir dirPath ?p d files =
      (None, files @ map (path_below path) (filter wanted (map ((#) (entry_name d)) (files_of d))))"
  proof (cases "entry_isDir d")
    case False
    then obtain n where "d = FileEntry n" by (cases d) auto
    with pl show ?thesis by (simp add: visit_def is_yaml_Join wanted_Cons)
  next
    case dir: True
    show ?thesis
    proof (cases "skipped d")
      case True
      with dir show ?thesis by (simp add: walkDir_skipped neq entry_wanted)
    next
      case False
      with 4(1) [OF dir ne] 4(6,7) len have
        "walkDir dirPath ?p d files = (None, files @ map (path_below ?p) (filter wanted (files_of d)))" by simp
      with dir False show ?thesis by (simp add: entry_wanted)
    qed
  qed
  with 4 show ?case by simp
qed simp_all

lemma walk_no_SkipDir:
  "fst (walkDir dirPath path d files) \<noteq> Some SkipDir"
  "fst (walkEntries dirPath path ds files) \<noteq> Some SkipDir"
  by (induction d and ds arbitrary: path files and path files rule: files_of_entry_files.induct)
    (auto simp: visit_def split: option.splits walk_err.splits prod.splits if_splits)

lemma walk_unreadable:
  "entry_isDir d \<Longrightarrow> path \<noteq> [] \<Longrightarrow> length (norm dirPath) \<le> length (norm path) \<Longrightarrow> listed d \<Longrightarrow> \<not> readable d \<Longrightarrow>
     path = dirPath \<or> \<not> skipped d \<Longrightarrow> \<exists>e fs. walkDir dirPath path d files = (Some (WalkErr e), fs)"
  "path \<noteq> [] \<Longrightarrow> length (norm dirPath) \<le> length (norm path) \<Longrightarrow> list_all plain_elem (map entry_name ds) \<Longrightarrow>
     list_all listed ds \<Longrightarrow> \<not> list_all (\<lambda>d. skipped d \<or> readable d) ds \<Longrightarrow>
     \<exists>e fs. walkEntries dirPath path ds files = (Some (WalkErr e), fs)"
proof (induction d and ds arbitrary: path files and path files rule: files_of_entry_files.induct)
  case (2 n re ds)
  have "visit dirPath path True n None files = (None, files)"
    using 2(7) by (auto simp: visit_def skipped_def)
  with 2 show ?case by (cases re) (auto simp: visit_def)
next
  case (4 d ds)
  let ?p = "filepath_Join [path, entry_name d]"
  have pl: "plain_elem (entry_name d)" using 4(5) by simp
  have len: "length (norm dirPath) \<le> length (norm ?p)" using 4(3,4) pl by simp
  show ?case
  proof (cases "skipped d \<or> readable d")
    case False
    then have "entry_isDir d" by (cases d) auto
    from 4(1) [OF this Join_plain_not_Nil [OF pl] len, of files] False 4(6)
    obtain e fs where "walkDir dirPath ?p d files = (Some (WalkErr e), fs)" by auto
    then show ?thesis by simp
  next
    case True
    with walk_below(2) [of path dirPath "[d]" files] 4(3,4,6) pl walk_no_SkipDir(1) [of dirPath ?p d files]
    obtain fs where "walkDir dirPath ?p d files = (None, fs)"
      by (auto split: option.splits walk_err.splits prod.splits)
    with True 4 show ?thesis by auto
  qed
qed simp_all

subsection \<open>Order\<close>

lemma entry_files_head: "es \<in> set (entry_files ds) \<Longrightarrow> \<exists>d \<in> set ds. es \<noteq> [] \<and> hd es = entry_name d"
  by (induction ds) auto

lemma files_sorted:
  "listed d \<Longrightarrow> sorted_wrt (<) (files_of d)"
  "sorted_wrt (<) (map entry_name ds) \<Longrightarrow> list_all listed ds \<Longrightarrow> sorted_wrt (<) (entry_files ds)"
proof (induction d and ds rule: files_of_entry_files.induct)
  case (4 d ds)
  have "entry_name d # es < fs" if "fs \<in> set (entry_files ds)" for es fs
    using entry_files_head [OF that] 4(3) by (cases fs) auto
  moreover have "sorted_wrt (<) (map ((#) (entry_name d)) (files_of d))"
    using 4 by (simp add: sorted_wrt_map)
  ultimately show ?case using 4 by (auto simp: sorted_wrt_append)
qed simp_all


definition sample_tree :: dir_entry where
  "sample_tree = DirEntry ''crds'' None
     [DirEntry ''.git'' (Some (Sentinel ''denied'')) [], FileEntry ''.x.YML'',
      DirEntry ''a'' None [FileEntry ''x.yaml''], FileEntry ''a-b.yaml'', FileEntry ''z.txt'']"

definition sample_files :: "unit crd_files" where
  "sample_files = \<lparr>cf_dir_tree = \<lambda>_ _. Inr sample_tree, cf_read_file = \<lambda>p _. Inr ''kind: X'',
     cf_sha256_hex = \<lambda>s. replicate 64 (CHR ''0'')\<rparr>"


text \<open>That order is not the order of the paths: a directory's files come before a file whose name
  continues the directory's with a character below the slash.\<close>

theorem walkYAMLFiles_not_path_order:
  "\<exists>files. walkYAMLFiles sample_files ''crds'' () = Inr files \<and> \<not> sorted files"
proof -
  have "walkYAMLFiles sample_files ''crds'' () = Inr [''crds/.x.YML'', ''crds/a/x.yaml'', ''crds/a-b.yaml'']"
    by code_simp
  moreover have "\<not> sorted [''crds/.x.YML'', ''crds/a/x.yaml'', ''crds/a-b.yaml'']" by code_simp
  ultimately show ?thesis by blast
qed

subsection \<open>The key\<close>

text \<open>What the hash reads.\<close>

definition hash_input :: "hashed_file list \<Rightarrow> string" where
  "hash_input files = concat (map (\<lambda>f. hf_relPath f @ NUL # hf_content f @ [NUL]) files)"

lemma hash_input_append: "hash_input (fs @ gs) = hash_input fs @ hash_input gs"
  by (simp add: hash_input_def)

lemma hashFiles_spec:
  assumes "dirPath \<noteq> []" and "\<forall>es \<in> set ess. es \<noteq> [] \<and> list_all plain_elem es"
    and "\<forall>es \<in> set ess. cf_read_file io (path_below dirPath es) w = Inr (content es)"
  shows "hashFiles io dirPath (map (path_below dirPath) ess) w (hash_input fs) fs =
    (let all = fs @ map (\<lambda>es. \<lparr>hf_relPath = join_with ''/'' es, hf_content = content es\<rparr>) ess
     in Inr (hash_input all, all))"
  using assms(2,3)
proof (induction ess arbitrary: fs)
  case (Cons es ess)
  let ?f = "\<lparr>hf_relPath = join_with ''/'' es, hf_content = content es\<rparr>"
  have "filepath_Rel dirPath (path_below dirPath es) = Inr (join_with ''/'' es)"
    using filepath_Rel_below [OF norm_path_below [OF assms(1)]] Cons.prems(1) by simp
  moreover have "hash_input (fs @ [?f]) = ((hash_input fs @ join_with ''/'' es @ [NUL]) @ content es) @ [NUL]"
    by (simp add: hash_input_def)
  ultimately show ?case using Cons.IH [of "fs @ [?f]"] Cons.prems by (simp add: Let_def)
qed (simp add: Let_def)

lemma files_plain:
  "listed d \<Longrightarrow> es \<in> set (files_of d) \<Longrightarrow> list_all plain_elem es"
  "list_all plain_elem (map entry_name ds) \<Longrightarrow> list_all listed ds \<Longrightarrow> es \<in> set (entry_files ds) \<Longrightarrow>
     list_all plain_elem es"
  by (induction d and ds arbitrary: es and es rule: files_of_entry_files.induct) auto



text \<open>The separators make the input of the hash unambiguous on contents without a NUL byte \<dots>\<close>

lemma split_terminated:
  assumes "\<forall>x \<in> set xs. c \<notin> set x"
  shows "split_on c (concat (map (\<lambda>x. x @ [c]) xs)) = xs @ [[]]"
  using assms
proof (induction xs)
  case (Cons x xs)
  with split_on_append [of c x "concat (map (\<lambda>x. x @ [c]) xs)"] show ?case by (simp add: split_on_no_sep)
qed simp

definition hash_fields :: "hashed_file list \<Rightarrow> string list" where
  "hash_fields files = concat (map (\<lambda>f. [hf_relPath f, hf_content f]) files)"

lemma hash_input_fields: "hash_input files = concat (map (\<lambda>x. x @ [NUL]) (hash_fields files))"
  by (induction files) (simp_all add: hash_input_def hash_fields_def)

lemma hash_fields_inj: "hash_fields fs = hash_fields gs \<Longrightarrow> fs = gs"
proof (induction fs arbitrary: gs)
  case Nil
  then show ?case by (cases gs) (simp_all add: hash_fields_def)
next
  case (Cons f fs)
  then show ?case by (cases gs) (auto simp: hash_fields_def)
qed

lemma hashFiles_input:
  "hashFiles io d ps w (hash_input fs) fs = Inr (written, gs) \<Longrightarrow> written = hash_input gs"
proof (induction ps arbitrary: fs)
  case (Cons p ps)
  from Cons.prems obtain content rel where c: "cf_read_file io p w = Inr content" "filepath_Rel d p = Inr rel"
    by (auto split: sum.splits)
  have "((hash_input fs @ rel @ [NUL]) @ content) @ [NUL] = hash_input (fs @ [\<lparr>hf_relPath = rel, hf_content = content\<rparr>])"
    by (simp add: hash_input_def)
  with Cons.IH Cons.prems c show ?case by (simp add: Let_def)
qed simp

lemma hash_input_unique:
  assumes "\<forall>f \<in> set (fs @ gs). NUL \<notin> set (hf_relPath f) \<and> NUL \<notin> set (hf_content f)"
    and "hash_input fs = hash_input gs"
  shows "fs = gs"
proof -
  have nf: "\<forall>x \<in> set (hash_fields fs). NUL \<notin> set x" and ng: "\<forall>x \<in> set (hash_fields gs). NUL \<notin> set x"
    using assms(1) by (simp_all add: hash_fields_def)
  have "hash_fields fs @ [[]] = hash_fields gs @ [[]]"
    using arg_cong [OF assms(2), of "split_on NUL"]
    unfolding hash_input_fields split_terminated [OF nf] split_terminated [OF ng] .
  then have "hash_fields fs = hash_fields gs" by (rule append_same_eq [THEN iffD1])
  then show ?thesis by (rule hash_fields_inj)
qed

text \<open>C24. What the loop of \<^verbatim>\<open>computeDirHash\<close> writes to the hash determines the files it hashed, their relative names,
  contents and order, when neither names nor contents hold a NUL byte: two directories whose loops
  write the same bytes have the same files.\<close>

theorem hashFiles_inj:
  assumes "hashFiles io d ps w [] [] = Inr (written, fs)" and "hashFiles io' d' ps' w' [] [] = Inr (written, gs)"
    and "\<forall>f \<in> set (fs @ gs). NUL \<notin> set (hf_relPath f) \<and> NUL \<notin> set (hf_content f)"
  shows "fs = gs"
proof -
  have Nil: "hash_input [] = []" by (simp add: hash_input_def)
  from hashFiles_input [of io d ps w "[]"] assms(1) have "written = hash_input fs" by (simp add: Nil)
  moreover from hashFiles_input [of io' d' ps' w' "[]"] assms(2) have "written = hash_input gs" by (simp add: Nil)
  ultimately show ?thesis using hash_input_unique [OF assms(3)] by simp
qed

theorem hashFiles_inj_witness:
  "\<exists>written fs. hashFiles sample_files ''crds'' [''crds/a.yaml''] () [] [] = Inr (written, fs) \<and>
     hashFiles sample_files ''/x/crds'' [''/x/crds/a.yaml''] () [] [] = Inr (written, fs) \<and> fs \<noteq> []"
proof -
  let ?f = "\<lparr>hf_relPath = ''a.yaml'', hf_content = ''kind: X''\<rparr>" and ?w = "''a.yaml'' @ NUL # ''kind: X'' @ [NUL]"
  have a: "hashFiles sample_files ''crds'' [''crds/a.yaml''] () [] [] = Inr (?w, [?f])" by code_simp
  have b: "hashFiles sample_files ''/x/crds'' [''/x/crds/a.yaml''] () [] [] = Inr (?w, [?f])" by code_simp
  have "\<forall>f \<in> set ([?f] @ [?f]). NUL \<notin> set (hf_relPath f) \<and> NUL \<notin> set (hf_content f)" by (simp add: NUL_def)
  from hashFiles_inj [OF a b this] a b show ?thesis by blast
qed

text \<open>\<dots> and only there: a file whose content holds the separators is taken for two files.\<close>

theorem hash_input_collision:
  "hash_input [\<lparr>hf_relPath = ''a.yaml'', hf_content = ''x'' @ NUL # ''b.yaml'' @ NUL # ''y''\<rparr>] =
   hash_input [\<lparr>hf_relPath = ''a.yaml'', hf_content = ''x''\<rparr>, \<lparr>hf_relPath = ''b.yaml'', hf_content = ''y''\<rparr>]"
  by (simp add: hash_input_def)

end
