(* ===== verification/Crdapply.thy ===== *)
theory Crdapply
  imports Crdwalk "HOL-Library.Sublist" "HOL-Library.Multiset"
begin

text \<open>
  \<^verbatim>\<open>internal/crdcache/apply.go\<close>: parsing the YAML files into documents, splitting them into CRDs and
  others, resolving REST mappings with a bounded number of discovery rounds, and applying every
  document by server-side apply. The YAML decoder and the Kubernetes clients are fields of a record.
\<close>

subsection \<open>Objects\<close>

text \<open>\<^verbatim>\<open>unstructured.Unstructured\<close>: what its accessors return, and the rest of the document.\<close>

record u_obj =
  u_group :: string
  u_version :: string
  u_kind :: string
  u_namespace :: string
  u_name :: string
  u_managedFields :: "string option"
  u_resourceVersion :: string
  u_rest :: string

text \<open>\<^verbatim>\<open>schema.GroupVersionKind\<close>, and \<^verbatim>\<open>meta.RESTMapping\<close> with its resource and whether its scope is the
  namespace.\<close>

type_synonym gvk = "string \<times> string \<times> string"

record rest_mapping =
  rm_resource :: string
  rm_namespaced :: bool

type_synonym rest_mapper = "string \<times> string \<Rightarrow> string \<Rightarrow> go_error + rest_mapping"

definition GroupVersionKind :: "u_obj \<Rightarrow> gvk" where
  "GroupVersionKind obj = (u_group obj, u_version obj, u_kind obj)"

definition GroupKind :: "gvk \<Rightarrow> string \<times> string" where
  "GroupKind gvk = (fst gvk, snd (snd gvk))"

definition show_gvk :: "gvk \<Rightarrow> string" where
  "show_gvk gvk = fst gvk @ ''/'' @ fst (snd gvk) @ '', Kind='' @ snd (snd gvk)"

record parsedDoc =
  pd_obj :: u_obj
  pd_relPath :: string

record discoveryMapper =
  dm_mapper :: rest_mapper
  dm_discClient :: nat

subsection \<open>The client libraries\<close>

text \<open>
  \<^item> \<open>cl_yaml_docs\<close> is \<^verbatim>\<open>YAMLReader\<close>: the documents its \<^verbatim>\<open>Read\<close> returns one after the other, and the error it
    returns after them (\<^verbatim>\<open>io.EOF\<close> at the end of the content).
  \<^item> \<open>cl_decode\<close> is \<^verbatim>\<open>YAMLOrJSONDecoder.Decode\<close>, \<open>cl_is_missing_kind\<close> \<^verbatim>\<open>runtime.IsMissingKind\<close>,
    \<open>cl_error_string\<close> the method \<^verbatim>\<open>Error\<close> of an error.
  \<^item> \<open>cl_group_resources\<close> is \<^verbatim>\<open>GetAPIGroupResources\<close>, \<open>cl_rest_mapper\<close> \<^verbatim>\<open>NewDiscoveryRESTMapper\<close>.
  \<^item> \<open>cl_patch client ctx resource namespace name data fieldManager\<close> is \<^verbatim>\<open>Patch\<close> with the apply type.
  \<^item> \<open>cl_cause\<close> is \<^verbatim>\<open>context.Cause\<close>.
\<close>

record 'w crd_clients = "'w crd_files" +
  cl_yaml_docs :: "string \<Rightarrow> string list \<times> go_error"
  cl_decode :: "string \<Rightarrow> go_error + u_obj"
  cl_is_missing_kind :: "go_error \<Rightarrow> bool"
  cl_error_string :: "go_error \<Rightarrow> string"
  cl_new_dynamic :: "rest_config \<Rightarrow> go_error + nat"
  cl_new_discovery :: "rest_config \<Rightarrow> go_error + nat"
  cl_group_resources :: "nat \<Rightarrow> 'w \<Rightarrow> (go_error + nat) \<times> 'w"
  cl_rest_mapper :: "nat \<Rightarrow> rest_mapper"
  cl_is_no_match :: "go_error \<Rightarrow> bool"
  cl_marshal :: "u_obj \<Rightarrow> go_error + string"
  cl_patch :: "nat \<Rightarrow> ctx \<Rightarrow> string \<Rightarrow> string option \<Rightarrow> string \<Rightarrow> string \<Rightarrow> string \<Rightarrow> 'w \<Rightarrow> go_error option \<times> 'w"
  cl_cause :: "ctx \<Rightarrow> 'w \<Rightarrow> go_error"

subsection \<open>Constants\<close>

definition ErrMissingKind :: go_error where "ErrMissingKind = Sentinel ''missing kind in document''"
definition errTooManyYAMLFiles :: go_error where "errTooManyYAMLFiles = Sentinel ''too many YAML files in directory''"
definition discoveryRetryCount :: nat where "discoveryRetryCount = 5"
definition discoveryRetryDelay :: duration where "discoveryRetryDelay = 100 * Millisecond"
definition maxYAMLFiles :: nat where "maxYAMLFiles = 1000"
definition ssaFieldManager :: string where "ssaFieldManager = ''k8senv''"
definition applyQPS :: int where "applyQPS = 10000"
definition applyBurst :: int where "applyBurst = 10000"
definition crdKind :: string where "crdKind = ''CustomResourceDefinition''"
definition apiextensions_GroupName :: string where "apiextensions_GroupName = ''apiextensions.k8s.io''"
definition NamespaceDefault :: string where "NamespaceDefault = ''default''"
definition missingKindErrSubstring :: string where "missingKindErrSubstring = ''Object 'Kind' is missing''"

subsection \<open>The mapper\<close>

text \<open>A mapper that was never filled: \<^verbatim>\<open>newDiscoveryMapper\<close> returns none before its first refresh.\<close>

definition nil_mapper :: rest_mapper where
  "nil_mapper gk v = Inl (errors_New ''nil RESTMapper'')"

definition refresh ::
  "('w, 'x) crd_clients_scheme \<Rightarrow> discoveryMapper \<Rightarrow> 'w \<Rightarrow> go_error option \<times> discoveryMapper \<times> 'w" where
  "refresh lib dm w =
     (case cl_group_resources lib (dm_discClient dm) w of
        (Inl e, w1) \<Rightarrow> (Some (Wrapf ''refresh discovery mapper: %w'' [] (Wrapf ''get api groups: %w'' [] e)), dm, w1)
      | (Inr gr, w1) \<Rightarrow> (None, dm\<lparr>dm_mapper := cl_rest_mapper lib gr\<rparr>, w1))"

definition newDiscoveryMapper ::
  "('w, 'x) crd_clients_scheme \<Rightarrow> nat \<Rightarrow> 'w \<Rightarrow> (go_error + discoveryMapper) \<times> 'w" where
  "newDiscoveryMapper lib discClient w =
     (case refresh lib \<lparr>dm_mapper = nil_mapper, dm_discClient = discClient\<rparr> w of
        (Some e, dm, w1) \<Rightarrow> (Inl e, w1)
      | (None, dm, w1) \<Rightarrow> (Inr dm, w1))"

definition RESTMapping :: "discoveryMapper \<Rightarrow> string \<times> string \<Rightarrow> string \<Rightarrow> go_error + rest_mapping" where
  "RESTMapping dm gk version = dm_mapper dm gk version"

definition contextCauseErr :: "('w, 'x) crd_clients_scheme \<Rightarrow> ctx \<Rightarrow> gvk \<Rightarrow> 'w \<Rightarrow> go_error" where
  "contextCauseErr lib c gvk w = Wrapf ''get rest mapping for %v: %w'' [ArgStr (show_gvk gvk)] (cl_cause lib c w)"

definition mapping_err :: "gvk \<Rightarrow> go_error \<Rightarrow> go_error" where
  "mapping_err gvk e = Wrapf ''get rest mapping for %v: %w'' [ArgStr (show_gvk gvk)] e"

text \<open>The retry loop, with the attempts left and the error of the last one.\<close>

fun discoveryLoop ::
  "('w, 'x) crd_clients_scheme \<Rightarrow> 'w os \<Rightarrow> ctx \<Rightarrow> gvk \<Rightarrow> nat \<Rightarrow> go_error \<Rightarrow> discoveryMapper \<Rightarrow> 'w \<Rightarrow>
   (go_error + rest_mapping) \<times> discoveryMapper \<times> 'w" where
  "discoveryLoop lib sys c gvk 0 lastErr dm w =
     (if os_ctx_err sys c w \<noteq> None then (Inl (contextCauseErr lib c gvk w), dm, w)
      else (Inl (mapping_err gvk lastErr), dm, w))"
| "discoveryLoop lib sys c gvk (Suc n) lastErr dm w =
     (if os_ctx_err sys c w \<noteq> None then (Inl (contextCauseErr lib c gvk w), dm, w)
      else (case refresh lib dm w of
              (Some e, dm1, w1) \<Rightarrow> (Inl e, dm1, w1)
            | (None, dm1, w1) \<Rightarrow>
                (case RESTMapping dm1 (GroupKind gvk) (fst (snd gvk)) of
                   Inr mapping \<Rightarrow> (Inr mapping, dm1, w1)
                 | Inl e \<Rightarrow>
                     (if \<not> cl_is_no_match lib e then (Inl (mapping_err gvk e), dm1, w1)
                      else if 0 < n
                      then (case os_wait_timer sys c discoveryRetryDelay w1 of
                              (False, w2) \<Rightarrow> (Inl (contextCauseErr lib c gvk w2), dm1, w2)
                            | (True, w2) \<Rightarrow> discoveryLoop lib sys c gvk n e dm1 w2)
                      else discoveryLoop lib sys c gvk n e dm1 w1))))"

definition discoverRESTMapping ::
  "('w, 'x) crd_clients_scheme \<Rightarrow> 'w os \<Rightarrow> ctx \<Rightarrow> discoveryMapper \<Rightarrow> gvk \<Rightarrow> 'w \<Rightarrow>
   (go_error + rest_mapping) \<times> discoveryMapper \<times> 'w" where
  "discoverRESTMapping lib sys c dm gvk w =
     (case RESTMapping dm (GroupKind gvk) (fst (snd gvk)) of
        Inr mapping \<Rightarrow> (Inr mapping, dm, w)
      | Inl e \<Rightarrow>
          (if \<not> cl_is_no_match lib e then (Inl (mapping_err gvk e), dm, w)
           else discoveryLoop lib sys c gvk discoveryRetryCount e dm w))"

subsection \<open>Parsing\<close>

text \<open>\<^verbatim>\<open>bytes.TrimSpace\<close> leaves nothing: every UTF-8 encoded character is a white space of Unicode.\<close>

definition ascii_space :: "char \<Rightarrow> bool" where
  "ascii_space c \<longleftrightarrow> (of_char c :: nat) \<in> {9, 10, 11, 12, 13, 32}"

fun unicode_space :: "nat list \<Rightarrow> bool" where
  "unicode_space [a, b] \<longleftrightarrow> a = 0xC2 \<and> (b = 0x85 \<or> b = 0xA0)"
| "unicode_space [a, b, c] \<longleftrightarrow>
     a = 0xE1 \<and> b = 0x9A \<and> c = 0x80 \<or>
     a = 0xE2 \<and> b = 0x80 \<and> (0x80 \<le> c \<and> c \<le> 0x8A \<or> c = 0xA8 \<or> c = 0xA9 \<or> c = 0xAF) \<or>
     a = 0xE2 \<and> b = 0x81 \<and> c = 0x9F \<or>
     a = 0xE3 \<and> b = 0x80 \<and> c = 0x80"
| "unicode_space _ \<longleftrightarrow> False"

function blank :: "string \<Rightarrow> bool" where
  "blank cs \<longleftrightarrow>
     (if cs = [] then True
      else if ascii_space (hd cs) then blank (tl cs)
      else if unicode_space (map of_char (take 2 cs)) then blank (drop 2 cs)
      else if unicode_space (map of_char (take 3 cs)) then blank (drop 3 cs)
      else False)"
  by pat_completeness auto
termination
  by (relation "measure length") (auto simp: neq_Nil_conv)

declare blank.simps [simp del]

definition isMissingKindDecodeError :: "('w, 'x) crd_clients_scheme \<Rightarrow> go_error \<Rightarrow> bool" where
  "isMissingKindDecodeError lib e \<longleftrightarrow>
     cl_is_missing_kind lib e \<or> sublist missingKindErrSubstring (cl_error_string lib e)"

fun parseLoop ::
  "('w, 'x) crd_clients_scheme \<Rightarrow> string \<Rightarrow> go_error \<Rightarrow> nat \<Rightarrow> string list \<Rightarrow> parsedDoc list \<Rightarrow> go_error + parsedDoc list" where
  "parseLoop lib relPath readErr docNum [] docs =
     (if errors_Is readErr (Std IoEOF) then Inr docs
      else Inl (Wrapf ''read yaml doc %d: %w'' [ArgInt (int docNum)] readErr))"
| "parseLoop lib relPath readErr docNum (raw # raws) docs =
     (if blank raw then parseLoop lib relPath readErr (Suc docNum) raws docs
      else (case cl_decode lib raw of
              Inl e \<Rightarrow>
                (if isMissingKindDecodeError lib e
                 then Inl (Wrapf ''doc %d: decode yaml: %w'' [ArgInt (int docNum)] ErrMissingKind)
                 else Inl (Wrapf ''doc %d: decode yaml: %w'' [ArgInt (int docNum)] e))
            | Inr obj \<Rightarrow>
                (if u_kind obj = '''' then Inl (Wrapf ''doc %d: %w'' [ArgInt (int docNum)] ErrMissingKind)
                 else parseLoop lib relPath readErr (Suc docNum) raws
                        (docs @ [\<lparr>pd_obj = obj, pd_relPath = relPath\<rparr>]))))"

definition parseFileDocuments ::
  "('w, 'x) crd_clients_scheme \<Rightarrow> string \<Rightarrow> string \<Rightarrow> go_error + parsedDoc list" where
  "parseFileDocuments lib content relPath =
     (case cl_yaml_docs lib content of (raws, readErr) \<Rightarrow> parseLoop lib relPath readErr 1 raws [])"

definition isCRDDocument :: "u_obj \<Rightarrow> bool" where
  "isCRDDocument obj \<longleftrightarrow> u_group obj = apiextensions_GroupName \<and> u_kind obj = crdKind"

fun classifyDocs :: "parsedDoc list \<Rightarrow> parsedDoc list \<times> parsedDoc list \<Rightarrow> parsedDoc list \<times> parsedDoc list" where
  "classifyDocs [] acc = acc"
| "classifyDocs (d # ds) (crdDocs, otherDocs) =
     (if isCRDDocument (pd_obj d) then classifyDocs ds (crdDocs @ [d], otherDocs)
      else classifyDocs ds (crdDocs, otherDocs @ [d]))"

fun classifyFiles ::
  "('w, 'x) crd_clients_scheme \<Rightarrow> hashed_file list \<Rightarrow> parsedDoc list \<times> parsedDoc list \<Rightarrow>
   go_error + parsedDoc list \<times> parsedDoc list" where
  "classifyFiles lib [] acc = Inr acc"
| "classifyFiles lib (f # fs) acc =
     (case parseFileDocuments lib (hf_content f) (hf_relPath f) of
        Inl e \<Rightarrow> Inl (Wrapf ''parse %s: %w'' [ArgStr (hf_relPath f)] e)
      | Inr docs \<Rightarrow> classifyFiles lib fs (classifyDocs docs acc))"

definition classifyDocuments ::
  "('w, 'x) crd_clients_scheme \<Rightarrow> hashed_file list \<Rightarrow> go_error + parsedDoc list \<times> parsedDoc list" where
  "classifyDocuments lib files = classifyFiles lib files ([], [])"

subsection \<open>Applying\<close>

definition clean_obj :: "u_obj \<Rightarrow> u_obj" where
  "clean_obj obj = obj\<lparr>u_managedFields := None, u_resourceVersion := ''''\<rparr>"

definition applyParsedDocument ::
  "('w, 'x) crd_clients_scheme \<Rightarrow> 'w os \<Rightarrow> ctx \<Rightarrow> nat \<Rightarrow> parsedDoc \<Rightarrow> discoveryMapper \<Rightarrow> 'w \<Rightarrow>
   go_error option \<times> discoveryMapper \<times> 'w" where
  "applyParsedDocument lib sys c dynClient doc dm w =
     (let gvk = GroupVersionKind (pd_obj doc)
      in case discoverRESTMapping lib sys c dm gvk w of
           (Inl e, dm1, w1) \<Rightarrow> (Some (Wrapf ''%s: %w'' [ArgStr (pd_relPath doc)] e), dm1, w1)
         | (Inr mapping, dm1, w1) \<Rightarrow>
             (let ns = (if rm_namespaced mapping
                        then Some (if u_namespace (pd_obj doc) = '''' then NamespaceDefault else u_namespace (pd_obj doc))
                        else None);
                  obj = clean_obj (pd_obj doc);
                  args = [ArgStr (pd_relPath doc), ArgStr (u_kind obj), ArgStr (u_name obj)]
              in case cl_marshal lib obj of
                   Inl e \<Rightarrow> (Some (Wrapf ''%s: marshal %s/%s: %w'' args e), dm1, w1)
                 | Inr data \<Rightarrow>
                     (case cl_patch lib dynClient c (rm_resource mapping) ns (u_name obj) data ssaFieldManager w1 of
                        (Some e, w2) \<Rightarrow> (Some (Wrapf ''%s: apply %s/%s: %w'' args e), dm1, w2)
                      | (None, w2) \<Rightarrow> (None, dm1, w2))))"

text \<open>
  The goroutines of the first phase, a document each, in the order they run: the first error is the one
  \<^verbatim>\<open>g.Wait()\<close> returns and ends the context of the group, the others still run. The second phase stops at
  its first error.
\<close>

fun applyGroup ::
  "('w, 'x) crd_clients_scheme \<Rightarrow> 'w os \<Rightarrow> ctx \<Rightarrow> nat \<Rightarrow> parsedDoc list \<Rightarrow> go_error option \<Rightarrow> discoveryMapper \<Rightarrow> 'w \<Rightarrow>
   go_error option \<times> discoveryMapper \<times> 'w" where
  "applyGroup lib sys gCtx dynClient [] err dm w = (err, dm, os_ctx_cancel sys gCtx w)"
| "applyGroup lib sys gCtx dynClient (d # ds) err dm w =
     (case applyParsedDocument lib sys gCtx dynClient d dm w of
        (None, dm1, w1) \<Rightarrow> applyGroup lib sys gCtx dynClient ds err dm1 w1
      | (Some e, dm1, w1) \<Rightarrow>
          (case err of
             None \<Rightarrow> applyGroup lib sys gCtx dynClient ds (Some e) dm1 (os_ctx_cancel sys gCtx w1)
           | Some first \<Rightarrow> applyGroup lib sys gCtx dynClient ds (Some first) dm1 w1))"

fun applyInOrder ::
  "('w, 'x) crd_clients_scheme \<Rightarrow> 'w os \<Rightarrow> ctx \<Rightarrow> nat \<Rightarrow> parsedDoc list \<Rightarrow> discoveryMapper \<Rightarrow> 'w \<Rightarrow> go_error option \<times> 'w" where
  "applyInOrder lib sys c dynClient [] dm w = (None, w)"
| "applyInOrder lib sys c dynClient (d # ds) dm w =
     (case applyParsedDocument lib sys c dynClient d dm w of
        (Some e, dm1, w1) \<Rightarrow> (Some e, w1)
      | (None, dm1, w1) \<Rightarrow> applyInOrder lib sys c dynClient ds dm1 w1)"

definition applyYAMLFiles ::
  "('w, 'x) crd_clients_scheme \<Rightarrow> 'w os \<Rightarrow> (parsedDoc list \<Rightarrow> parsedDoc list) \<Rightarrow> ctx \<Rightarrow> rest_config \<Rightarrow>
   hashed_file list \<Rightarrow> 'w \<Rightarrow> go_error option \<times> 'w" where
  "applyYAMLFiles lib sys sched c restCfg files w =
     (if maxYAMLFiles < length files
      then (Some (Wrapf ''%w: found %d files (max %d)'' [ArgInt (int (length files)), ArgInt (int maxYAMLFiles)]
                    errTooManyYAMLFiles), w)
      else let applyCfg = restCfg\<lparr>rc_QPS := applyQPS, rc_Burst := applyBurst\<rparr>
      in case cl_new_dynamic lib applyCfg of
           Inl e \<Rightarrow> (Some (Wrapf ''create dynamic client: %w'' [] e), w)
         | Inr dynClient \<Rightarrow>
      (case cl_new_discovery lib applyCfg of
           Inl e \<Rightarrow> (Some (Wrapf ''create discovery client: %w'' [] e), w)
         | Inr discClient \<Rightarrow>
      (case newDiscoveryMapper lib discClient w of
           (Inl e, w1) \<Rightarrow> (Some (Wrapf ''build rest mapper: %w'' [] e), w1)
         | (Inr dm, w1) \<Rightarrow>
      (case classifyDocuments lib files of
           Inl e \<Rightarrow> (Some e, w1)
         | Inr (crdDocs, otherDocs) \<Rightarrow>
      (case (if crdDocs = [] then (None, dm, w1)
             else (case os_ctx_with_cancel sys c w1 of
                     (gCtx, w2) \<Rightarrow> applyGroup lib sys gCtx dynClient (sched crdDocs) None dm w2)) of
           (Some e, dm1, w3) \<Rightarrow> (Some (Wrapf ''apply CRD documents: %w'' [] e), w3)
         | (None, dm1, w3) \<Rightarrow> applyInOrder lib sys c dynClient otherDocs dm1 w3)))))"

subsection \<open>Documents\<close>

text \<open>The reference: the documents of every file in order; the CRDs are those of them that are CRDs.\<close>

fun all_documents :: "('w, 'x) crd_clients_scheme \<Rightarrow> hashed_file list \<Rightarrow> go_error + parsedDoc list" where
  "all_documents lib [] = Inr []"
| "all_documents lib (f # fs) =
     (case parseFileDocuments lib (hf_content f) (hf_relPath f) of
        Inl e \<Rightarrow> Inl (Wrapf ''parse %s: %w'' [ArgStr (hf_relPath f)] e)
      | Inr docs \<Rightarrow> (case all_documents lib fs of Inl e \<Rightarrow> Inl e | Inr rest \<Rightarrow> Inr (docs @ rest)))"

lemma classifyDocs_filter:
  "classifyDocs ds (cs, os) =
     (cs @ filter (\<lambda>d. isCRDDocument (pd_obj d)) ds, os @ filter (\<lambda>d. \<not> isCRDDocument (pd_obj d)) ds)"
  by (induction ds arbitrary: cs os) simp_all

lemma classifyFiles_filter:
  "classifyFiles lib fs (cs, os) =
     (case all_documents lib fs of
        Inl e \<Rightarrow> Inl e
      | Inr docs \<Rightarrow>
          Inr (cs @ filter (\<lambda>d. isCRDDocument (pd_obj d)) docs, os @ filter (\<lambda>d. \<not> isCRDDocument (pd_obj d)) docs))"
  by (induction fs arbitrary: cs os) (auto simp: classifyDocs_filter split: sum.splits)

text \<open>Which document of which file each parsed document is.\<close>

lemma parseLoop_ok:
  "parseLoop lib rp e n raws docs = Inr ds \<Longrightarrow>
     errors_Is e (Std IoEOF) \<and>
     (\<exists>objs. ds = docs @ map (\<lambda>obj. \<lparr>pd_obj = obj, pd_relPath = rp\<rparr>) objs \<and>
        map Inr objs = map (cl_decode lib) (filter (\<lambda>raw. \<not> blank raw) raws) \<and> (\<forall>obj \<in> set objs. u_kind obj \<noteq> ''''))"
proof (induction raws arbitrary: n docs)
  case (Cons raw raws)
  show ?case
  proof (cases "blank raw")
    case True
    with Cons show ?thesis by simp
  next
    case False
    with Cons.prems obtain obj where obj: "cl_decode lib raw = Inr obj" "u_kind obj \<noteq> ''''"
      by (auto split: sum.splits if_splits)
    with False Cons.prems Cons.IH [of "Suc n" "docs @ [\<lparr>pd_obj = obj, pd_relPath = rp\<rparr>]"]
    obtain objs where "errors_Is e (Std IoEOF)" "ds = docs @ map (\<lambda>obj. \<lparr>pd_obj = obj, pd_relPath = rp\<rparr>) (obj # objs)"
      "map Inr objs = map (cl_decode lib) (filter (\<lambda>raw. \<not> blank raw) raws)" "\<forall>obj \<in> set objs. u_kind obj \<noteq> ''''"
      by auto
    with obj False show ?thesis by (intro conjI exI [of _ "obj # objs"]) simp_all
  qed
qed (simp split: if_splits)

lemma parseLoop_complete:
  "errors_Is e (Std IoEOF) \<Longrightarrow> map Inr objs = map (cl_decode lib) (filter (\<lambda>raw. \<not> blank raw) raws) \<Longrightarrow>
     \<forall>obj \<in> set objs. u_kind obj \<noteq> '''' \<Longrightarrow>
     parseLoop lib rp e n raws docs = Inr (docs @ map (\<lambda>obj. \<lparr>pd_obj = obj, pd_relPath = rp\<rparr>) objs)"
proof (induction raws arbitrary: n docs objs)
  case (Cons raw raws)
  show ?case
  proof (cases "blank raw")
    case True
    with Cons show ?thesis by simp
  next
    case False
    with Cons.prems(2) obtain obj rest where o: "objs = obj # rest" "cl_decode lib raw = Inr obj"
      "map Inr rest = map (cl_decode lib) (filter (\<lambda>raw. \<not> blank raw) raws)" by (cases objs) auto
    with Cons.prems Cons.IH [of rest] False show ?thesis by simp
  qed
qed simp

text \<open>A file parses exactly when the reader reaches its end, every document that is not blank decodes and
  every decoded object has a kind; the result is then those objects in order, each with the path of
  the file.\<close>

theorem parseFileDocuments_spec:
  "parseFileDocuments lib content rp = Inr ds \<longleftrightarrow>
     errors_Is (snd (cl_yaml_docs lib content)) (Std IoEOF) \<and>
     (\<exists>objs. ds = map (\<lambda>obj. \<lparr>pd_obj = obj, pd_relPath = rp\<rparr>) objs \<and>
        map Inr objs = map (cl_decode lib) (filter (\<lambda>raw. \<not> blank raw) (fst (cl_yaml_docs lib content))) \<and>
        list_all (\<lambda>obj. u_kind obj \<noteq> '''') objs)"
proof -
  obtain raws e where docs: "cl_yaml_docs lib content = (raws, e)" by fastforce
  show ?thesis
    using parseLoop_ok [of lib rp e 1 raws "[]" ds] parseLoop_complete [of e _ lib raws rp 1 "[]"]
    by (auto simp: parseFileDocuments_def docs list_all_iff)
qed

text \<open>\<^verbatim>\<open>classifyDocuments\<close> is the stable partition of the documents of all the files, in order; it fails at the
  first file that does not parse, with that file's name.\<close>

theorem classifyDocuments_partition:
  "classifyDocuments lib files =
     (case all_documents lib files of
        Inl e \<Rightarrow> Inl e
      | Inr docs \<Rightarrow>
          Inr (filter (\<lambda>d. isCRDDocument (pd_obj d)) docs, filter (\<lambda>d. \<not> isCRDDocument (pd_obj d)) docs))"
  by (simp add: classifyDocuments_def classifyFiles_filter split: sum.splits)

subsection \<open>Discovery\<close>

text \<open>The rounds of discovery a world has seen: only \<^verbatim>\<open>GetAPIGroupResources\<close> adds one.\<close>

definition rounds_law :: "('w \<Rightarrow> nat) \<Rightarrow> ('w, 'x) crd_clients_scheme \<Rightarrow> 'w os \<Rightarrow> bool" where
  "rounds_law R lib sys \<longleftrightarrow>
     (\<forall>cl w. R (snd (cl_group_resources lib cl w)) = Suc (R w)) \<and> (\<forall>c d w. R (snd (os_wait_timer sys c d w)) = R w)"

lemma rounds_lawD:
  assumes "rounds_law R lib sys"
  shows "cl_group_resources lib cl w = (r, w') \<Longrightarrow> R w' = Suc (R w)"
    and "os_wait_timer sys c d w = (b, w') \<Longrightarrow> R w' = R w"
  using assms unfolding rounds_law_def by (metis snd_conv)+

lemma refresh_rounds:
  "rounds_law R lib sys \<Longrightarrow> refresh lib dm w = (e, dm', w') \<Longrightarrow> R w' = Suc (R w)"
  by (auto simp: refresh_def dest: rounds_lawD(1) split: prod.splits sum.splits)

lemma discoveryLoop_post:
  assumes "rounds_law R lib sys"
  shows "discoveryLoop lib sys c gvk n le dm w = (res, dm', w') \<Longrightarrow>
    R w' \<le> R w + n \<and> (\<forall>m. res = Inr m \<longrightarrow> dm_mapper dm' (GroupKind gvk) (fst (snd gvk)) = Inr m)"
proof (induction n arbitrary: le dm w)
  case (Suc n)
  obtain e dm1 w1 where r: "refresh lib dm w = (e, dm1, w1)" by (metis prod_cases3)
  obtain b w2 where t: "os_wait_timer sys c discoveryRetryDelay w1 = (b, w2)" by fastforce
  have R: "R w1 = Suc (R w)" "R w2 = R w1"
    using refresh_rounds [OF assms r] rounds_lawD(2) [OF assms t] by simp_all
  from Suc r t R show ?case
    by (cases e; cases b) (auto simp: RESTMapping_def split: if_splits sum.splits dest!: Suc.IH)
qed (auto split: if_splits)

text \<open>Resolving a kind that the cached mapper knows asks the API server nothing; otherwise the server
  is asked at most five times, whatever it answers. The mapping returned is the one the mapper then
  cached holds for the kind and version.\<close>

theorem discoverRESTMapping_bounded:
  assumes "rounds_law R lib sys" and "discoverRESTMapping lib sys c dm gvk w = (res, dm', w')"
  shows "R w' \<le> R w + discoveryRetryCount \<and>
    (\<forall>m. res = Inr m \<longrightarrow> dm_mapper dm' (GroupKind gvk) (fst (snd gvk)) = Inr m) \<and>
    (\<forall>m. dm_mapper dm (GroupKind gvk) (fst (snd gvk)) = Inr m \<longrightarrow> res = Inr m \<and> dm' = dm \<and> w' = w)"
  using assms discoveryLoop_post [OF assms(1), of c gvk discoveryRetryCount]
  by (auto simp: discoverRESTMapping_def RESTMapping_def split: if_splits sum.splits)

text \<open>The other half: a kind that becomes visible in time is found.\<close>

definition visible_from :: "('w \<Rightarrow> nat) \<Rightarrow> nat \<Rightarrow> ('w, 'x) crd_clients_scheme \<Rightarrow> gvk \<Rightarrow> bool" where
  "visible_from R N lib gvk \<longleftrightarrow>
     (\<forall>cl w. \<exists>gr w'. cl_group_resources lib cl w = (Inr gr, w') \<and>
        (if N \<le> R w' then \<exists>m. cl_rest_mapper lib gr (GroupKind gvk) (fst (snd gvk)) = Inr m
         else \<exists>e. cl_rest_mapper lib gr (GroupKind gvk) (fst (snd gvk)) = Inl e \<and> cl_is_no_match lib e))"

definition unhurried :: "'w os \<Rightarrow> ctx \<Rightarrow> bool" where
  "unhurried sys c \<longleftrightarrow> (\<forall>w. os_ctx_err sys c w = None) \<and> (\<forall>d w. fst (os_wait_timer sys c d w))"

lemma discoveryLoop_finds:
  assumes "rounds_law R lib sys" and "visible_from R N lib gvk" and "unhurried sys c"
  shows "N \<le> R w + n \<Longrightarrow> 0 < n \<Longrightarrow> \<exists>m dm' w'. discoveryLoop lib sys c gvk n le dm w = (Inr m, dm', w')"
proof (induction n arbitrary: le dm w)
  case (Suc n)
  from assms(2) obtain gr w1 where g: "cl_group_resources lib (dm_discClient dm) w = (Inr gr, w1)"
    and vis: "if N \<le> R w1 then \<exists>m. cl_rest_mapper lib gr (GroupKind gvk) (fst (snd gvk)) = Inr m
         else \<exists>e. cl_rest_mapper lib gr (GroupKind gvk) (fst (snd gvk)) = Inl e \<and> cl_is_no_match lib e"
    unfolding visible_from_def by meson
  have R: "R w1 = Suc (R w)" by (rule rounds_lawD(1) [OF assms(1) g])
  have c: "os_ctx_err sys c w = None" using assms(3) by (simp add: unhurried_def)
  obtain w2 where t: "os_wait_timer sys c discoveryRetryDelay w1 = (True, w2)"
    using assms(3) by (metis (full_types) unhurried_def prod.collapse)
  show ?case
  proof (cases "N \<le> R w1")
    case True
    with vis g c show ?thesis by (auto simp: refresh_def RESTMapping_def)
  next
    case False
    with Suc.prems(1) R have "0 < n" "N \<le> R w2 + n" using rounds_lawD(2) [OF assms(1) t] by simp_all
    with Suc.IH [of w2] False vis g c t show ?thesis by (auto simp: refresh_def RESTMapping_def)
  qed
qed simp

text \<open>C22. A kind the cached mapper does not know is found, although the cached mapper is stale, when the API
  server shows it within five rounds of discovery and the context lasts.\<close>

theorem discoverRESTMapping_finds:
  assumes "rounds_law R lib sys" and "visible_from R N lib gvk" and "unhurried sys c" and "N \<le> R w + discoveryRetryCount"
    and "dm_mapper dm (GroupKind gvk) (fst (snd gvk)) = Inl e" and "cl_is_no_match lib e"
  shows "\<exists>m dm' w'. discoverRESTMapping lib sys c dm gvk w = (Inr m, dm', w')"
  using assms(5,6) discoveryLoop_finds [OF assms(1-4)]
  by (simp add: discoverRESTMapping_def RESTMapping_def discoveryRetryCount_def)

subsection \<open>What reaches the API server\<close>

text \<open>The requests a world has seen: only a \<^verbatim>\<open>Patch\<close> adds one, its name and its body.\<close>

definition patch_law ::
  "('w \<Rightarrow> (string \<times> string) list) \<Rightarrow> ('w, 'x) crd_clients_scheme \<Rightarrow> 'w os \<Rightarrow> bool" where
  "patch_law T lib sys \<longleftrightarrow>
     (\<forall>cl c rs ns name data fm w w'. cl_patch lib cl c rs ns name data fm w = (None, w') \<longrightarrow> T w' = T w @ [(name, data)]) \<and>
     (\<forall>cl w. T (snd (cl_group_resources lib cl w)) = T w) \<and>
     (\<forall>c d w. T (snd (os_wait_timer sys c d w)) = T w) \<and>
     (\<forall>c w. T (snd (os_ctx_with_cancel sys c w)) = T w) \<and> (\<forall>c w. T (os_ctx_cancel sys c w) = T w)"

lemma patch_lawD:
  assumes "patch_law T lib sys"
  shows "cl_patch lib cl c rs ns name data fm w = (None, w') \<Longrightarrow> T w' = T w @ [(name, data)]"
    and "cl_group_resources lib cl w = (r, w') \<Longrightarrow> T w' = T w"
    and "os_wait_timer sys c d w = (b, w') \<Longrightarrow> T w' = T w"
    and "os_ctx_with_cancel sys c w = (c', w') \<Longrightarrow> T w' = T w"
    and "T (os_ctx_cancel sys c w) = T w"
  using assms unfolding patch_law_def by (blast, metis snd_conv, metis snd_conv, metis snd_conv, blast)

lemma refresh_quiet: "patch_law T lib sys \<Longrightarrow> refresh lib dm w = (e, dm', w') \<Longrightarrow> T w' = T w"
  by (auto simp: refresh_def dest: patch_lawD(2) split: prod.splits sum.splits)

lemma discoveryLoop_quiet:
  assumes "patch_law T lib sys"
  shows "discoveryLoop lib sys c gvk n le dm w = (res, dm', w') \<Longrightarrow> T w' = T w"
proof (induction n arbitrary: le dm w)
  case (Suc n)
  obtain e dm1 w1 where r: "refresh lib dm w = (e, dm1, w1)" by (metis prod_cases3)
  obtain b w2 where t: "os_wait_timer sys c discoveryRetryDelay w1 = (b, w2)" by fastforce
  have "T w1 = T w" "T w2 = T w1" using refresh_quiet [OF assms r] patch_lawD(3) [OF assms t] by simp_all
  with Suc r t show ?case by (cases e; cases b) (auto split: if_splits sum.splits dest!: Suc.IH)
qed (auto split: if_splits)

lemma discoverRESTMapping_quiet:
  "patch_law T lib sys \<Longrightarrow> discoverRESTMapping lib sys c dm gvk w = (res, dm', w') \<Longrightarrow> T w' = T w"
  by (auto simp: discoverRESTMapping_def dest: discoveryLoop_quiet split: sum.splits if_splits)

text \<open>The request of a document: its name, and the object without managed fields and resource version.\<close>

definition request :: "('w, 'x) crd_clients_scheme \<Rightarrow> parsedDoc \<Rightarrow> string \<times> string" where
  "request lib d = (u_name (pd_obj d), case cl_marshal lib (clean_obj (pd_obj d)) of Inr data \<Rightarrow> data | Inl e \<Rightarrow> '''')"

lemma applyParsedDocument_ok:
  assumes "patch_law T lib sys" and "applyParsedDocument lib sys c cl d dm w = (None, dm', w')"
  shows "T w' = T w @ [request lib d]"
proof -
  obtain r dm1 w1 where m: "discoverRESTMapping lib sys c dm (GroupVersionKind (pd_obj d)) w = (r, dm1, w1)"
    by (metis prod_cases3)
  from assms(2) m show ?thesis
    by (auto simp: applyParsedDocument_def Let_def request_def clean_obj_def split: sum.splits prod.splits option.splits
        dest!: patch_lawD(1) [OF assms(1)] discoverRESTMapping_quiet [OF assms(1)])
qed

lemma applyGroup_ok:
  assumes "patch_law T lib sys"
  shows "applyGroup lib sys g cl ds err dm w = (None, dm', w') \<Longrightarrow> err = None \<and> T w' = T w @ map (request lib) ds"
proof (induction ds arbitrary: err dm w)
  case (Cons d ds)
  obtain r dm1 w1 where a: "applyParsedDocument lib sys g cl d dm w = (r, dm1, w1)" by (metis prod_cases3)
  with Cons applyParsedDocument_ok [OF assms] show ?case
    by (cases r; cases err) (auto dest!: Cons.IH)
qed (use patch_lawD(5) [OF assms] in auto)

lemma applyInOrder_ok:
  assumes "patch_law T lib sys"
  shows "applyInOrder lib sys c cl ds dm w = (None, w') \<Longrightarrow> T w' = T w @ map (request lib) ds"
proof (induction ds arbitrary: dm w)
  case (Cons d ds)
  obtain r dm1 w1 where a: "applyParsedDocument lib sys c cl d dm w = (r, dm1, w1)" by (metis prod_cases3)
  with Cons applyParsedDocument_ok [OF assms] show ?case by (cases r) (auto dest!: Cons.IH)
qed simp

lemma newDiscoveryMapper_quiet:
  "patch_law T lib sys \<Longrightarrow> newDiscoveryMapper lib cl w = (r, w') \<Longrightarrow> T w' = T w"
  by (auto simp: newDiscoveryMapper_def dest: refresh_quiet split: prod.splits option.splits)

text \<open>C18. When \<^verbatim>\<open>applyYAMLFiles\<close> succeeds, every document of every file was applied exactly once, all the CRDs (in
  the order their goroutines ran) before every other document, and the others in the order of the
  files. When a document anywhere does not parse, nothing is applied.\<close>

theorem applyYAMLFiles_applies:
  assumes "patch_law T lib sys" and "\<And>xs. mset (sched xs) = mset xs"
    and "applyYAMLFiles lib sys sched c restCfg files w = (res, w')"
  shows "(res = None \<longrightarrow> (\<exists>docs. all_documents lib files = Inr docs \<and> length files \<le> maxYAMLFiles \<and>
      T w' = T w @ map (request lib)
        (sched (filter (\<lambda>d. isCRDDocument (pd_obj d)) docs) @ filter (\<lambda>d. \<not> isCRDDocument (pd_obj d)) docs))) \<and>
    (\<forall>e. all_documents lib files = Inl e \<longrightarrow> res \<noteq> None \<and> T w' = T w)"
proof (intro conjI impI allI)
  have Nil: "sched [] = []" using assms(2) [of "[]"] by simp
  note rules = applyInOrder_ok [OF assms(1)] applyGroup_ok [OF assms(1)] newDiscoveryMapper_quiet [OF assms(1)]
    patch_lawD(4) [OF assms(1)]
  {
    assume "res = None"
    with assms(3) show "\<exists>docs. all_documents lib files = Inr docs \<and> length files \<le> maxYAMLFiles \<and>
      T w' = T w @ map (request lib)
        (sched (filter (\<lambda>d. isCRDDocument (pd_obj d)) docs) @ filter (\<lambda>d. \<not> isCRDDocument (pd_obj d)) docs)"
      by (auto simp: applyYAMLFiles_def Let_def classifyDocuments_def classifyFiles_filter Nil
          split: if_splits sum.splits prod.splits option.splits dest!: rules)
  next
    fix e
    assume "all_documents lib files = Inl e"
    with assms(3) show "res \<noteq> None" "T w' = T w"
      by (auto simp: applyYAMLFiles_def Let_def classifyDocuments_def classifyFiles_filter
          split: if_splits sum.splits prod.splits dest: rules(3))
  }
qed

subsection \<open>A cluster\<close>

text \<open>A server that shows the kind Widget from its third discovery on, with the requests it has seen.\<close>

definition sample_obj :: "string \<Rightarrow> u_obj" where
  "sample_obj name =
     \<lparr>u_group = (if name = ''widgets'' then ''apiextensions.k8s.io'' else ''example.com''), u_version = ''v1'',
      u_kind = (if name = ''widgets'' then ''CustomResourceDefinition'' else ''Widget''), u_namespace = '''', u_name = name,
      u_managedFields = Some ''m'', u_resourceVersion = ''7'', u_rest = ''''\<rparr>"

definition no_match :: go_error where "no_match = Sentinel ''no matches for kind''"

definition sample_mapper :: "nat \<Rightarrow> rest_mapper" where
  "sample_mapper gr gk v =
     (if fst gk = ''apiextensions.k8s.io'' then Inr \<lparr>rm_resource = ''customresourcedefinitions'', rm_namespaced = False\<rparr>
      else if 3 \<le> gr then Inr \<lparr>rm_resource = ''widgets'', rm_namespaced = True\<rparr> else Inl no_match)"

definition sample_lib :: "(nat \<times> (string \<times> string) list) crd_clients" where
  "sample_lib =
     \<lparr>cf_dir_tree = \<lambda>_ _. Inr sample_tree, cf_read_file = \<lambda>p _. Inr ''widgets'', cf_sha256_hex = \<lambda>s. replicate 64 (CHR ''0''),
      cl_yaml_docs = \<lambda>content. (['' '', content], Std IoEOF), cl_decode = \<lambda>raw. Inr (sample_obj raw),
      cl_is_missing_kind = \<lambda>_. False, cl_error_string = \<lambda>_. '''', cl_new_dynamic = \<lambda>_. Inr 1, cl_new_discovery = \<lambda>_. Inr 2,
      cl_group_resources = \<lambda>_ (n, T). (Inr (Suc n), (Suc n, T)), cl_rest_mapper = sample_mapper,
      cl_is_no_match = \<lambda>e. e = no_match,
      cl_marshal = \<lambda>obj. Inr (u_name obj @ u_resourceVersion obj),
      cl_patch = \<lambda>_ _ _ _ name data _ (n, T). (None, (n, T @ [(name, data)])), cl_cause = \<lambda>_ _. Std CtxCanceled\<rparr>"

lemma sample_lib_laws:
  "rounds_law fst sample_lib quiet_os" "patch_law snd sample_lib quiet_os" "unhurried quiet_os c"
  by (auto simp: rounds_law_def patch_law_def unhurried_def sample_lib_def quiet_os_def)

definition sample_dm :: discoveryMapper where
  "sample_dm = \<lparr>dm_mapper = sample_mapper 1, dm_discClient = 2\<rparr>"

definition widget_gvk :: gvk where "widget_gvk = (''example.com'', ''v1'', ''Widget'')"

theorem discoverRESTMapping_bounded_witness:
  "\<exists>m dm' w'. discoverRESTMapping sample_lib quiet_os 0 sample_dm widget_gvk (0, []) = (Inr m, dm', w') \<and>
     fst w' = 3 \<and> fst w' \<le> 0 + discoveryRetryCount"
proof -
  obtain res dm' w' where run: "discoverRESTMapping sample_lib quiet_os 0 sample_dm widget_gvk (0, []) = (res, dm', w')"
    by (metis prod_cases3)
  moreover from run have "\<exists>m. res = Inr m" "fst w' = 3"
    by (auto simp: discoverRESTMapping_def RESTMapping_def sample_dm_def sample_mapper_def widget_gvk_def GroupKind_def
        discoveryRetryCount_def eval_nat_numeral sample_lib_def quiet_os_def refresh_def)
  moreover from discoverRESTMapping_bounded [OF sample_lib_laws(1) run] have "fst w' \<le> 0 + discoveryRetryCount" by simp
  ultimately show ?thesis by auto
qed

theorem discoverRESTMapping_finds_witness:
  "\<exists>m dm' w'. discoverRESTMapping sample_lib quiet_os 0 sample_dm widget_gvk (0, []) = (Inr m, dm', w')"
proof (rule discoverRESTMapping_finds [OF sample_lib_laws(1) _ sample_lib_laws(3)])
  show "visible_from fst 3 sample_lib widget_gvk"
    by (auto simp: visible_from_def sample_lib_def sample_mapper_def widget_gvk_def GroupKind_def)
  show "3 \<le> fst (0, [] :: (string \<times> string) list) + discoveryRetryCount" by (simp add: discoveryRetryCount_def)
  show "dm_mapper sample_dm (GroupKind widget_gvk) (fst (snd widget_gvk)) = Inl no_match"
    by (simp add: sample_dm_def sample_mapper_def widget_gvk_def GroupKind_def)
  show "cl_is_no_match sample_lib no_match" by (simp add: sample_lib_def)
qed

definition sample_hashed :: "hashed_file list" where
  "sample_hashed = [\<lparr>hf_relPath = ''a.yaml'', hf_content = ''w1''\<rparr>, \<lparr>hf_relPath = ''b.yaml'', hf_content = ''widgets''\<rparr>]"

theorem applyYAMLFiles_applies_witness:
  "\<exists>w'. applyYAMLFiles sample_lib quiet_os rev 0 \<lparr>rc_rest = [], rc_QPS = 5, rc_Burst = 10\<rparr> sample_hashed (0, []) = (None, w') \<and>
     snd w' = [(''widgets'', ''widgets''), (''w1'', ''w1'')]"
proof -
  let ?cfg = "\<lparr>rc_rest = [], rc_QPS = 5, rc_Burst = 10\<rparr>"
  obtain res w' where run: "applyYAMLFiles sample_lib quiet_os rev 0 ?cfg sample_hashed (0, []) = (res, w')" by (metis surj_pair)
  have "fst (applyYAMLFiles sample_lib quiet_os rev 0 ?cfg sample_hashed (0, [])) = None" by code_simp
  with run have ok: "res = None" by simp
  have docs: "all_documents sample_lib sample_hashed =
      Inr [\<lparr>pd_obj = sample_obj ''w1'', pd_relPath = ''a.yaml''\<rparr>, \<lparr>pd_obj = sample_obj ''widgets'', pd_relPath = ''b.yaml''\<rparr>]"
    by code_simp
  from applyYAMLFiles_applies [OF sample_lib_laws(2) _ run] ok docs
  have "snd w' = map (request sample_lib)
      [\<lparr>pd_obj = sample_obj ''widgets'', pd_relPath = ''b.yaml''\<rparr>, \<lparr>pd_obj = sample_obj ''w1'', pd_relPath = ''a.yaml''\<rparr>]"
    by (auto simp: isCRDDocument_def sample_obj_def apiextensions_GroupName_def crdKind_def)
  with run ok show ?thesis by (simp add: request_def sample_lib_def clean_obj_def sample_obj_def)
qed

end
