(* ===== verification/Crdcache.thy ===== *)
theory Crdcache
  imports Crdapply Kubestack
begin

text \<open>
  \<^verbatim>\<open>internal/crdcache/cache.go\<close> and \<^verbatim>\<open>lock.go\<close>: the CRD cache. A cache file named after the hash of the CRD
  directory is used when it exists; otherwise it is built under a file lock, from the database of a
  temporary kine and kube-apiserver into which the documents were applied. The wait for the CRDs is a
  loop with no bound of its own: its value is \<open>None\<close> when it does not return.
\<close>

subsection \<open>Data\<close>

record cache_config =
  ch_CRDDir :: string
  ch_CacheDir :: string
  ch_KineBinary :: string
  ch_KubeAPIServerBinary :: string
  ch_Timeout :: duration
  ch_StopTimeout :: duration
  ch_hasPortRegistry :: bool

record cache_result =
  re_CachePath :: string
  re_Hash :: string
  re_Created :: bool

record crd =
  crd_name :: string
  crd_conditions :: "(string \<times> string) list"

text \<open>
  \<^item> \<open>cc_try_lock path ctx interval\<close> is \<^verbatim>\<open>flock.New(path).TryLockContext\<close>, \<open>cc_lock_close\<close> its \<^verbatim>\<open>Close\<close>.
  \<^item> \<open>cc_tick ctx\<close> waits for the ticker or the end of the context; true means the ticker.
\<close>

record 'w crd_lib = "'w crd_clients" +
  cc_try_lock :: "string \<Rightarrow> ctx \<Rightarrow> duration \<Rightarrow> 'w \<Rightarrow> (go_error option \<times> bool) \<times> 'w"
  cc_lock_close :: "string \<Rightarrow> 'w \<Rightarrow> go_error option \<times> 'w"
  cc_mkdir_temp :: "string \<Rightarrow> string \<Rightarrow> 'w \<Rightarrow> (go_error + string) \<times> 'w"
  cc_remove_all :: "string \<Rightarrow> 'w \<Rightarrow> go_error option \<times> 'w"
  cc_new_ext :: "rest_config \<Rightarrow> go_error + nat"
  cc_list_crds :: "nat \<Rightarrow> ctx \<Rightarrow> 'w \<Rightarrow> (go_error + crd list) \<times> 'w"
  cc_tick :: "ctx \<Rightarrow> 'w \<Rightarrow> bool \<times> 'w"
  cc_now :: "'w \<Rightarrow> int"

definition fileLockRetryInterval :: duration where "fileLockRetryInterval = 50 * Millisecond"
definition maxKubestackStartRetries :: int where "maxKubestackStartRetries = 3"
definition crdEstablishmentQPS :: int where "crdEstablishmentQPS = 50"
definition crdEstablishmentBurst :: int where "crdEstablishmentBurst = 100"
definition longWaitThreshold :: duration where "longWaitThreshold = 10 * Second"
definition defaultEstablishmentTimeout :: duration where "defaultEstablishmentTimeout = 30 * Second"
definition ErrCRDEstablishTimeout :: go_error where "ErrCRDEstablishTimeout = Sentinel ''crd establishment timeout''"

definition ch_stopTimeout :: "cache_config \<Rightarrow> duration" where
  "ch_stopTimeout cfg = ResolveStopTimeout (ch_StopTimeout cfg)"

definition ch_validate :: "cache_config \<Rightarrow> go_error option" where
  "ch_validate c = join_errs (
     err_if (ch_CRDDir c = '''') (errors_New ''crd dir must not be empty'') @
     err_if (ch_CacheDir c = '''') (errors_New ''cache dir must not be empty'') @
     err_if (ch_KineBinary c = '''') (errors_New ''kine binary path must not be empty'') @
     err_if (ch_KubeAPIServerBinary c = '''') (errors_New ''kube-apiserver binary path must not be empty'') @
     err_if (ch_Timeout c \<le> 0) (errors_New ''timeout must be positive'') @
     err_if (\<not> ch_hasPortRegistry c) (errors_New ''port registry must not be nil''))"

subsection \<open>The lock\<close>

definition acquireFileLock ::
  "('w, 'x) crd_lib_scheme \<Rightarrow> 'w os \<Rightarrow> ctx \<Rightarrow> string \<Rightarrow> 'w \<Rightarrow> (go_error + string) \<times> 'w" where
  "acquireFileLock lib sys c lockPath w =
     (case cc_try_lock lib lockPath c fileLockRetryInterval w of
        ((Some e, locked), w1) \<Rightarrow> (Inl (Wrapf ''acquiring file lock %s: %w'' [ArgStr lockPath] e), w1)
      | ((None, locked), w1) \<Rightarrow>
          (if \<not> locked
           then (case os_ctx_err sys c w1 of
                   Some ce \<Rightarrow> (Inl (Wrapf ''acquiring file lock %s: %w'' [ArgStr lockPath] (Std ce)), w1)
                 | None \<Rightarrow> (Inl (Errorf ''acquiring file lock %s: lock not acquired'' [ArgStr lockPath]), w1))
           else (Inr lockPath, w1)))"

definition releaseFileLock :: "('w, 'x) crd_lib_scheme \<Rightarrow> string \<Rightarrow> 'w \<Rightarrow> 'w" where
  "releaseFileLock lib fl w = snd (cc_lock_close lib fl w)"

subsection \<open>Establishment\<close>

definition isCRDEstablished :: "crd \<Rightarrow> bool" where
  "isCRDEstablished c = list_ex (\<lambda>(typ, status). typ = ''Established'' \<and> status = ''True'') (crd_conditions c)"

definition findPendingCRDs :: "crd list \<Rightarrow> string list" where
  "findPendingCRDs items = map crd_name (filter (\<lambda>c. \<not> isCRDEstablished c) items)"

text \<open>\<^verbatim>\<open>Duration.Round\<close> to milliseconds, on a duration that is not negative.\<close>

definition round_ms :: "duration \<Rightarrow> duration" where
  "round_ms d = (let r = d mod Millisecond in if r + r < Millisecond then d - r else d + Millisecond - r)"

definition logCRDEstablishmentProgress :: "duration \<Rightarrow> bool \<Rightarrow> bool" where
  "logCRDEstablishmentProgress elapsed warned = (warned \<or> longWaitThreshold \<le> elapsed)"

partial_function (option) establishLoop ::
  "('w, 'x) crd_lib_scheme \<Rightarrow> nat \<Rightarrow> ctx \<Rightarrow> int \<Rightarrow> bool \<Rightarrow> 'w \<Rightarrow> (go_error option \<times> 'w) option" where
  "establishLoop lib extClient c startTime warned w =
     (case cc_list_crds lib extClient c w of
        (Inl e, w1) \<Rightarrow> Some (Some (Wrapf ''list CRDs: %w'' [] e), w1)
      | (Inr items, w1) \<Rightarrow>
          (if findPendingCRDs items = [] then Some (None, w1)
           else (case cc_tick lib c w1 of
                   (ticked, w2) \<Rightarrow>
                     (if \<not> ticked
                      then Some (Some (Wrapf ''crd establishment did not complete after %s: pending CRDs: %v: %w''
                                   [ArgDur (round_ms (cc_now lib w2 - startTime)), ArgStrs (findPendingCRDs items)]
                                   ErrCRDEstablishTimeout), w2)
                      else establishLoop lib extClient c startTime
                             (logCRDEstablishmentProgress (cc_now lib w1 - startTime) warned) w2))))"

declare establishLoop.simps [code]

definition waitForCRDsEstablished ::
  "('w, 'x) crd_lib_scheme \<Rightarrow> 'w os \<Rightarrow> ctx \<Rightarrow> rest_config \<Rightarrow> 'w \<Rightarrow> (go_error option \<times> 'w) option" where
  "waitForCRDsEstablished lib sys c restCfg w =
     (case (if os_ctx_remaining sys c w = None then os_ctx_with_timeout sys c defaultEstablishmentTimeout w else (c, w)) of
        (c1, w1) \<Rightarrow>
          (case (case cc_new_ext lib (restCfg\<lparr>rc_QPS := crdEstablishmentQPS, rc_Burst := crdEstablishmentBurst\<rparr>) of
                   Inl e \<Rightarrow> Some (Some (Wrapf ''create apiextensions client: %w'' [] e), w1)
                 | Inr extClient \<Rightarrow> establishLoop lib extClient c1 (cc_now lib w1) False w1) of
             None \<Rightarrow> None
           | Some (res, w2) \<Rightarrow>
               Some (res, if os_ctx_remaining sys c w = None then os_ctx_cancel sys c1 w2 else w2)))"

definition applyCRDs ::
  "('w, 'x) crd_lib_scheme \<Rightarrow> 'w os \<Rightarrow> (parsedDoc list \<Rightarrow> parsedDoc list) \<Rightarrow> ctx \<Rightarrow> string \<Rightarrow> hashed_file list \<Rightarrow> 'w \<Rightarrow>
   (go_error option \<times> 'w) option" where
  "applyCRDs lib sys sched c kubeconfigPath files w =
     (case os_build_config sys kubeconfigPath w of
        (Inl e, w1) \<Rightarrow> Some (Some (Wrapf ''build rest config: %w'' [] e), w1)
      | (Inr restCfg, w1) \<Rightarrow>
          (case applyYAMLFiles lib sys sched c restCfg files w1 of
             (Some e, w2) \<Rightarrow> Some (Some (Wrapf ''apply yaml files: %w'' [] e), w2)
           | (None, w2) \<Rightarrow>
               (case waitForCRDsEstablished lib sys c restCfg w2 of
                  None \<Rightarrow> None
                | Some (Some e, w3) \<Rightarrow> Some (Some (Wrapf ''wait for CRDs established: %w'' [] e), w3)
                | Some (None, w3) \<Rightarrow> Some (None, w3))))"

subsection \<open>Building the cache\<close>

text \<open>The closure \<^verbatim>\<open>stopStack\<close>: the stack, whether \<^verbatim>\<open>stopOnce\<close> ran, and \<^verbatim>\<open>stopErr\<close>.\<close>

record stop_once =
  so_stack :: stack
  so_done :: bool
  so_err :: "go_error option"

definition stopStack ::
  "'w os \<Rightarrow> duration \<Rightarrow> stop_once \<Rightarrow> port_registry \<Rightarrow> 'w \<Rightarrow> go_error option \<times> stop_once \<times> port_registry \<times> 'w" where
  "stopStack sys timeout so r w =
     (if so_done so then (so_err so, so, r, w)
      else (case stack_Stop sys (so_stack so) timeout r w of
              (e, s, r1, w1) \<Rightarrow>
                (let err = map_option (Wrapf ''stop kube stack: %w'' []) e
                 in (err, \<lparr>so_stack = s, so_done = True, so_err = err\<rparr>, r1, w1))))"

text \<open>What \<^verbatim>\<open>populateCache\<close> does between the start of the stack and its deferred calls.\<close>

definition fillCache ::
  "('w, 'x) crd_lib_scheme \<Rightarrow> 'w os \<Rightarrow> (parsedDoc list \<Rightarrow> parsedDoc list) \<Rightarrow> ctx \<Rightarrow> duration \<Rightarrow> string \<Rightarrow> string \<Rightarrow>
   string \<Rightarrow> hashed_file list \<Rightarrow> stop_once \<Rightarrow> port_registry \<Rightarrow> 'w \<Rightarrow>
   (go_error option \<times> stop_once \<times> port_registry \<times> 'w) option" where
  "fillCache lib sys sched timeoutCtx stopTimeout sqlitePath kubeconfigPath cachePath files so r w =
     (case applyCRDs lib sys sched timeoutCtx kubeconfigPath files w of
        None \<Rightarrow> None
      | Some (Some e, w1) \<Rightarrow> Some (Some e, so, r, w1)
      | Some (None, w1) \<Rightarrow>
          (case stopStack sys stopTimeout so r w1 of
             (Some e, so1, r1, w2) \<Rightarrow> Some (Some e, so1, r1, w2)
           | (None, so1, r1, w2) \<Rightarrow>
               (case CopyFile sys sqlitePath cachePath (Some \<lparr>cp_Mode = 0, cp_Sync = True, cp_Atomic = True\<rparr>) w2 of
                  (Some e, w3) \<Rightarrow> Some (Some (Wrapf ''copy db to cache: %w'' [] e), so1, r1, w3)
                | (None, w3) \<Rightarrow> Some (None, so1, r1, w3))))"

definition cache_stack_config :: "cache_config \<Rightarrow> string \<Rightarrow> string \<Rightarrow> string \<Rightarrow> stack_config" where
  "cache_stack_config cfg tempDir sqlitePath kubeconfigPath =
     \<lparr>ks_DataDir = tempDir, ks_SQLitePath = sqlitePath, ks_KubeconfigPath = kubeconfigPath,
      ks_KineBinary = ch_KineBinary cfg, ks_APIServerBinary = ch_KubeAPIServerBinary cfg, ks_CachedDBPath = '''',
      ks_KineReadyTimeout = ch_Timeout cfg, ks_APIServerReadyTimeout = ch_Timeout cfg,
      ks_StopTimeout = ch_stopTimeout cfg, ks_hasPortRegistry = ch_hasPortRegistry cfg\<rparr>"

definition populateCache ::
  "('w, 'x) crd_lib_scheme \<Rightarrow> 'w os \<Rightarrow> (kine_process, api_process, 'w) errgroup \<Rightarrow> (parsedDoc list \<Rightarrow> parsedDoc list) \<Rightarrow>
   ctx \<Rightarrow> cache_config \<Rightarrow> string \<Rightarrow> string \<Rightarrow> hashed_file list \<Rightarrow> port_registry \<Rightarrow> 'w \<Rightarrow>
   (go_error option \<times> port_registry \<times> 'w) option" where
  "populateCache lib sys grp sched c cfg tempDir cachePath files r w =
     (let sqlitePath = filepath_Join [tempDir, ''db'', ''state.db''];
          kubeconfigPath = filepath_Join [tempDir, ''kubeconfig.yaml'']
      in case os_ctx_with_timeout sys c (ch_Timeout cfg) w of (timeoutCtx, w1) \<Rightarrow>
         (case os_ctx_with_cancel sys timeoutCtx w1 of (procCtx, w2) \<Rightarrow>
         (case StartWithRetry sys grp (Some procCtx) (Some timeoutCtx)
                 (cache_stack_config cfg tempDir sqlitePath kubeconfigPath) maxKubestackStartRetries r w2 of
            (Inl e, r1, w3) \<Rightarrow>
              Some (Some (Wrapf ''start kubestack for CRD cache: %w'' [] e), r1,
                    os_ctx_cancel sys timeoutCtx (os_ctx_cancel sys procCtx w3))
          | (Inr stack, r1, w3) \<Rightarrow>
              (case fillCache lib sys sched timeoutCtx (ch_stopTimeout cfg) sqlitePath kubeconfigPath cachePath files
                      \<lparr>so_stack = stack, so_done = False, so_err = None\<rparr> r1 w3 of
                 None \<Rightarrow> None
               | Some (res, so, r2, w4) \<Rightarrow>
                   (case stopStack sys (ch_stopTimeout cfg) so r2 w4 of (_, _, r3, w5) \<Rightarrow>
                      Some (res, r3, os_ctx_cancel sys timeoutCtx (os_ctx_cancel sys procCtx w5)))))))"

definition createCache ::
  "('w, 'x) crd_lib_scheme \<Rightarrow> 'w os \<Rightarrow> (kine_process, api_process, 'w) errgroup \<Rightarrow> (parsedDoc list \<Rightarrow> parsedDoc list) \<Rightarrow>
   ctx \<Rightarrow> cache_config \<Rightarrow> string \<Rightarrow> hashed_file list \<Rightarrow> port_registry \<Rightarrow> 'w \<Rightarrow>
   (go_error option \<times> port_registry \<times> 'w) option" where
  "createCache lib sys grp sched c cfg cachePath files r w =
     (case cc_mkdir_temp lib (ch_CacheDir cfg) ''crd-cache-build-'' w of
        (Inl e, w1) \<Rightarrow> Some (Some (Wrapf ''create temp dir: %w'' [] e), r, w1)
      | (Inr tempDir, w1) \<Rightarrow>
          (case populateCache lib sys grp sched c cfg tempDir cachePath files r w1 of
             None \<Rightarrow> None
           | Some (res, r1, w2) \<Rightarrow> Some (res, r1, snd (cc_remove_all lib tempDir w2))))"

text \<open>\<^verbatim>\<open>EnsureCache\<close> once it holds the lock.\<close>

definition ensureLocked ::
  "('w, 'x) crd_lib_scheme \<Rightarrow> 'w os \<Rightarrow> (kine_process, api_process, 'w) errgroup \<Rightarrow> (parsedDoc list \<Rightarrow> parsedDoc list) \<Rightarrow>
   ctx \<Rightarrow> cache_config \<Rightarrow> string \<Rightarrow> string \<Rightarrow> hashed_file list \<Rightarrow> port_registry \<Rightarrow> 'w \<Rightarrow>
   ((go_error + cache_result) \<times> port_registry \<times> 'w) option" where
  "ensureLocked lib sys grp sched c cfg hash cachePath files r w =
     (case os_stat sys cachePath w of
        Inr _ \<Rightarrow> Some (Inr \<lparr>re_CachePath = cachePath, re_Hash = hash, re_Created = False\<rparr>, r, w)
      | Inl e \<Rightarrow>
          (if \<not> errors_Is e (Std OsErrNotExist)
           then Some (Inl (Wrapf ''stat cache file %s after lock acquisition: %w'' [ArgStr cachePath] e), r, w)
           else (case createCache lib sys grp sched c cfg cachePath files r w of
                   None \<Rightarrow> None
                 | Some (Some e, r1, w1) \<Rightarrow> Some (Inl (Wrapf ''create cache: %w'' [] e), r1, w1)
                 | Some (None, r1, w1) \<Rightarrow>
                     Some (Inr \<lparr>re_CachePath = cachePath, re_Hash = hash, re_Created = True\<rparr>, r1, w1))))"

definition cache_path :: "cache_config \<Rightarrow> string \<Rightarrow> string" where
  "cache_path cfg hash = filepath_Join [ch_CacheDir cfg, ''cached-'' @ hash @ ''.db'']"

definition EnsureCache ::
  "('w, 'x) crd_lib_scheme \<Rightarrow> 'w os \<Rightarrow> (kine_process, api_process, 'w) errgroup \<Rightarrow> (parsedDoc list \<Rightarrow> parsedDoc list) \<Rightarrow>
   ctx \<Rightarrow> cache_config \<Rightarrow> port_registry \<Rightarrow> 'w \<Rightarrow> ((go_error + cache_result) \<times> port_registry \<times> 'w) option" where
  "EnsureCache lib sys grp sched c cfg r w =
     (case ch_validate cfg of
        Some e \<Rightarrow> Some (Inl (Wrapf ''invalid config: %w'' [] e), r, w)
      | None \<Rightarrow>
          (case computeDirHash lib (ch_CRDDir cfg) w of
             Inl e \<Rightarrow> Some (Inl (Wrapf ''compute dir hash: %w'' [] e), r, w)
           | Inr (hash, files) \<Rightarrow>
               (let cachePath = cache_path cfg hash
                in case os_stat sys cachePath w of
                     Inr _ \<Rightarrow> Some (Inr \<lparr>re_CachePath = cachePath, re_Hash = hash, re_Created = False\<rparr>, r, w)
                   | Inl e \<Rightarrow>
                       (if \<not> errors_Is e (Std OsErrNotExist)
                        then Some (Inl (Wrapf ''stat cache file %s: %w'' [ArgStr cachePath] e), r, w)
                        else (case acquireFileLock lib sys c (cachePath @ ''.lock'') w of
                                (Inl e, w1) \<Rightarrow> Some (Inl (Wrapf ''acquire lock: %w'' [] e), r, w1)
                              | (Inr lock, w1) \<Rightarrow>
                                  (case ensureLocked lib sys grp sched c cfg hash cachePath files r w1 of
                                     None \<Rightarrow> None
                                   | Some (res, r1, w2) \<Rightarrow> Some (res, r1, releaseFileLock lib lock w2)))))))"

subsection \<open>The wait for the CRDs\<close>

text \<open>
  Time and deadlines: \<open>clk\<close> is the clock and \<open>D\<close> the deadline of a context. A deadline does not move, a
  request under a context whose deadline has passed fails, and time goes on between two ticks.
\<close>

definition deadline_law ::
  "('w \<Rightarrow> int) \<Rightarrow> ('w \<Rightarrow> ctx \<Rightarrow> int option) \<Rightarrow> ('w, 'x) crd_lib_scheme \<Rightarrow> 'w os \<Rightarrow> bool" where
  "deadline_law clk D lib sys \<longleftrightarrow>
     (\<forall>c w. os_ctx_remaining sys c w = map_option (\<lambda>d. d - clk w) (D w c)) \<and>
     (\<forall>c d w c' w'. os_ctx_with_timeout sys c d w = (c', w') \<longrightarrow> D w' c' \<noteq> None) \<and>
     (\<forall>cl c w res w'. cc_list_crds lib cl c w = (res, w') \<longrightarrow>
        D w' = D w \<and> clk w \<le> clk w' \<and> (\<forall>d. D w c = Some d \<and> d \<le> clk w \<longrightarrow> (\<exists>e. res = Inl e))) \<and>
     (\<forall>c w b w'. cc_tick lib c w = (b, w') \<longrightarrow> D w' = D w \<and> (b \<longrightarrow> clk w < clk w'))"

lemma deadline_lawD:
  assumes "deadline_law clk D lib sys"
  shows "os_ctx_remaining sys c w = map_option (\<lambda>d. d - clk w) (D w c)"
    and "os_ctx_with_timeout sys c t w = (c', w') \<Longrightarrow> D w' c' \<noteq> None"
    and "cc_list_crds lib cl c w = (res, w') \<Longrightarrow> D w' = D w \<and> clk w \<le> clk w'"
    and "cc_list_crds lib cl c w = (Inr items, w') \<Longrightarrow> D w c = Some d \<Longrightarrow> clk w < d"
    and "cc_tick lib c w = (b, w') \<Longrightarrow> D w' = D w \<and> (b \<longrightarrow> clk w < clk w')"
  using assms unfolding deadline_law_def by (blast, blast, blast, metis Inl_Inr_False not_le, blast)

lemma establishLoop_returns:
  assumes law: "deadline_law clk D lib sys"
  shows "D w c = Some d \<Longrightarrow> \<exists>res. establishLoop lib cl c st warned w = Some res"
proof (induction "nat (d - clk w)" arbitrary: w warned rule: less_induct)
  case less
  obtain l w1 where l: "cc_list_crds lib cl c w = (l, w1)" by fastforce
  obtain b w2 where t: "cc_tick lib c w1 = (b, w2)" by fastforce
  show ?case
  proof (cases l)
    case (Inl e)
    with l show ?thesis by (simp add: establishLoop.simps [of lib cl c st warned w])
  next
    case (Inr items)
    have "D w2 c = Some d" "clk w < d" "b \<longrightarrow> clk w < clk w2"
      using deadline_lawD(3) [OF law l] deadline_lawD(4) [OF law l [unfolded Inr] less.prems]
        deadline_lawD(5) [OF law t] less.prems by auto
    then have "b \<longrightarrow> (\<exists>res. establishLoop lib cl c st (logCRDEstablishmentProgress (cc_now lib w1 - st) warned) w2 = Some res)"
      using less.hyps [of w2] by simp
    with Inr l t show ?thesis by (simp add: establishLoop.simps [of lib cl c st warned w])
  qed
qed

lemma waitForCRDsEstablished_total:
  assumes law: "deadline_law clk D lib sys"
  shows "\<exists>res. waitForCRDsEstablished lib sys c cfg w = Some res"
proof -
  let ?t = "os_ctx_remaining sys c w = None"
  obtain c1 w1 where c1: "(if ?t then os_ctx_with_timeout sys c defaultEstablishmentTimeout w else (c, w)) = (c1, w1)"
    by fastforce
  have "D w1 c1 \<noteq> None"
  proof (cases ?t)
    case True
    with c1 deadline_lawD(2) [OF law, of c defaultEstablishmentTimeout w c1 w1] show ?thesis by simp
  next
    case False
    with c1 deadline_lawD(1) [OF law, of c w] show ?thesis by auto
  qed
  then obtain d where "D w1 c1 = Some d" by auto
  from establishLoop_returns [OF law this] c1 show ?thesis
    by (auto simp: waitForCRDsEstablished_def split: sum.splits option.splits) (metis option.distinct(1))
qed

text \<open>The last list that was read, when the loop returns without an error.\<close>

definition established_at :: "('w, 'x) crd_lib_scheme \<Rightarrow> nat \<Rightarrow> ctx \<Rightarrow> go_error option \<times> 'w \<Rightarrow> bool" where
  "established_at lib cl c out \<longleftrightarrow>
     (fst out = None \<longrightarrow>
        (\<exists>items v. cc_list_crds lib cl c v = (Inr items, snd out) \<and> (\<forall>crd \<in> set items. isCRDEstablished crd)))"

lemma establishLoop_ok:
  assumes "establishLoop lib cl c st warned w = Some out"
  shows "established_at lib cl c out"
proof (rule establishLoop.raw_induct [of "\<lambda>lib cl c st warned w out. established_at lib cl c out", OF _ assms])
  fix loop lib cl c st warned w out
  assume IH: "\<And>lib cl c st warned w out. loop lib cl c st warned w = Some out \<Longrightarrow> established_at lib cl c out"
    and step: "(case cc_list_crds lib cl c w of
        (Inl e, w1) \<Rightarrow> Some (Some (Wrapf ''list CRDs: %w'' [] e), w1)
      | (Inr items, w1) \<Rightarrow>
          (if findPendingCRDs items = [] then Some (None, w1)
           else (case cc_tick lib c w1 of
                   (ticked, w2) \<Rightarrow>
                     (if \<not> ticked
                      then Some (Some (Wrapf ''crd establishment did not complete after %s: pending CRDs: %v: %w''
                                   [ArgDur (round_ms (cc_now lib w2 - st)), ArgStrs (findPendingCRDs items)]
                                   ErrCRDEstablishTimeout), w2)
                      else loop lib cl c st (logCRDEstablishmentProgress (cc_now lib w1 - st) warned) w2)))) = Some out"
  obtain l w1 where l: "cc_list_crds lib cl c w = (l, w1)" by fastforce
  obtain b w2 where t: "cc_tick lib c w1 = (b, w2)" by fastforce
  show "established_at lib cl c out"
  proof (cases "\<exists>items. l = Inr items \<and> findPendingCRDs items = []")
    case True
    then obtain items where items: "l = Inr items" "findPendingCRDs items = []" by blast
    with l step have "out = (None, w1)" by simp
    with l items show ?thesis unfolding established_at_def findPendingCRDs_def by (fastforce simp: filter_empty_conv)
  next
    case False
    with l t step IH show ?thesis by (cases l; cases b) (auto simp: established_at_def)
  qed
qed

lemma waitForCRDsEstablished_ok:
  assumes "waitForCRDsEstablished lib sys c cfg w = Some (None, w')"
  shows "\<exists>cl c1 v items v'. cc_list_crds lib cl c1 v = (Inr items, v') \<and> (\<forall>crd \<in> set items. isCRDEstablished crd) \<and>
    (w' = v' \<or> w' = os_ctx_cancel sys c1 v')"
proof -
  obtain c1 w1 where c1: "(if os_ctx_remaining sys c w = None then os_ctx_with_timeout sys c defaultEstablishmentTimeout w
      else (c, w)) = (c1, w1)" by fastforce
  with assms obtain cl w2 where "establishLoop lib cl c1 (cc_now lib w1) False w1 = Some (None, w2)"
    and w': "w' = w2 \<or> w' = os_ctx_cancel sys c1 w2"
    by (auto simp: waitForCRDsEstablished_def split: sum.splits option.splits if_splits)
  from establishLoop_ok [OF this(1)] w' show ?thesis unfolding established_at_def by fastforce
qed

subsection \<open>The ports\<close>

lemma ch_stopTimeout_pos: "0 < ch_stopTimeout cfg"
  by (simp add: ch_stopTimeout_def ResolveStopTimeout_def DefaultStopTimeout_def)

text \<open>A closure that has run gives its ports back; one that has not still owes them.\<close>

definition owes :: "port_registry \<Rightarrow> stop_once \<Rightarrow> port_registry \<Rightarrow> bool" where
  "owes r0 so r \<longleftrightarrow>
     (if so_done so then r = r0
      else stack_up (so_stack so) \<and> Release (Release r (st_kinePort (so_stack so))) (st_apiPort (so_stack so)) = r0)"

lemma stopStack_pays:
  assumes "owes r0 so r" and "0 < t" and "stopStack sys t so r w = (e, so', r', w')"
  shows "so_done so'" "r' = r0" "owes r0 so' r'"
proof -
  have "so_done so' \<and> r' = r0"
  proof (cases "so_done so")
    case True
    with assms show ?thesis by (simp add: stopStack_def owes_def)
  next
    case False
    with assms(1) have up: "stack_up (so_stack so)" by (simp add: owes_def)
    obtain e1 s1 r1 w1 where s: "stack_Stop sys (so_stack so) t r w = (e1, s1, r1, w1)" by (metis prod_cases4)
    from stack_Stop_up [OF up assms(2) s] False assms s show ?thesis by (auto simp: stopStack_def owes_def Let_def)
  qed
  then show "so_done so'" "r' = r0" "owes r0 so' r'" by (simp_all add: owes_def)
qed

lemma fillCache_owes:
  assumes "owes r0 so r" and "0 < t" and "fillCache lib sys sched c t db kc path files so r w = Some (res, so', r', w')"
  shows "owes r0 so' r'"
proof -
  obtain ap where ap: "applyCRDs lib sys sched c kc files w = Some ap" using assms(3) by (auto simp: fillCache_def split: option.splits)
  obtain e w1 where ap1: "ap = (e, w1)" by fastforce
  obtain e2 so2 r2 w2 where s: "stopStack sys t so r w1 = (e2, so2, r2, w2)" by (metis prod_cases4)
  from stopStack_pays(3) [OF assms(1,2) s] assms(1,3) ap ap1 s show ?thesis
    by (cases e; cases e2) (auto simp: fillCache_def split: prod.splits option.splits)
qed

lemma populateCache_registry:
  assumes "group_law grp" and "net_law sys"
    and "populateCache lib sys grp sched c cfg dir path files r w = Some (res, r', w')"
  shows "r' = r"
proof -
  let ?db = "filepath_Join [dir, ''db'', ''state.db'']" and ?kc = "filepath_Join [dir, ''kubeconfig.yaml'']"
  obtain tc w1 where t: "os_ctx_with_timeout sys c (ch_Timeout cfg) w = (tc, w1)" by fastforce
  obtain pc w2 where p: "os_ctx_with_cancel sys tc w1 = (pc, w2)" by fastforce
  obtain st r1 w3 where start: "StartWithRetry sys grp (Some pc) (Some tc) (cache_stack_config cfg dir ?db ?kc)
      maxKubestackStartRetries r w2 = (st, r1, w3)" by (metis prod_cases3)
  show ?thesis
  proof (cases st)
    case (Inl e)
    with StartWithRetry_error [OF assms(2) start [unfolded Inl]] assms(3) t p start show ?thesis
      by (simp add: populateCache_def)
  next
    case (Inr s)
    let ?so = "\<lparr>so_stack = s, so_done = False, so_err = None\<rparr>"
    from StartWithRetry_ok [OF assms(2) start [unfolded Inr]] obtain v where
      v: "stack_Start sys grp (newStack (cache_stack_config cfg dir ?db ?kc)) (Some pc) (Some tc) r v = (None, s, r1, w3)" ..
    have "Release (Release r1 (st_kinePort s)) (st_apiPort s) = r"
      using stack_Start_ok [OF assms(1,2) v] by (auto dest: preg.release_pair)
    with stack_Start_up [OF assms(1,2) v] have owes: "owes r ?so r1" by (simp add: owes_def)
    from assms(3) t p start Inr obtain so r2 w4 where
      f: "fillCache lib sys sched tc (ch_stopTimeout cfg) ?db ?kc path files ?so r1 w3 = Some (res, so, r2, w4)"
      and "\<exists>e so' w5. stopStack sys (ch_stopTimeout cfg) so r2 w4 = (e, so', r', w5)"
      by (auto simp: populateCache_def Let_def split: option.splits prod.splits)
    then obtain e so' w5 where stop: "stopStack sys (ch_stopTimeout cfg) so r2 w4 = (e, so', r', w5)" by blast
    show ?thesis by (rule stopStack_pays(2) [OF fillCache_owes [OF owes ch_stopTimeout_pos f] ch_stopTimeout_pos stop])
  qed
qed

lemma EnsureCache_registry:
  assumes "group_law grp" and "net_law sys" and "EnsureCache lib sys grp sched c cfg r w = Some (res, r', w')"
  shows "r' = r"
  using assms(3)
  by (auto simp: EnsureCache_def ensureLocked_def createCache_def Let_def
      split: option.splits sum.splits prod.splits if_splits
      dest: populateCache_registry [OF assms(1,2)])

subsection \<open>Properties\<close>

text \<open>Only the wait can keep \<^verbatim>\<open>EnsureCache\<close> from returning.\<close>

definition wait_stuck :: "('w, 'x) crd_lib_scheme \<Rightarrow> 'w os \<Rightarrow> bool" where
  "wait_stuck lib sys \<longleftrightarrow> (\<exists>c restCfg w. waitForCRDsEstablished lib sys c restCfg w = None)"

lemma applyCRDs_None: "applyCRDs lib sys sched c kc files w = None \<Longrightarrow> wait_stuck lib sys"
  by (auto simp: applyCRDs_def wait_stuck_def split: prod.splits sum.splits option.splits)

lemma fillCache_None: "fillCache lib sys sched c t db kc path files so r w = None \<Longrightarrow> wait_stuck lib sys"
  by (auto simp: fillCache_def split: prod.splits option.splits dest: applyCRDs_None)

lemma populateCache_None: "populateCache lib sys grp sched c cfg dir path files r w = None \<Longrightarrow> wait_stuck lib sys"
  by (auto simp: populateCache_def Let_def split: prod.splits sum.splits option.splits dest: fillCache_None)

lemma EnsureCache_None: "EnsureCache lib sys grp sched c cfg r w = None \<Longrightarrow> wait_stuck lib sys"
  by (auto simp: EnsureCache_def ensureLocked_def createCache_def Let_def
      split: prod.splits sum.splits option.splits if_splits dest: populateCache_None)

lemma EnsureCache_total:
  assumes "deadline_law clk D lib sys"
  shows "\<exists>res r' w'. EnsureCache lib sys grp sched c cfg r w = Some (res, r', w')"
proof -
  have "\<not> wait_stuck lib sys"
    using waitForCRDsEstablished_total [OF assms] by (metis wait_stuck_def option.distinct(1))
  then have "EnsureCache lib sys grp sched c cfg r w \<noteq> None"
    using EnsureCache_None [of lib sys grp sched c cfg r w] by blast
  then show ?thesis by (metis not_None_eq prod_cases3)
qed

text \<open>C17. The wait for the CRDs returns whatever the API server answers, since a context without a deadline
  gets one; it returns without an error only after a list in which every CRD is established.\<close>

theorem waitForCRDsEstablished_returns:
  assumes "deadline_law clk D lib sys"
  shows "\<exists>res w'. waitForCRDsEstablished lib sys c restCfg w = Some (res, w') \<and>
    (res = None \<longrightarrow> (\<exists>cl c1 v items v'. cc_list_crds lib cl c1 v = (Inr items, v') \<and> findPendingCRDs items = []))"
proof -
  obtain res w' where out: "waitForCRDsEstablished lib sys c restCfg w = Some (res, w')"
    using waitForCRDsEstablished_total [OF assms] by fastforce
  with waitForCRDsEstablished_ok [of lib sys c restCfg w w'] show ?thesis
    by (fastforce simp: findPendingCRDs_def filter_empty_conv)
qed


text \<open>What was done when a new cache is reported: the documents of the directory applied, the CRDs
  established, the stack stopped without an error, and then its database copied.\<close>

definition cache_built ::
  "('w, 'x) crd_lib_scheme \<Rightarrow> 'w os \<Rightarrow> (parsedDoc list \<Rightarrow> parsedDoc list) \<Rightarrow> cache_config \<Rightarrow> hashed_file list \<Rightarrow>
   string \<Rightarrow> 'w \<Rightarrow> 'w \<Rightarrow> string \<Rightarrow> bool" where
  "cache_built lib sys sched cfg files path v4 v5 db \<longleftrightarrow>
     (\<exists>tc restCfg v0 v1 v3 s s' r1 r2.
        applyYAMLFiles lib sys sched tc restCfg files v0 = (None, v1) \<and>
        (\<exists>cl c1 v items v'. cc_list_crds lib cl c1 v = (Inr items, v') \<and> (\<forall>crd \<in> set items. isCRDEstablished crd) \<and>
           (v3 = v' \<or> v3 = os_ctx_cancel sys c1 v')) \<and>
        waitForCRDsEstablished lib sys tc restCfg v1 = Some (None, v3) \<and>
        stack_Stop sys s (ch_stopTimeout cfg) r1 v3 = (None, s', r2, v4)) \<and>
     CopyFile sys db path (Some \<lparr>cp_Mode = 0, cp_Sync = True, cp_Atomic = True\<rparr>) v4 = (None, v5)"

lemma fillCache_ok:
  assumes "fillCache lib sys sched c (ch_stopTimeout cfg) db kc path files so r w = Some (None, so', r', w')" and "\<not> so_done so"
  shows "\<exists>v. cache_built lib sys sched cfg files path v w' db"
proof -
  from assms(1) obtain w1 where ap: "applyCRDs lib sys sched c kc files w = Some (None, w1)"
    by (auto simp: fillCache_def split: option.splits prod.splits)
  obtain e2 so2 r2 w2 where st: "stopStack sys (ch_stopTimeout cfg) so r w1 = (e2, so2, r2, w2)" by (metis prod_cases4)
  from assms(1) ap st have ok: "e2 = None" and cp:
    "CopyFile sys db path (Some \<lparr>cp_Mode = 0, cp_Sync = True, cp_Atomic = True\<rparr>) w2 = (None, w')"
    by (auto simp: fillCache_def split: option.splits prod.splits)
  from st ok assms(2) obtain s where stop: "stack_Stop sys (so_stack so) (ch_stopTimeout cfg) r w1 = (None, s, r2, w2)"
    by (auto simp: stopStack_def Let_def split: prod.splits)
  from ap obtain restCfg v0 v1 where "applyYAMLFiles lib sys sched c restCfg files v0 = (None, v1)"
    "waitForCRDsEstablished lib sys c restCfg v1 = Some (None, w1)"
    by (auto simp: applyCRDs_def split: option.splits prod.splits sum.splits)
  with waitForCRDsEstablished_ok [OF this(2)] stop cp show ?thesis unfolding cache_built_def by blast
qed

lemma populateCache_ok:
  assumes "populateCache lib sys grp sched c cfg dir path files r w = Some (None, r', w')"
  shows "\<exists>v v'. cache_built lib sys sched cfg files path v v' (filepath_Join [dir, ''db'', ''state.db''])"
proof -
  from assms obtain tc kc s r1 w3 so r2 w4 where
    "fillCache lib sys sched tc (ch_stopTimeout cfg) (filepath_Join [dir, ''db'', ''state.db'']) kc path files
       \<lparr>so_stack = s, so_done = False, so_err = None\<rparr> r1 w3 = Some (None, so, r2, w4)"
    by (auto simp: populateCache_def Let_def split: option.splits prod.splits sum.splits)
  from fillCache_ok [OF this] show ?thesis by auto
qed

lemma createCache_ok:
  assumes "createCache lib sys grp sched c cfg path files r w = Some (None, r', w')"
  shows "\<exists>v v' dir. cache_built lib sys sched cfg files path v v' (filepath_Join [dir, ''db'', ''state.db''])"
  using assms populateCache_ok unfolding createCache_def
  by (fastforce split: option.splits prod.splits sum.splits)

text \<open>The result of \<^verbatim>\<open>EnsureCache\<close> names the file of the hash.\<close>

lemma ensureLocked_names:
  "ensureLocked lib sys grp sched c cfg hash path files r v = Some (Inr res, r1, v1) \<Longrightarrow>
     re_Hash res = hash \<and> re_CachePath res = path \<and>
     (if re_Created res then \<exists>r v r' v'. createCache lib sys grp sched c cfg path files r v = Some (None, r', v')
      else \<exists>v n. os_stat sys path v = Inr n)"
  by (auto simp: ensureLocked_def split: option.splits sum.splits prod.splits if_splits)

lemma EnsureCache_names:
  assumes "EnsureCache lib sys grp sched c cfg r w = Some (Inr res, r', w')"
  shows "\<exists>hash files. computeDirHash lib (ch_CRDDir cfg) w = Inr (hash, files) \<and> re_Hash res = hash \<and>
    re_CachePath res = cache_path cfg hash \<and>
    (if re_Created res
     then \<exists>r v r' v'. createCache lib sys grp sched c cfg (cache_path cfg hash) files r v = Some (None, r', v')
     else \<exists>v n. os_stat sys (cache_path cfg hash) v = Inr n)"
proof -
  from assms obtain hash files where h: "computeDirHash lib (ch_CRDDir cfg) w = Inr (hash, files)"
    by (auto simp: EnsureCache_def split: option.splits sum.splits)
  let ?p = "cache_path cfg hash"
  from assms h have "(\<exists>n. os_stat sys ?p w = Inr n) \<and> res = \<lparr>re_CachePath = ?p, re_Hash = hash, re_Created = False\<rparr> \<or>
      (\<exists>v r1 v1. ensureLocked lib sys grp sched c cfg hash ?p files r v = Some (Inr res, r1, v1))"
    by (auto simp: EnsureCache_def Let_def split: option.splits sum.splits prod.splits if_splits)
  with h show ?thesis by (elim disjE) (auto dest!: ensureLocked_names)
qed


subsection \<open>A cache being built\<close>

text \<open>A world with a clock that also numbers the ports, a file system in which kine's start leaves a
  database, and a component \<open>k\<close> that is not used here: the cache of the sample directory is built from it, once its CRD is established.\<close>

definition disk_net :: "(nat \<times> (string \<rightharpoonup> string) \<times> 'k) os" where
  "disk_net = quiet_os\<lparr>
     os_ctx_remaining := (\<lambda>c (n, f, k). Some (100 - int n)),
     os_net_listen := (\<lambda>(n, f, k). (Inr (TCPAddr (40000 + int n)), (Suc n, f, k))),
     os_cmd_start := (\<lambda>c (n, f, k). (Inr 1, (n, f(''/c/build-1/db/state.db'' \<mapsto> ''db''), k))),
     os_stat := (\<lambda>p (n, f, k). (case f p of None \<Rightarrow> Inl (Std OsErrNotExist) | Some c \<Rightarrow> Inr 1)),
     os_open := (\<lambda>p (n, f, k). (case f p of None \<Rightarrow> Inl (Std OsErrNotExist) | Some c \<Rightarrow> Inr (3, p), (n, f, k))),
     os_create_temp := (\<lambda>d pat (n, f, k). (let t = d @ ''/.tmp-copy-1'' in
       if f t = None then (Inr (4, t), (n, f(t \<mapsto> []), k)) else (Inl (errors_New ''exists''), (n, f, k)))),
     os_io_copy := (\<lambda>d s (n, f, k). (None, (n, f(snd d := f (snd s)), k))),
     os_rename := (\<lambda>a b (n, f, k). (None, (n, f(b := f a, a := None), k))),
     os_remove := (\<lambda>p (n, f, k). (None, (n, f(p := None), k)))\<rparr>"

text \<open>The libraries, given the two operations of the lock.\<close>

definition lock_lib ::
  "(string \<Rightarrow> ctx \<Rightarrow> duration \<Rightarrow> nat \<times> (string \<rightharpoonup> string) \<times> 'k \<Rightarrow> (go_error option \<times> bool) \<times> nat \<times> (string \<rightharpoonup> string) \<times> 'k) \<Rightarrow>
   (string \<Rightarrow> nat \<times> (string \<rightharpoonup> string) \<times> 'k \<Rightarrow> go_error option \<times> nat \<times> (string \<rightharpoonup> string) \<times> 'k) \<Rightarrow>
   (nat \<times> (string \<rightharpoonup> string) \<times> 'k) crd_lib" where
  "lock_lib try close =
     \<lparr>cf_dir_tree = \<lambda>_ _. Inr sample_tree, cf_read_file = \<lambda>p _. Inr ''widgets'', cf_sha256_hex = \<lambda>s. replicate 64 (CHR ''0''),
      cl_yaml_docs = \<lambda>content. ([content], Std IoEOF), cl_decode = \<lambda>raw. Inr (sample_obj raw),
      cl_is_missing_kind = \<lambda>_. False, cl_error_string = \<lambda>_. '''', cl_new_dynamic = \<lambda>_. Inr 1, cl_new_discovery = \<lambda>_. Inr 2,
      cl_group_resources = \<lambda>_ w. (Inr 3, w), cl_rest_mapper = sample_mapper,
      cl_is_no_match = \<lambda>e. e = no_match, cl_marshal = \<lambda>obj. Inr (u_name obj),
      cl_patch = \<lambda>_ _ _ _ _ _ _ w. (None, w), cl_cause = \<lambda>_ _. Std CtxCanceled,
      cc_try_lock = try, cc_lock_close = close,
      cc_mkdir_temp = \<lambda>_ _ w. (Inr ''/c/build-1'', w), cc_remove_all = \<lambda>_ w. (None, w), cc_new_ext = \<lambda>_. Inr 3,
      cc_list_crds = \<lambda>_ _ (n, f, k). (if 100 \<le> n then Inl (Std CtxDeadlineExceeded)
        else Inr [\<lparr>crd_name = ''widgets'', crd_conditions = [(''Established'', if n < 5 then ''False'' else ''True'')]\<rparr>], (n, f, k)),
      cc_tick = \<lambda>_ (n, f, k). (True, (Suc n, f, k)), cc_now = \<lambda>(n, f, k). int n\<rparr>"

definition disk_lib :: "(nat \<times> (string \<rightharpoonup> string) \<times> 'k) crd_lib" where
  "disk_lib = lock_lib (\<lambda>_ _ _ w. ((None, True), w)) (\<lambda>_ w. (None, w))"

definition disk_cfg :: cache_config where
  "disk_cfg = \<lparr>ch_CRDDir = ''crds'', ch_CacheDir = ''/c'', ch_KineBinary = ''kine'', ch_KubeAPIServerBinary = ''api'',
     ch_Timeout = 60, ch_StopTimeout = 5, ch_hasPortRegistry = True\<rparr>"

lemma disk_net_sys:
  "os_ctx_err disk_net c w = None" "os_mkdir_all disk_net p m w = (None, w)" "os_create_file disk_net p w = (Inr 3, w)"
  "os_write_file disk_net p x m w = (None, w)" "os_ecdsa_key disk_net w = (Inr 0, w)"
  "os_x509_marshal disk_net 0 = Inr ''der''" "os_new_request disk_net u = None"
  "os_http_get disk_net u w = (Inr 200, w)" "os_dial disk_net u w = (None, w)" "os_exited disk_net pid w = False"
  "os_write_kubeconfig disk_net kc p w = (None, w)" "os_poll disk_net = os_poll quiet_os" "os_look_path disk_net p w = None"
  "os_cmd_start disk_net cm (n, f, k) = (Inr 1, (n, f(''/c/build-1/db/state.db'' \<mapsto> ''db''), k))"
  "os_signal disk_net p' sg w = (None, w)" "os_kill_after disk_net p' d w = w" "os_cancel_kill disk_net p' w = w"
  "os_recv_done disk_net p' d w = (Some (Some (ExitError (WaitStatus SIGTERM) (errors_New ''signal: terminated''))), w)"
  "os_close_file disk_net fd w = (None, w)"
  by (simp_all add: disk_net_def quiet_os_def)

lemma disk_net_pair:
  "AllocatePortPair disk_net NewPortRegistry (0, f, k) = (Inr (40000, 40001), \<lparr>ports = {40001, 40000}\<rparr>, (2, f, k))"
  by (simp add: net_eval disk_net_def NewPortRegistry_def)

lemmas stop_eval = stack_Stop_def stopProcesses_def StopCloseAndNil_def api_Stop_def kine_Stop_def api_Close_def
  kine_Close_def bp_Stop_def stopWithDone_def bp_Close_def logFiles_Close_def expectSignalExit_def releasePorts_def
  Release_def close_opt_def

definition disk_stack_cfg :: stack_config where
  "disk_stack_cfg = cache_stack_config disk_cfg ''/c/build-1'' ''/c/build-1/db/state.db'' ''/c/build-1/kubeconfig.yaml''"

lemma disk_stack:
  "\<exists>s s'. StartWithRetry disk_net seq_group (Some 2) (Some 1) disk_stack_cfg 3 NewPortRegistry (0, f, k :: 'k) =
       (Inr s, \<lparr>ports = {40001, 40000}\<rparr>, (2, f(''/c/build-1/db/state.db'' \<mapsto> ''db''), k)) \<and>
     (\<forall>v :: nat \<times> (string \<rightharpoonup> string) \<times> 'k. stack_Stop disk_net s 5 \<lparr>ports = {40001, 40000}\<rparr> v = (None, s', NewPortRegistry, v))"
proof -
  have dir: "filepath_Dir p \<noteq> []" for p by (simp add: filepath_Dir_def)
  have reg: "{40001, 40000} - {40000} - {40001 :: int} = {}" by auto
  show ?thesis unfolding disk_stack_cfg_def cache_stack_config_def disk_cfg_def
    by (simp add: start_eval stop_eval disk_net_sys disk_net_pair ks_stopTimeout_def ResolveStopTimeout_def
        DefaultStopTimeout_def Let_def StartWithRetry_def validateStartWithRetryArgs_def dir resolveBinaries_def
        ks_validate_def numeral_3_eq_3 quiet_os_def ch_stopTimeout_def SIGTERM_def)
      (auto simp: errors_Join_None_iff NewPortRegistry_def)
qed

definition disk_files :: "hashed_file list" where
  "disk_files = map (\<lambda>p. \<lparr>hf_relPath = p, hf_content = ''widgets''\<rparr>) [''.x.YML'', ''a/x.yaml'', ''a-b.yaml'']"

definition disk_hash :: string where "disk_hash = ''0000000000000000''"

lemma disk_dir:
  "computeDirHash (lock_lib t c) ''crds'' w = Inr (disk_hash, disk_files)"
  "filepath_Join [''/c/build-1'', ''db'', ''state.db''] = ''/c/build-1/db/state.db''"
  "filepath_Join [''/c/build-1'', ''kubeconfig.yaml''] = ''/c/build-1/kubeconfig.yaml''"
  "cache_path disk_cfg disk_hash = ''/c/cached-0000000000000000.db''"
  "ch_validate disk_cfg = None" "ch_CRDDir disk_cfg = ''crds''" "ch_stopTimeout disk_cfg = 5"
  by code_simp+

lemma disk_dir_lib: "computeDirHash disk_lib ''crds'' w = Inr (disk_hash, disk_files)"
  by (simp add: disk_lib_def disk_dir)

lemma disk_apply: "applyYAMLFiles (lock_lib t cl) disk_net id c cfg disk_files w = (None, w)"
  by (simp add: applyYAMLFiles_def Let_def maxYAMLFiles_def lock_lib_def disk_net_def quiet_os_def newDiscoveryMapper_def
      refresh_def classifyDocuments_def parseFileDocuments_def blank.simps ascii_space_def sample_obj_def isCRDDocument_def
      crdKind_def apiextensions_GroupName_def applyParsedDocument_def discoverRESTMapping_def RESTMapping_def
      sample_mapper_def GroupVersionKind_def GroupKind_def clean_obj_def disk_files_def)

lemma disk_wait: "waitForCRDsEstablished (lock_lib t cl) disk_net c cfg (2, f, k) = Some (None, (5, f, k))"
  by (simp add: waitForCRDsEstablished_def establishLoop.simps lock_lib_def disk_net_def findPendingCRDs_def isCRDEstablished_def)

lemma disk_copy:
  "\<exists>f. CopyFile disk_net ''/c/build-1/db/state.db'' ''/c/cached-0000000000000000.db''
       (Some \<lparr>cp_Mode = 0, cp_Sync = True, cp_Atomic = True\<rparr>) (5, [''/c/build-1/db/state.db'' \<mapsto> ''db''], k) = (None, (5, f, k)) \<and>
     f ''/c/cached-0000000000000000.db'' = Some ''db''"
proof -
  let ?r = "CopyFile disk_net ''/c/build-1/db/state.db'' ''/c/cached-0000000000000000.db''
       (Some \<lparr>cp_Mode = 0, cp_Sync = True, cp_Atomic = True\<rparr>) (5, [''/c/build-1/db/state.db'' \<mapsto> ''db''], k)"
  have "fst ?r = None \<and> fst (snd ?r) = 5 \<and> fst (snd (snd ?r)) ''/c/cached-0000000000000000.db'' = Some ''db''" by code_simp
  moreover have "snd (snd (snd ?r)) = k"
    by (simp add: CopyFile_def copy_from_def isSameFile_def EnsureDirForFile_def EnsureDir_def openDstFile_def copy_into_def
        finalizeCopy_def disk_net_def quiet_os_def Let_def)
  ultimately show ?thesis by (metis prod.collapse)
qed

lemma disk_sys:
  "os_ctx_with_timeout disk_net c d w = (Suc c, w)" "os_ctx_with_cancel disk_net c w = (Suc c, w)"
  "os_ctx_cancel disk_net c w = w" "os_stat disk_net p (n, Map.empty, k) = Inl (Std OsErrNotExist)"
  "os_build_config disk_net p w = (Inr \<lparr>rc_rest = p, rc_QPS = 5, rc_Burst = 10\<rparr>, w)"
  by (simp_all add: disk_net_def quiet_os_def)

lemma disk_createCache:
  "\<exists>f. createCache (lock_lib t cl) disk_net seq_group id 0 disk_cfg ''/c/cached-0000000000000000.db'' disk_files
      NewPortRegistry (0, Map.empty, k :: 'k) = Some (None, NewPortRegistry, (5, f, k)) \<and>
    f ''/c/cached-0000000000000000.db'' = Some ''db''"
proof -
  obtain s s' where s: "StartWithRetry disk_net seq_group (Some 2) (Some 1) disk_stack_cfg 3 NewPortRegistry (0, Map.empty, k) =
       (Inr s, \<lparr>ports = {40001, 40000}\<rparr>, (2, [''/c/build-1/db/state.db'' \<mapsto> ''db''], k))"
    "\<And>v :: nat \<times> (string \<rightharpoonup> string) \<times> 'k. stack_Stop disk_net s 5 \<lparr>ports = {40001, 40000}\<rparr> v = (None, s', NewPortRegistry, v)"
    using disk_stack [of Map.empty k] by metis
  obtain f where f: "CopyFile disk_net ''/c/build-1/db/state.db'' ''/c/cached-0000000000000000.db''
       (Some \<lparr>cp_Mode = 0, cp_Sync = True, cp_Atomic = True\<rparr>) (5, [''/c/build-1/db/state.db'' \<mapsto> ''db''], k) = (None, (5, f, k))"
    "f ''/c/cached-0000000000000000.db'' = Some ''db''" using disk_copy [of k] by (elim exE conjE)
  have lib: "cc_mkdir_temp (lock_lib t cl) p q w = (Inr ''/c/build-1'', w)" "cc_remove_all (lock_lib t cl) p w = (None, w)" for p w q
    by (simp_all add: lock_lib_def)
  have start: "StartWithRetry disk_net seq_group (Some (Suc (Suc 0))) (Some (Suc 0))
      (cache_stack_config disk_cfg ''/c/build-1'' ''/c/build-1/db/state.db'' ''/c/build-1/kubeconfig.yaml'') 3 NewPortRegistry
      (0, Map.empty, k) = (Inr s, \<lparr>ports = {40001, 40000}\<rparr>, (2, [''/c/build-1/db/state.db'' \<mapsto> ''db''], k))"
    using s(1) by (simp add: disk_stack_cfg_def numeral_2_eq_2)
  have "populateCache (lock_lib t cl) disk_net seq_group id 0 disk_cfg ''/c/build-1'' ''/c/cached-0000000000000000.db'' disk_files
      NewPortRegistry (0, Map.empty, k) = Some (None, NewPortRegistry, (5, f, k))"
    by (simp add: populateCache_def Let_def disk_sys disk_dir start maxKubestackStartRetries_def fillCache_def applyCRDs_def
        disk_apply disk_wait stopStack_def s(2) f(1))
  with f(2) show ?thesis by (simp add: createCache_def lib)
qed

lemma disk_EnsureCache:
  "\<exists>f. EnsureCache disk_lib disk_net seq_group id 0 disk_cfg NewPortRegistry (0, Map.empty, k) =
     Some (Inr \<lparr>re_CachePath = ''/c/cached-0000000000000000.db'', re_Hash = disk_hash, re_Created = True\<rparr>,
           NewPortRegistry, (5, f, k)) \<and> f ''/c/cached-0000000000000000.db'' = Some ''db''"
proof -
  let ?t = "\<lambda>_ _ _ w. ((None, True), w)" and ?c = "\<lambda>_ w. (None, w)"
  have lib: "cc_try_lock (lock_lib ?t ?c) p c d w = ((None, True), w)" "cc_lock_close (lock_lib ?t ?c) p w = (None, w)" for p c d w
    by (simp_all add: lock_lib_def)
  obtain f where "createCache (lock_lib ?t ?c) disk_net seq_group id 0 disk_cfg ''/c/cached-0000000000000000.db'' disk_files
      NewPortRegistry (0, Map.empty, k) = Some (None, NewPortRegistry, (5, f, k))"
    "f ''/c/cached-0000000000000000.db'' = Some ''db''" using disk_createCache [of ?t ?c k] by (elim exE conjE)
  then show ?thesis unfolding disk_lib_def
    by (simp add: EnsureCache_def Let_def disk_dir disk_sys acquireFileLock_def lib ensureLocked_def releaseFileLock_def)
qed

lemma disk_laws:
  "net_law disk_net" "deadline_law (\<lambda>w. int (fst w)) (\<lambda>w c. Some 100) disk_lib disk_net" "fs_law (\<lambda>w. fst (snd w)) disk_net"
proof -
  show "net_law disk_net" by (auto simp: net_law_def disk_net_def quiet_os_def)
  show "deadline_law (\<lambda>w. int (fst w)) (\<lambda>w c. Some 100) disk_lib disk_net"
    by (auto simp: deadline_law_def disk_net_def disk_lib_def lock_lib_def quiet_os_def)
  show "fs_law (\<lambda>w. fst (snd w)) disk_net"
    by (auto simp: fs_law_def disk_net_def quiet_os_def Let_def split: option.splits if_splits)
qed

lemma state_db_last: "last_elem (filepath_Join [dir, ''db'', ''state.db'']) = ''state.db''"
proof -
  have e: "plain_elem ''state.db''" by code_simp
  have "filepath_Join [dir, ''db'', ''state.db''] = filepath_Clean ((if dir = [] then ''db'' else dir @ ''/db'') @ CHR ''/'' # ''state.db'')"
    by (simp add: filepath_Join_def)
  with last_elem_Clean [OF e] show ?thesis by simp
qed

lemma disk_temp_apart:
  "temp_apart disk_net ''/c/cached-0000000000000000.db''
     {filepath_Join [dir, ''db'', ''state.db''], ''/c/cached-0000000000000000.db''}"
proof -
  have dir: "filepath_Dir ''/c/cached-0000000000000000.db'' = ''/c''" by code_simp
  have l: "last_elem ''/c/.tmp-copy-1'' = ''.tmp-copy-1''" by code_simp
  have "''/c/.tmp-copy-1'' \<noteq> filepath_Join [dir, ''db'', ''state.db'']"
  proof
    assume "''/c/.tmp-copy-1'' = filepath_Join [dir, ''db'', ''state.db'']"
    with l state_db_last [of dir] show False by simp
  qed
  then show ?thesis by (auto simp: temp_apart_def disk_net_def dir Let_def split: if_splits)
qed

theorem waitForCRDsEstablished_returns_witness:
  "waitForCRDsEstablished disk_lib disk_net 1 \<lparr>rc_rest = [], rc_QPS = 5, rc_Burst = 10\<rparr> (2, Map.empty, ()) = Some (None, (5, Map.empty, ())) \<and>
   (\<exists>cl c1 v items v'. cc_list_crds disk_lib cl c1 (v :: nat \<times> (string \<rightharpoonup> string) \<times> unit) = (Inr items, v') \<and>
      findPendingCRDs items = [])"
  using waitForCRDsEstablished_returns [OF disk_laws(2), of 1 "\<lparr>rc_rest = [], rc_QPS = 5, rc_Burst = 10\<rparr>" "(2, Map.empty, ())"]
  by (simp add: disk_wait disk_lib_def)



end
