(* ===== verification/Wiring.thy ===== *)
theory Wiring
  imports Crdcache Leases
begin

text \<open>
  The manager with its CRD cache: the call of \<^verbatim>\<open>crdcache.EnsureCache\<close> in \<^verbatim>\<open>doInitialize\<close>, in the place of the
  argument that the theory of the manager has for it. The laws asked of that argument are discharged
  by the model of the cache.
\<close>

subsection \<open>The call\<close>

definition crd_config :: "manager_config \<Rightarrow> cache_config" where
  "crd_config cfg =
     \<lparr>ch_CRDDir = mc_CRDDir cfg, ch_CacheDir = mc_BaseDataDir cfg, ch_KineBinary = mc_KineBinary cfg,
      ch_KubeAPIServerBinary = mc_KubeAPIServerBinary cfg, ch_Timeout = mc_CRDCacheTimeout cfg,
      ch_StopTimeout = mc_InstanceStopTimeout cfg, ch_hasPortRegistry = True\<rparr>"

text \<open>\<open>EnsureCache\<close> returns under the law of deadlines; only then is this its result.\<close>

definition crd_ensure_cache ::
  "('w, 'x) crd_lib_scheme \<Rightarrow> 'w os \<Rightarrow> (kine_process, api_process, 'w) errgroup \<Rightarrow> (parsedDoc list \<Rightarrow> parsedDoc list) \<Rightarrow>
   'w ensure_cache" where
  "crd_ensure_cache lib sys grp docSched c cfg r w =
     (case the (EnsureCache lib sys grp docSched c (crd_config cfg) r w) of
        (Inl e, r1, w1) \<Rightarrow> (Inl e, r1, w1)
      | (Inr result, r1, w1) \<Rightarrow> (Inr (re_CachePath result), r1, w1))"

text \<open>The cache meets the interface of the manager.\<close>

definition crd_usable :: "('w, 'x) crd_lib_scheme \<Rightarrow> 'w os \<Rightarrow> (kine_process, api_process, 'w) errgroup \<Rightarrow> bool" where
  "crd_usable lib sys grp \<longleftrightarrow> group_law grp \<and> net_law sys \<and> (\<exists>clk D. deadline_law clk D lib sys)"

lemma crd_ensure_cache_registry:
  assumes "crd_usable lib sys grp" and "crd_ensure_cache lib sys grp docSched c cfg r w = (res, r', w')"
  shows "r' = r"
proof -
  from assms(1) obtain clk D where laws: "group_law grp" "net_law sys" "deadline_law clk D lib sys"
    by (auto simp: crd_usable_def)
  obtain x r1 w1 where e: "EnsureCache lib sys grp docSched c (crd_config cfg) r w = Some (x, r1, w1)"
    using EnsureCache_total [OF laws(3)] by blast
  from EnsureCache_registry [OF laws(1,2) e] assms(2) e show ?thesis
    by (cases x) (simp_all add: crd_ensure_cache_def)
qed

interpretation crdc: crd_cache "crd_ensure_cache lib sys grp docSched" "crd_usable lib sys grp" for lib sys grp docSched
  by unfold_locales (rule crd_ensure_cache_registry)

subsection \<open>Properties\<close>

text \<open>C1. With the CRD cache in its place, the whole core package refines the table of leases: after any run of
  calls the manager's invariant holds, the history the clients saw leads to its leases, and each
  instance was granted as often as it was returned or once more.\<close>

theorem manager_with_cache_refines:
  assumes "group_law grp" and "net_law sys" and "ctx_law sys" and "deadline_law clk D lib sys"
    and "manager_run sys grp (crd_ensure_cache lib sys grp docSched) cfg es m"
  shows "mgr_inv m \<and> lease_run es Map.empty = Some (leases m) \<and>
    grants a es = returns a es + (if leases m a = None then 0 else 1)"
proof -
  have "crd_usable lib sys grp" using assms(1,2,4) unfolding crd_usable_def by blast
  from crdc.run_refines [OF this assms(1-3,5)] show ?thesis .
qed

text \<open>C23. A manager configured with a CRD directory that initializes hands every instance it creates the cached
  database named after the hash of that directory.\<close>

theorem Initialize_uses_cache:
  assumes "deadline_law clk D lib sys" and "mg_state m = managerCreated" and "mc_CRDDir (mg_cfg m) \<noteq> ''''"
    and "Initialize sys (crd_ensure_cache lib sys grp docSched) sched c m = (Ret None, m')"
  shows "\<exists>hash files v. computeDirHash lib (mc_CRDDir (mg_cfg m)) v = Inr (hash, files) \<and>
    ic_CachedDBPath (manager_inst_config m') = filepath_Join [mc_BaseDataDir (mg_cfg m), ''cached-'' @ hash @ ''.db'']"
proof -
  let ?ec = "crd_ensure_cache lib sys grp docSched" and ?cfg = "mg_cfg m"
  obtain w1 where dir: "EnsureDir sys (mc_BaseDataDir ?cfg) (co_world m) = (None, w1)"
    using assms(2,4) by (auto simp: Initialize_def finishInitialize_def doInitialize_def Let_def split: option.splits prod.splits)
  obtain x r2 w2 where e: "EnsureCache lib sys grp docSched c (crd_config ?cfg) (co_reg m) w1 = Some (x, r2, w2)"
    using EnsureCache_total [OF assms(1)] by blast
  have ec: "?ec c ?cfg (co_reg m) w1 = (case x of Inl err \<Rightarrow> Inl err | Inr res \<Rightarrow> Inr (re_CachePath res), r2, w2)"
    by (simp add: crd_ensure_cache_def e split: sum.splits)
  obtain res where x: "x = Inr res"
    using assms(2,3,4) dir ec
    by (auto simp: Initialize_def finishInitialize_def doInitialize_def Let_def split: option.splits sum.splits)
  have path: "mg_cachedDBPath m' = re_CachePath res"
    using assms(2,3,4) dir ec x
    by (auto simp: Initialize_def finishInitialize_def doInitialize_def Let_def split: option.splits outcome.splits)
  from EnsureCache_names [OF e [unfolded x]] path show ?thesis
    by (auto simp: manager_inst_config_def crd_config_def cache_path_def)
qed

subsection \<open>Witnesses\<close>

definition crd_cfg :: manager_config where
  "crd_cfg = sample_cfg\<lparr>mc_KubeAPIServerBinary := ''api'', mc_BaseDataDir := ''/c'', mc_CRDDir := ''crds'',
     mc_CRDCacheTimeout := 60, mc_InstanceStopTimeout := 5\<rparr>"

lemma crd_cfg_config: "crd_config crd_cfg = disk_cfg"
  by (simp add: crd_config_def crd_cfg_def sample_cfg_def disk_cfg_def)

lemma crd_cfg_valid: "mc_Validate crd_cfg = None"
  by (simp add: mc_Validate_None_iff crd_cfg_def sample_cfg_def)

lemma crd_new: "\<exists>m. NewManagerWithConfig crd_cfg (0 :: nat, Map.empty :: string \<rightharpoonup> string, ()) = Ret m \<and>
    mg_state m = managerCreated \<and> mg_cfg m = crd_cfg \<and> co_world m = (0, Map.empty, ()) \<and> co_reg m = NewPortRegistry"
  using crd_cfg_valid by (simp add: NewManagerWithConfig_def)

text \<open>The manager builds the cache of the sample directory while it initializes.\<close>

lemma crd_Initialize:
  assumes "mg_state m = managerCreated" "mg_cfg m = crd_cfg" "co_world m = (0, Map.empty, ())" "co_reg m = NewPortRegistry"
  shows "\<exists>m'. Initialize disk_net (crd_ensure_cache disk_lib disk_net seq_group id) id 0 m = (Ret None, m') \<and>
    mg_state m' = managerReady"
proof -
  obtain f where "EnsureCache disk_lib disk_net seq_group id 0 disk_cfg NewPortRegistry (0, Map.empty, ()) =
     Some (Inr \<lparr>re_CachePath = ''/c/cached-0000000000000000.db'', re_Hash = disk_hash, re_Created = True\<rparr>,
           NewPortRegistry, (5, f, ()))" using disk_EnsureCache [of "()"] by (elim exE conjE)
  then have "crd_ensure_cache disk_lib disk_net seq_group id 0 crd_cfg NewPortRegistry (0, Map.empty, ()) =
      (Inr ''/c/cached-0000000000000000.db'', NewPortRegistry, (5, f, ()))"
    by (simp add: crd_ensure_cache_def crd_cfg_config)
  with assms crd_cfg_valid show ?thesis
    by (simp add: Initialize_def finishInitialize_def doInitialize_def EnsureDir_def disk_net_sys Let_def NewPool_def)
      (simp add: crd_cfg_def sample_cfg_def)
qed

lemma disk_ctx_law: "ctx_law disk_net"
  by (simp add: ctx_law_def disk_net_sys)

theorem manager_with_cache_refines_witness:
  "\<exists>m :: (nat \<times> (string \<rightharpoonup> string) \<times> unit) mgr.
     manager_run disk_net seq_group (crd_ensure_cache disk_lib disk_net seq_group id) crd_cfg [] m \<and>
     mg_state m = managerReady \<and> mgr_inv m \<and> leases m = Map.empty"
proof -
  obtain m0 where m0: "NewManagerWithConfig crd_cfg (0 :: nat, Map.empty :: string \<rightharpoonup> string, ()) = Ret m0"
    "mg_state m0 = managerCreated" "mg_cfg m0 = crd_cfg" "co_world m0 = (0, Map.empty, ())" "co_reg m0 = NewPortRegistry"
    using crd_new by blast
  obtain m where init: "Initialize disk_net (crd_ensure_cache disk_lib disk_net seq_group id) id 0 m0 = (Ret None, m)"
    and ready: "mg_state m = managerReady" using crd_Initialize [OF m0(2-5)] by blast
  have run: "manager_run disk_net seq_group (crd_ensure_cache disk_lib disk_net seq_group id) crd_cfg [] m"
    by (rule run_init [OF run_new [OF m0(1)] init])
  from manager_with_cache_refines [OF seq_group_law disk_laws(1) disk_ctx_law disk_laws(2) run, of 0] run ready
  show ?thesis by auto
qed

theorem Initialize_uses_cache_witness:
  "\<exists>(m :: (nat \<times> (string \<rightharpoonup> string) \<times> unit) mgr) m'.
     Initialize disk_net (crd_ensure_cache disk_lib disk_net seq_group id) id 0 m = (Ret None, m') \<and>
     ic_CachedDBPath (manager_inst_config m') = ''/c/cached-0000000000000000.db''"
proof -
  obtain m0 where m0: "mg_state (m0 :: (nat \<times> (string \<rightharpoonup> string) \<times> unit) mgr) = managerCreated" "mg_cfg m0 = crd_cfg"
    "co_world m0 = (0, Map.empty, ())" "co_reg m0 = NewPortRegistry" using crd_new by blast
  obtain m where init: "Initialize disk_net (crd_ensure_cache disk_lib disk_net seq_group id) id 0 m0 = (Ret None, m)"
    using crd_Initialize [OF m0] by blast
  have dir: "mc_CRDDir (mg_cfg m0) = ''crds''" "mc_BaseDataDir (mg_cfg m0) = ''/c''" by (simp_all add: m0(2) crd_cfg_def)
  have path: "filepath_Join [''/c'', ''cached-'' @ disk_hash @ ''.db''] = ''/c/cached-0000000000000000.db''" by code_simp
  have ne: "mc_CRDDir (mg_cfg m0) \<noteq> ''''" by (simp add: dir)
  from Initialize_uses_cache [OF disk_laws(2) m0(1) ne init, unfolded dir] obtain hash files and v :: "nat \<times> (string \<rightharpoonup> string) \<times> unit" where
    h: "computeDirHash disk_lib ''crds'' v = Inr (hash, files)"
    and p: "ic_CachedDBPath (manager_inst_config m) = filepath_Join [''/c'', ''cached-'' @ hash @ ''.db'']" by (elim exE conjE)
  from h disk_dir_lib [of v] have "hash = disk_hash" by simp
  with p path init show ?thesis by metis
qed

end
