(* ===== verification/Api.thy ===== *)
theory Api
  imports Wiring
begin

text \<open>
  The package \<^verbatim>\<open>k8senv\<close> itself: the defaults and the options, the process-wide singleton with the warning a
  second \<^verbatim>\<open>NewManager\<close> logs, and the handles that \<^verbatim>\<open>Acquire\<close> returns. The public interface is the last layer over the manager.
\<close>

subsection \<open>Defaults and options\<close>

definition DefaultPoolSize :: int where "DefaultPoolSize = 4"
definition DefaultKineBinary :: string where "DefaultKineBinary = ''kine''"
definition DefaultKubeAPIServerBinary :: string where "DefaultKubeAPIServerBinary = ''kube-apiserver''"
definition DefaultAcquireTimeout :: duration where "DefaultAcquireTimeout = 30 * Second"
definition DefaultCRDCacheTimeout :: duration where "DefaultCRDCacheTimeout = 5 * Minute"
definition DefaultInstanceStartTimeout :: duration where "DefaultInstanceStartTimeout = 5 * Minute"
definition DefaultInstanceStopTimeout :: duration where "DefaultInstanceStopTimeout = 10 * Second"
definition DefaultCleanupTimeout :: duration where "DefaultCleanupTimeout = 30 * Second"
definition DefaultShutdownDrainTimeout :: duration where "DefaultShutdownDrainTimeout = 30 * Second"
definition defaultBaseDataDirName :: string where "defaultBaseDataDirName = ''k8senv''"

text \<open>A \<^verbatim>\<open>ManagerOption\<close> changes the configuration. The \<^verbatim>\<open>With\<close> functions panic when they are called, not when the
  option is applied; a panic carries the message without the value \<^verbatim>\<open>%v\<close> prints.\<close>

type_synonym manager_option = "manager_config \<Rightarrow> manager_config"

definition requirePositive :: "string \<Rightarrow> duration \<Rightarrow> manager_option \<Rightarrow> manager_option outcome" where
  "requirePositive name d opt =
     (if d \<le> 0 then Panic (''k8senv: '' @ name @ '' must be greater than 0'') else Ret opt)"

definition opt_requireNonEmpty :: "string \<Rightarrow> string \<Rightarrow> manager_option \<Rightarrow> manager_option outcome" where
  "opt_requireNonEmpty name s opt =
     (if s = '''' then Panic (''k8senv: '' @ name @ '' must not be empty'') else Ret opt)"

definition WithPoolSize :: "int \<Rightarrow> manager_option outcome" where
  "WithPoolSize n =
     (if n < 0 then Panic (''k8senv: pool size must not be negative, got '' @ show_int n)
      else Ret (\<lambda>c. c\<lparr>mc_PoolSize := n\<rparr>))"

definition WithKineBinary :: "string \<Rightarrow> manager_option outcome" where
  "WithKineBinary binPath = opt_requireNonEmpty ''kine binary path'' binPath (\<lambda>c. c\<lparr>mc_KineBinary := binPath\<rparr>)"

definition WithKubeAPIServerBinary :: "string \<Rightarrow> manager_option outcome" where
  "WithKubeAPIServerBinary binPath =
     opt_requireNonEmpty ''kube-apiserver binary path'' binPath (\<lambda>c. c\<lparr>mc_KubeAPIServerBinary := binPath\<rparr>)"

definition WithAcquireTimeout :: "duration \<Rightarrow> manager_option outcome" where
  "WithAcquireTimeout d = requirePositive ''acquire timeout'' d (\<lambda>c. c\<lparr>mc_AcquireTimeout := d\<rparr>)"

definition WithPrepopulateDB :: "string \<Rightarrow> manager_option outcome" where
  "WithPrepopulateDB dbPath = opt_requireNonEmpty ''prepopulate DB path'' dbPath (\<lambda>c. c\<lparr>mc_PrepopulateDBPath := dbPath\<rparr>)"

definition WithCRDCacheTimeout :: "duration \<Rightarrow> manager_option outcome" where
  "WithCRDCacheTimeout d = requirePositive ''CRD cache timeout'' d (\<lambda>c. c\<lparr>mc_CRDCacheTimeout := d\<rparr>)"

definition WithInstanceStartTimeout :: "duration \<Rightarrow> manager_option outcome" where
  "WithInstanceStartTimeout d = requirePositive ''instance start timeout'' d (\<lambda>c. c\<lparr>mc_InstanceStartTimeout := d\<rparr>)"

definition WithInstanceStopTimeout :: "duration \<Rightarrow> manager_option outcome" where
  "WithInstanceStopTimeout d = requirePositive ''instance stop timeout'' d (\<lambda>c. c\<lparr>mc_InstanceStopTimeout := d\<rparr>)"

definition WithCleanupTimeout :: "duration \<Rightarrow> manager_option outcome" where
  "WithCleanupTimeout d = requirePositive ''cleanup timeout'' d (\<lambda>c. c\<lparr>mc_CleanupTimeout := d\<rparr>)"

definition WithCRDDir :: "string \<Rightarrow> manager_option outcome" where
  "WithCRDDir dirPath = opt_requireNonEmpty ''CRD directory path'' dirPath (\<lambda>c. c\<lparr>mc_CRDDir := dirPath\<rparr>)"

definition WithShutdownDrainTimeout :: "duration \<Rightarrow> manager_option outcome" where
  "WithShutdownDrainTimeout d = requirePositive ''shutdown drain timeout'' d (\<lambda>c. c\<lparr>mc_ShutdownDrainTimeout := d\<rparr>)"

definition WithBaseDataDir :: "string \<Rightarrow> manager_option outcome" where
  "WithBaseDataDir dir = opt_requireNonEmpty ''base data directory'' dir (\<lambda>c. c\<lparr>mc_BaseDataDir := dir\<rparr>)"

text \<open>\<^verbatim>\<open>os.TempDir()\<close> is an argument.\<close>

definition defaultManagerConfig :: "string \<Rightarrow> manager_config" where
  "defaultManagerConfig tempDir =
     \<lparr>mc_KineBinary = DefaultKineBinary, mc_KubeAPIServerBinary = DefaultKubeAPIServerBinary,
      mc_AcquireTimeout = DefaultAcquireTimeout, mc_PrepopulateDBPath = '''',
      mc_BaseDataDir = filepath_Join [tempDir, defaultBaseDataDirName], mc_CRDDir = '''',
      mc_PoolSize = DefaultPoolSize, mc_CRDCacheTimeout = DefaultCRDCacheTimeout,
      mc_InstanceStartTimeout = DefaultInstanceStartTimeout, mc_InstanceStopTimeout = DefaultInstanceStopTimeout,
      mc_CleanupTimeout = DefaultCleanupTimeout, mc_ShutdownDrainTimeout = DefaultShutdownDrainTimeout\<rparr>"

definition applyOptions :: "string \<Rightarrow> manager_option list \<Rightarrow> manager_config" where
  "applyOptions tempDir opts = foldl (\<lambda>cfg opt. opt cfg) (defaultManagerConfig tempDir) opts"

subsection \<open>The singleton\<close>

text \<open>The fields of \<^verbatim>\<open>core.ManagerConfig\<close> in their order, as reflection sees them.\<close>

datatype field_value = FStr string | FDur duration | FInt int

definition config_fields :: "manager_config \<Rightarrow> (string \<times> field_value) list" where
  "config_fields c =
     [(''KineBinary'', FStr (mc_KineBinary c)), (''KubeAPIServerBinary'', FStr (mc_KubeAPIServerBinary c)),
      (''AcquireTimeout'', FDur (mc_AcquireTimeout c)), (''PrepopulateDBPath'', FStr (mc_PrepopulateDBPath c)),
      (''BaseDataDir'', FStr (mc_BaseDataDir c)), (''CRDDir'', FStr (mc_CRDDir c)), (''PoolSize'', FInt (mc_PoolSize c)),
      (''CRDCacheTimeout'', FDur (mc_CRDCacheTimeout c)), (''InstanceStartTimeout'', FDur (mc_InstanceStartTimeout c)),
      (''InstanceStopTimeout'', FDur (mc_InstanceStopTimeout c)), (''CleanupTimeout'', FDur (mc_CleanupTimeout c)),
      (''ShutdownDrainTimeout'', FDur (mc_ShutdownDrainTimeout c))]"

text \<open>A difference is the name of the field and the two values its message prints.\<close>

definition configDiffs :: "manager_config \<Rightarrow> manager_config \<Rightarrow> (string \<times> field_value \<times> field_value) list" where
  "configDiffs stored incoming =
     map (\<lambda>((name, a), (_, b)). (name, a, b))
       (filter (\<lambda>((_, a), (_, b)). a \<noteq> b) (zip (config_fields stored) (config_fields incoming)))"

text \<open>What the warning says: nothing more than that the options are ignored, or the conflicts.\<close>

datatype dup_warning = OptionsIgnored | OptionsConflict "(string \<times> field_value \<times> field_value) list"

definition logDuplicateNewManager :: "string \<Rightarrow> manager_config \<Rightarrow> manager_option list \<Rightarrow> dup_warning" where
  "logDuplicateNewManager tempDir singletonCfg opts =
     (if opts = [] then OptionsIgnored
      else (let diffs = configDiffs singletonCfg (applyOptions tempDir opts)
            in if diffs = [] then OptionsIgnored else OptionsConflict diffs))"

text \<open>\<^verbatim>\<open>singletonMgr\<close> and \<^verbatim>\<open>singletonCfg\<close>, and the warnings logged.\<close>

record 'w singleton =
  sg_mgr :: "'w mgr option"
  sg_cfg :: "manager_config option"
  sg_log :: "dup_warning list"

definition NewManager :: "string \<Rightarrow> manager_option list \<Rightarrow> 'w \<Rightarrow> 'w singleton \<Rightarrow> unit outcome \<times> 'w singleton" where
  "NewManager tempDir opts w s =
     (case sg_mgr s of
        None \<Rightarrow>
          (let cfg = applyOptions tempDir opts
           in case NewManagerWithConfig cfg w of
                Panic msg \<Rightarrow> (Panic msg, s)
              | Ret m \<Rightarrow> (Ret (), s\<lparr>sg_mgr := Some m, sg_cfg := Some cfg\<rparr>))
      | Some m \<Rightarrow> (Ret (), s\<lparr>sg_log := sg_log s @ [logDuplicateNewManager tempDir (the (sg_cfg s)) opts]\<rparr>))"

definition resetForTesting ::
  "'w os \<Rightarrow> (nat list \<Rightarrow> nat list) \<Rightarrow> bool \<Rightarrow> 'w singleton \<Rightarrow> (go_error option \<times> 'w mgr option \<times> 'w singleton) option" where
  "resetForTesting sys sched drained s =
     (case sg_mgr s of
        None \<Rightarrow> Some (None, None, s\<lparr>sg_mgr := None, sg_cfg := None\<rparr>)
      | Some m \<Rightarrow>
          (case Shutdown sys sched id drained m of
             None \<Rightarrow> None
           | Some (e, m1) \<Rightarrow>
               Some (map_option (Wrapf ''shutting down existing manager: %w'' []) e, Some m1,
                     s\<lparr>sg_mgr := None, sg_cfg := None\<rparr>)))"

subsection \<open>Handles\<close>

record instanceWrapper =
  iw_inst :: nat
  iw_token :: "64 word"
  iw_released :: bool

definition wrapper_Initialize ::
  "'w os \<Rightarrow> 'w ensure_cache \<Rightarrow> (nat list \<Rightarrow> nat list) \<Rightarrow> ctx \<Rightarrow> 'w mgr \<Rightarrow> go_error option outcome \<times> 'w mgr" where
  "wrapper_Initialize = Initialize"

definition wrapper_Acquire ::
  "'w os \<Rightarrow> (kine_process, api_process, 'w) errgroup \<Rightarrow> ctx \<Rightarrow> sem_event \<Rightarrow> 'w mgr \<Rightarrow>
   ((go_error + instanceWrapper) outcome \<times> 'w mgr) option" where
  "wrapper_Acquire sys grp c ev m =
     (case manager_Acquire sys grp id id c ev m of
        None \<Rightarrow> None
      | Some (Panic msg, m1) \<Rightarrow> Some (Panic msg, m1)
      | Some (Ret (Inl e), m1) \<Rightarrow> Some (Ret (Inl e), m1)
      | Some (Ret (Inr (inst, token)), m1) \<Rightarrow>
          Some (Ret (Inr \<lparr>iw_inst = inst, iw_token = token, iw_released = False\<rparr>), m1))"

definition wrapper_Shutdown ::
  "'w os \<Rightarrow> (nat list \<Rightarrow> nat list) \<Rightarrow> bool \<Rightarrow> 'w mgr \<Rightarrow> (go_error option \<times> 'w mgr) option" where
  "wrapper_Shutdown sys sched drained m = Shutdown sys sched id drained m"

definition wrapper_Config ::
  "'w os \<Rightarrow> race \<Rightarrow> instanceWrapper \<Rightarrow> 'w mgr \<Rightarrow> (go_error + rest_config) \<times> 'w mgr" where
  "wrapper_Config sys race w m =
     (if iw_released w then (Inl ErrInstanceReleased, m)
      else (case inst_Config sys race (co_heap m (iw_inst w)) (co_world m) of
              (res, i, v) \<Rightarrow> (res, (set_inst (iw_inst w) i m)\<lparr>co_world := v\<rparr>)))"

definition wrapper_Release ::
  "'w os \<Rightarrow> instanceWrapper \<Rightarrow> 'w mgr \<Rightarrow> go_error option outcome \<times> instanceWrapper \<times> 'w mgr" where
  "wrapper_Release sys w m =
     (if iw_released w then (Ret (Some ErrDoubleRelease), w, m)
      else (case manager_Release sys (iw_inst w) (iw_token w) m of
              (out, m1) \<Rightarrow> (out, w\<lparr>iw_released := True\<rparr>, m1)))"

definition wrapper_ID :: "instanceWrapper \<Rightarrow> 'w mgr \<Rightarrow> string" where
  "wrapper_ID w m = in_id (co_heap m (iw_inst w))"

subsection \<open>Configurations the options can build\<close>

text \<open>The options a caller can hold: those a \<^verbatim>\<open>With\<close> function returned.\<close>

inductive made_option :: "manager_option \<Rightarrow> bool" where
  "WithPoolSize n = Ret opt \<Longrightarrow> made_option opt"
| "WithKineBinary s = Ret opt \<Longrightarrow> made_option opt"
| "WithKubeAPIServerBinary s = Ret opt \<Longrightarrow> made_option opt"
| "WithAcquireTimeout d = Ret opt \<Longrightarrow> made_option opt"
| "WithPrepopulateDB s = Ret opt \<Longrightarrow> made_option opt"
| "WithCRDCacheTimeout d = Ret opt \<Longrightarrow> made_option opt"
| "WithInstanceStartTimeout d = Ret opt \<Longrightarrow> made_option opt"
| "WithInstanceStopTimeout d = Ret opt \<Longrightarrow> made_option opt"
| "WithCleanupTimeout d = Ret opt \<Longrightarrow> made_option opt"
| "WithCRDDir s = Ret opt \<Longrightarrow> made_option opt"
| "WithShutdownDrainTimeout d = Ret opt \<Longrightarrow> made_option opt"
| "WithBaseDataDir s = Ret opt \<Longrightarrow> made_option opt"

lemmas option_defs = WithPoolSize_def WithKineBinary_def WithKubeAPIServerBinary_def WithAcquireTimeout_def
  WithPrepopulateDB_def WithCRDCacheTimeout_def WithInstanceStartTimeout_def WithInstanceStopTimeout_def
  WithCleanupTimeout_def WithCRDDir_def WithShutdownDrainTimeout_def WithBaseDataDir_def
  requirePositive_def opt_requireNonEmpty_def

lemma made_option_valid: "made_option opt \<Longrightarrow> mc_Validate c = None \<Longrightarrow> mc_Validate (opt c) = None"
  by (induction rule: made_option.induct) (auto simp: option_defs mc_Validate_None_iff split: if_splits)

lemmas default_defs = defaultManagerConfig_def DefaultPoolSize_def DefaultKineBinary_def DefaultKubeAPIServerBinary_def
  DefaultAcquireTimeout_def DefaultCRDCacheTimeout_def DefaultInstanceStartTimeout_def DefaultInstanceStopTimeout_def
  DefaultCleanupTimeout_def DefaultShutdownDrainTimeout_def defaultBaseDataDirName_def

lemma default_valid: "mc_Validate (defaultManagerConfig tempDir) = None"
  by (simp add: mc_Validate_None_iff default_defs plain_elem_def)

lemma applyOptions_valid:
  assumes "\<forall>opt \<in> set opts. made_option opt"
  shows "mc_Validate (applyOptions tempDir opts) = None"
proof -
  have "mc_Validate c = None \<Longrightarrow> \<forall>opt \<in> set os. made_option opt \<Longrightarrow> mc_Validate (foldl (\<lambda>cfg opt. opt cfg) c os) = None"
    for c and os :: "manager_option list"
    by (induction os arbitrary: c) (simp_all add: made_option_valid)
  from this [OF default_valid assms] show ?thesis by (simp add: applyOptions_def)
qed

lemma configDiffs_Nil: "configDiffs a b = [] \<longleftrightarrow> a = b"
  by (cases a; cases b) (auto simp: configDiffs_def config_fields_def)



subsection \<open>Clients\<close>

text \<open>A process that uses the package one call at a time: the handles it was given, and the manager.\<close>

inductive api_run ::
  "'w os \<Rightarrow> (kine_process, api_process, 'w) errgroup \<Rightarrow> 'w ensure_cache \<Rightarrow> manager_config \<Rightarrow> instanceWrapper list \<Rightarrow>
   'w mgr \<Rightarrow> bool"
  for sys grp ensureCache cfg where
  api_new: "NewManagerWithConfig cfg w = Ret m \<Longrightarrow> api_run sys grp ensureCache cfg [] m"
| api_init: "api_run sys grp ensureCache cfg ws m \<Longrightarrow>
    wrapper_Initialize sys ensureCache sched c m = (Ret r, m') \<Longrightarrow> api_run sys grp ensureCache cfg ws m'"
| api_grant: "api_run sys grp ensureCache cfg ws m \<Longrightarrow> wrapper_Acquire sys grp c ev m = Some (Ret (Inr w), m') \<Longrightarrow>
    api_run sys grp ensureCache cfg (ws @ [w]) m'"
| api_refuse: "api_run sys grp ensureCache cfg ws m \<Longrightarrow> wrapper_Acquire sys grp c ev m = Some (Ret (Inl e), m') \<Longrightarrow>
    api_run sys grp ensureCache cfg ws m'"
| api_release: "api_run sys grp ensureCache cfg ws m \<Longrightarrow> i < length ws \<Longrightarrow>
    wrapper_Release sys (ws ! i) m = (out, w, m') \<Longrightarrow> api_run sys grp ensureCache cfg (ws[i := w]) m'"
| api_shutdown: "api_run sys grp ensureCache cfg ws m \<Longrightarrow> \<forall>xs. mset (sched xs) = mset xs \<Longrightarrow>
    wrapper_Shutdown sys sched drained m = Some (e, m') \<Longrightarrow> api_run sys grp ensureCache cfg ws m'"

text \<open>Every handle that was not released holds its instance, and no two hold the same one.\<close>

definition handles_ok :: "lease_event list \<Rightarrow> instanceWrapper list \<Rightarrow> 'w mgr \<Rightarrow> bool" where
  "handles_ok es ws m \<longleftrightarrow>
     (\<forall>i < length ws. Granted (iw_inst (ws ! i)) (iw_token (ws ! i)) \<in> set es) \<and>
     (\<forall>i < length ws. \<not> iw_released (ws ! i) \<longrightarrow> leases m (iw_inst (ws ! i)) = Some (iw_token (ws ! i))) \<and>
     (\<forall>i < length ws. \<forall>j < length ws. i \<noteq> j \<and> \<not> iw_released (ws ! i) \<and> \<not> iw_released (ws ! j) \<longrightarrow>
        iw_inst (ws ! i) \<noteq> iw_inst (ws ! j))"

lemma sim_leases: "sim es m \<Longrightarrow> lease_run es Map.empty = Some (leases m)"
  by (simp add: sim_def)

lemma handles_grant:
  assumes "sim es m" and "handles_ok es ws m" and "sim (es @ [Granted a t]) m'"
  shows "handles_ok (es @ [Granted a t]) (ws @ [\<lparr>iw_inst = a, iw_token = t, iw_released = False\<rparr>]) m'"
proof -
  from sim_leases [OF assms(1)] sim_leases [OF assms(3)]
  have free: "leases m a = None" and new: "leases m' = (leases m)(a \<mapsto> t)"
    by (auto simp: lease_run_append split: if_splits)
  from assms(2) free have "\<forall>i < length ws. \<not> iw_released (ws ! i) \<longrightarrow> iw_inst (ws ! i) \<noteq> a"
    by (auto simp: handles_ok_def)
  with assms(2) new show ?thesis by (auto simp: handles_ok_def nth_append less_Suc_eq)
qed

lemma handles_silent: "handles_ok es ws m \<Longrightarrow> leases m' = leases m \<Longrightarrow> handles_ok (es @ fs) ws m'"
  by (auto simp: handles_ok_def)

lemma wrapper_Release_ok:
  assumes "sim es m" and "handles_ok es ws m" and "i < length ws" and "wrapper_Release sys (ws ! i) m = (out, w, m')"
  shows "if iw_released (ws ! i) then out = Ret (Some ErrDoubleRelease) \<and> w = ws ! i \<and> m' = m
    else (\<exists>r. out = Ret r) \<and> w = (ws ! i)\<lparr>iw_released := True\<rparr> \<and>
      (let e = Returned (iw_inst (ws ! i)) (iw_token (ws ! i)) in sim (es @ [e]) m' \<and> handles_ok (es @ [e]) (ws[i := w]) m')"
proof (cases "iw_released (ws ! i)")
  case True
  with assms(4) show ?thesis by (simp add: wrapper_Release_def)
next
  case False
  let ?a = "iw_inst (ws ! i)" and ?t = "iw_token (ws ! i)"
  from False assms(4) have rel: "manager_Release sys ?a ?t m = (out, m')" and w: "w = (ws ! i)\<lparr>iw_released := True\<rparr>"
    by (auto simp: wrapper_Release_def split: prod.splits)
  from assms(2,3) False have g: "Granted ?a ?t \<in> set es" and l: "leases m ?a = Some ?t" by (simp_all add: handles_ok_def)
  have "\<not> sim (es @ [Rejected ?a ?t]) m" using sim_leases [OF assms(1)] l by (auto simp: sim_def lease_run_append)
  with sim_release [OF assms(1) g rel] have out: "\<exists>r. out = Ret r" and sim: "sim (es @ [Returned ?a ?t]) m'" by auto
  from sim_leases [OF sim] sim_leases [OF assms(1)] l have new: "leases m' = (leases m)(?a := None)"
    by (simp add: lease_run_append)
  have "handles_ok (es @ [Returned ?a ?t]) (ws[i := w]) m'"
    using assms(2,3) False new w by (auto simp: handles_ok_def nth_list_update)
  with False out sim w show ?thesis by (simp add: Let_def)
qed

lemma api_release_step:
  assumes laws: "group_law grp" "net_law sys" "ctx_law sys" "cache_law ensureCache"
    and es: "manager_run sys grp ensureCache cfg es m" "handles_ok es ws m"
    and i: "i < length ws" and rel: "wrapper_Release sys (ws ! i) m = (out, w, m')"
  shows "\<exists>es. manager_run sys grp ensureCache cfg es m' \<and> handles_ok es (ws[i := w]) m'"
proof (cases "iw_released (ws ! i)")
  case True
  with wrapper_Release_ok [OF manager_run_sim [OF laws es(1)] es(2) i rel] es show ?thesis
    by (auto simp: list_update_same_conv)
next
  case False
  let ?a = "iw_inst (ws ! i)" and ?t = "iw_token (ws ! i)"
  from False rel have mrel: "manager_Release sys ?a ?t m = (out, m')"
    by (auto simp: wrapper_Release_def split: prod.splits)
  from False wrapper_Release_ok [OF manager_run_sim [OF laws es(1)] es(2) i rel] obtain r where r: "out = Ret r"
    and h: "handles_ok (es @ [Returned ?a ?t]) (ws[i := w]) m'" by (auto simp: Let_def)
  have "Granted ?a ?t \<in> set es" using es(2) i by (simp add: handles_ok_def)
  from run_return [OF es(1) this mrel [unfolded r]] h show ?thesis by blast
qed

lemma api_run_handles:
  assumes laws: "group_law grp" "net_law sys" "ctx_law sys" "cache_law ensureCache"
    and run: "api_run sys grp ensureCache cfg ws m"
  shows "\<exists>es. manager_run sys grp ensureCache cfg es m \<and> handles_ok es ws m"
  using run
proof (induction rule: api_run.induct)
  case (api_new w m)
  then show ?case by (auto simp: handles_ok_def intro: run_new)
next
  case (api_init ws m sched c r m')
  then obtain es where es: "manager_run sys grp ensureCache cfg es m" "handles_ok es ws m" by blast
  from api_init(2) have i: "Initialize sys ensureCache sched c m = (Ret r, m')" by (simp add: wrapper_Initialize_def)
  have "leases m' = leases m"
    using Initialize_ok [OF laws(4) _ i] manager_run_sim [OF laws es(1)] by (simp add: sim_def)
  with run_init [OF es(1) i] handles_silent [OF es(2), of m' "[]"] show ?case by auto
next
  case (api_grant ws m c ev w m')
  then obtain es where es: "manager_run sys grp ensureCache cfg es m" "handles_ok es ws m" by blast
  from api_grant(2) obtain a t where at: "manager_Acquire sys grp id id c ev m = Some (Ret (Inr (a, t)), m')"
    and w: "w = \<lparr>iw_inst = a, iw_token = t, iw_released = False\<rparr>"
    by (auto simp: wrapper_Acquire_def split: option.splits outcome.splits sum.splits)
  note run = run_grant [OF es(1) at]
  with handles_grant [OF manager_run_sim [OF laws es(1)] es(2) manager_run_sim [OF laws run]] w show ?case by blast
next
  case (api_refuse ws m c ev e m')
  then obtain es where es: "manager_run sys grp ensureCache cfg es m" "handles_ok es ws m" by blast
  from api_refuse(2) have "manager_Acquire sys grp id id c ev m = Some (Ret (Inl e), m')"
    by (auto simp: wrapper_Acquire_def split: option.splits outcome.splits sum.splits)
  note run = run_refuse [OF es(1) this]
  have "leases m' = leases m"
    using sim_leases [OF manager_run_sim [OF laws run]] sim_leases [OF manager_run_sim [OF laws es(1)]]
    by (simp add: lease_run_append)
  with run handles_silent [OF es(2)] show ?case by blast
next
  case (api_release ws m i out w m')
  then show ?case using api_release_step [OF laws] by blast
next
  case (api_shutdown ws m sched drained e m')
  then obtain es where es: "manager_run sys grp ensureCache cfg es m" "handles_ok es ws m" by blast
  from api_shutdown(3) have s: "Shutdown sys sched id drained m = Some (e, m')" by (simp add: wrapper_Shutdown_def)
  note run = run_shutdown [OF es(1) api_shutdown(2) s]
  have "leases m' = leases m"
    using sim_leases [OF manager_run_sim [OF laws run]] sim_leases [OF manager_run_sim [OF laws es(1)]] by simp
  with run handles_silent [OF es(2), of m' "[]"] show ?case by auto
qed

text \<open>C11. Through the public interface the panics of the core package on a stale token are out of reach: in any
  run of calls, releasing a handle for the first time returns and ends exactly its lease, releasing it
  again returns \<^verbatim>\<open>ErrDoubleRelease\<close> and changes nothing, and two handles that are both not released are
  of different instances.\<close>

theorem wrapper_Release_safe:
  assumes "group_law grp" and "net_law sys" and "ctx_law sys" and "cache_law ensureCache"
    and "api_run sys grp ensureCache cfg ws m" and "i < length ws" and "wrapper_Release sys (ws ! i) m = (out, w, m')"
  shows "(if iw_released (ws ! i) then out = Ret (Some ErrDoubleRelease) \<and> w = ws ! i \<and> m' = m
      else (\<exists>r. out = Ret r) \<and> iw_released w \<and> leases m (iw_inst w) = Some (iw_token w) \<and>
        leases m' = (leases m)(iw_inst w := None)) \<and>
    (\<forall>j < length ws. j \<noteq> i \<and> \<not> iw_released (ws ! i) \<and> \<not> iw_released (ws ! j) \<longrightarrow> iw_inst (ws ! j) \<noteq> iw_inst (ws ! i))"
proof (rule conjI)
  obtain es where es: "manager_run sys grp ensureCache cfg es m" "handles_ok es ws m"
    using api_run_handles [OF assms(1-5)] by blast
  note sim = manager_run_sim [OF assms(1-4) es(1)]
  note ok = wrapper_Release_ok [OF sim es(2) assms(6,7)]
  show "if iw_released (ws ! i) then out = Ret (Some ErrDoubleRelease) \<and> w = ws ! i \<and> m' = m
      else (\<exists>r. out = Ret r) \<and> iw_released w \<and> leases m (iw_inst w) = Some (iw_token w) \<and>
        leases m' = (leases m)(iw_inst w := None)"
  proof (cases "iw_released (ws ! i)")
    case False
    let ?a = "iw_inst (ws ! i)" and ?t = "iw_token (ws ! i)"
    from False ok have w: "w = (ws ! i)\<lparr>iw_released := True\<rparr>" and r: "\<exists>r. out = Ret r"
      and sim': "sim (es @ [Returned ?a ?t]) m'" by (simp_all add: Let_def)
    have l: "leases m ?a = Some ?t" using es(2) assms(6) False by (simp add: handles_ok_def)
    from sim_leases [OF sim'] sim_leases [OF sim] l have "leases m' = (leases m)(?a := None)" by (simp add: lease_run_append)
    with False w r l show ?thesis by simp
  qed (use ok in simp)
  show "\<forall>j < length ws. j \<noteq> i \<and> \<not> iw_released (ws ! i) \<and> \<not> iw_released (ws ! j) \<longrightarrow> iw_inst (ws ! j) \<noteq> iw_inst (ws ! i)"
    using es(2) assms(6) unfolding handles_ok_def by blast
qed

theorem wrapper_Release_safe_witness:
  "\<exists>w m r w' m'. api_run counting_net seq_group keep_cache sample_cfg [w] m \<and>
     wrapper_Release counting_net w m = (Ret r, w', m') \<and> leases m' = (leases m)(iw_inst w' := None)"
proof -
  obtain m0 m1 where new: "NewManagerWithConfig sample_cfg (0 :: nat) = Ret m0"
    and init: "Initialize counting_net keep_cache id 1 m0 = (Ret None, m1)" "sample_ready m1" using sample_Initialize by blast
  obtain a t m where acq: "manager_Acquire counting_net seq_group id id 1 GotSlot m1 = Some (Ret (Inr (a, t)), m)"
    using sample_Acquire [OF init(2)] by blast
  let ?w = "\<lparr>iw_inst = a, iw_token = t, iw_released = False\<rparr>"
  have "api_run counting_net seq_group keep_cache sample_cfg [] m1"
    using api_init [OF api_new [OF new]] init(1) by (simp add: wrapper_Initialize_def)
  from api_grant [OF this, of 1 GotSlot ?w m] acq
  have run: "api_run counting_net seq_group keep_cache sample_cfg [?w] m" by (simp add: wrapper_Acquire_def)
  obtain out w' m' where rel: "wrapper_Release counting_net ([?w] ! 0) m = (out, w', m')" by (metis prod_cases3)
  from wrapper_Release_safe [OF seq_group_law counting_net_law counting_net_ctx keep_cache_law run _ rel] obtain r where
    "out = Ret r" "leases m' = (leases m)(iw_inst w' := None)" by auto
  with run rel show ?thesis by (metis nth_Cons_0)
qed

end
