(* ===== verification/Frame.thy ===== *)
theory Frame
  imports Crdcache
begin

text \<open>
  What the work on a kube stack leaves alone. \<open>obs\<close> is any observation of the world that only a write to a
  file named \<^verbatim>\<open>cached-....db\<close> may change (the content of a cache file, the owner of a lock). The files that
  the stack, its processes and the application of the documents write have other names, so every
  operation below keeps \<open>obs\<close>; the copy of the database into the cache is the one that does not.
\<close>

named_theorems frame "operations that keep the observation"

subsection \<open>The laws\<close>

definition cached_name :: "string \<Rightarrow> bool" where
  "cached_name p \<longleftrightarrow> prefix ''cached-'' (last_elem p) \<and> suffix ''.db'' (last_elem p)"

text \<open>
  Contexts, sockets, signals, processes and directories do not change the observation; a file operation
  changes it only where the file it writes is named like a cache; a poll changes it only through its
  condition.
\<close>

definition frame_law :: "('w \<Rightarrow> 'o) \<Rightarrow> 'w os \<Rightarrow> bool" where
  "frame_law obs sys \<longleftrightarrow>
     (\<forall>c w. obs (snd (os_ctx_with_cancel sys c w)) = obs w) \<and>
     (\<forall>c d w. obs (snd (os_ctx_with_timeout sys c d w)) = obs w) \<and>
     (\<forall>c w. obs (os_ctx_cancel sys c w) = obs w) \<and>
     (\<forall>w. obs (snd (os_net_listen sys w)) = obs w) \<and>
     (\<forall>a w. obs (snd (os_listener_close sys a w)) = obs w) \<and>
     (\<forall>f w. obs (snd (os_close_file sys f w)) = obs w) \<and>
     (\<forall>cm w. obs (snd (os_cmd_start sys cm w)) = obs w) \<and>
     (\<forall>p s w. obs (snd (os_signal sys p s w)) = obs w) \<and>
     (\<forall>p d w. obs (os_kill_after sys p d w) = obs w) \<and>
     (\<forall>p w. obs (os_cancel_kill sys p w) = obs w) \<and>
     (\<forall>p d w. obs (snd (os_recv_done sys p d w)) = obs w) \<and>
     (\<forall>p m w. obs (snd (os_mkdir_all sys p m w)) = obs w) \<and>
     (\<forall>w. obs (snd (os_ecdsa_key sys w)) = obs w) \<and>
     (\<forall>a w. obs (snd (os_dial sys a w)) = obs w) \<and>
     (\<forall>u w. obs (snd (os_http_get sys u w)) = obs w) \<and>
     (\<forall>c d w. obs (snd (os_wait_timer sys c d w)) = obs w) \<and>
     (\<forall>p w. obs (snd (os_build_config sys p w)) = obs w) \<and>
     (\<forall>p w. obs (snd (os_open sys p w)) = obs w) \<and>
     (\<forall>f m w. obs (snd (os_chmod sys f m w)) = obs w) \<and>
     (\<forall>f w. obs (snd (os_sync sys f w)) = obs w) \<and>
     (\<forall>f w. obs (snd (os_close sys f w)) = obs w) \<and>
     (\<forall>p m w f. fst (os_open_trunc sys p m w) = Inr f \<longrightarrow> snd f = p) \<and>
     (\<forall>p m w. \<not> cached_name p \<longrightarrow> obs (snd (os_open_trunc sys p m w)) = obs w) \<and>
     (\<forall>f g w. \<not> cached_name (snd f) \<longrightarrow> obs (snd (os_io_copy sys f g w)) = obs w) \<and>
     (\<forall>p w. \<not> cached_name p \<longrightarrow> obs (snd (os_create_file sys p w)) = obs w) \<and>
     (\<forall>p x m w. \<not> cached_name p \<longrightarrow> obs (snd (os_write_file sys p x m w)) = obs w) \<and>
     (\<forall>k p w. \<not> cached_name p \<longrightarrow> obs (snd (os_write_kubeconfig sys k p w)) = obs w) \<and>
     (\<forall>c i t b cond n w. (\<forall>k v. obs (snd (snd (cond k v))) = obs v) \<longrightarrow>
        obs (snd (snd (os_poll sys c i t b cond n w))) = obs w)"

text \<open>The group of \<^verbatim>\<open>errgroup\<close> changes the observation only through the calls of its tasks.\<close>

definition group_frame :: "('w \<Rightarrow> 'o) \<Rightarrow> ('p, 'q, 'w) errgroup \<Rightarrow> bool" where
  "group_frame obs grp \<longleftrightarrow>
     (\<forall>P Q c t1 t2 p q w. P p \<and> Q q \<and>
        (\<forall>g ph p w. P p \<longrightarrow> P (fst (snd (t1 g ph p w))) \<and> obs (snd (snd (t1 g ph p w))) = obs w) \<and>
        (\<forall>g ph q w. Q q \<longrightarrow> Q (fst (snd (t2 g ph q w))) \<and> obs (snd (snd (t2 g ph q w))) = obs w) \<longrightarrow>
        obs (snd (snd (snd (grp c t1 t2 p q w)))) = obs w)"

lemma group_frameD:
  assumes "group_frame obs grp" and "P p" and "Q q"
    and "\<And>g ph p w. P p \<Longrightarrow> P (fst (snd (t1 g ph p w))) \<and> obs (snd (snd (t1 g ph p w))) = obs w"
    and "\<And>g ph q w. Q q \<Longrightarrow> Q (fst (snd (t2 g ph q w))) \<and> obs (snd (snd (t2 g ph q w))) = obs w"
  shows "obs (snd (snd (snd (grp c t1 t2 p q w)))) = obs w"
  using assms(1) [unfolded group_frame_def, rule_format, of P p Q q t1 t2] assms(2-5) by simp

text \<open>Nor do the requests of the client libraries.\<close>

definition client_frame :: "('w \<Rightarrow> 'o) \<Rightarrow> ('w, 'x) crd_lib_scheme \<Rightarrow> bool" where
  "client_frame obs lib \<longleftrightarrow>
     (\<forall>cl w. obs (snd (cl_group_resources lib cl w)) = obs w) \<and>
     (\<forall>cl c res ns name data fm w. obs (snd (cl_patch lib cl c res ns name data fm w)) = obs w) \<and>
     (\<forall>cl c w. obs (snd (cc_list_crds lib cl c w)) = obs w) \<and>
     (\<forall>c w. obs (snd (cc_tick lib c w)) = obs w)"

lemma frame_lawD [frame]:
  assumes "frame_law obs sys"
  shows "obs (snd (os_ctx_with_cancel sys c w)) = obs w" "obs (snd (os_ctx_with_timeout sys c d w)) = obs w"
    "obs (os_ctx_cancel sys c w) = obs w" "obs (snd (os_net_listen sys w)) = obs w"
    "obs (snd (os_listener_close sys a w)) = obs w" "obs (snd (os_close_file sys fd w)) = obs w"
    "obs (snd (os_cmd_start sys cm w)) = obs w" "obs (snd (os_signal sys pid s w)) = obs w"
    "obs (os_kill_after sys pid d w) = obs w" "obs (os_cancel_kill sys pid w) = obs w"
    "obs (snd (os_recv_done sys pid d w)) = obs w" "obs (snd (os_mkdir_all sys p m w)) = obs w"
    "obs (snd (os_ecdsa_key sys w)) = obs w" "obs (snd (os_dial sys u w)) = obs w"
    "obs (snd (os_http_get sys u w)) = obs w" "obs (snd (os_wait_timer sys c d w)) = obs w"
    "obs (snd (os_build_config sys p w)) = obs w" "obs (snd (os_open sys p w)) = obs w"
    "obs (snd (os_chmod sys f m w)) = obs w" "obs (snd (os_sync sys f w)) = obs w" "obs (snd (os_close sys f w)) = obs w"
  using assms unfolding frame_law_def by (simp_all del: split_paired_All)

lemma frame_law_writes [frame]:
  assumes "frame_law obs sys"
  shows "\<not> cached_name p \<Longrightarrow> obs (snd (os_open_trunc sys p m w)) = obs w"
    "\<not> cached_name (snd f) \<Longrightarrow> obs (snd (os_io_copy sys f g w)) = obs w"
    "\<not> cached_name p \<Longrightarrow> obs (snd (os_create_file sys p w)) = obs w"
    "\<not> cached_name p \<Longrightarrow> obs (snd (os_write_file sys p x m w)) = obs w"
    "\<not> cached_name p \<Longrightarrow> obs (snd (os_write_kubeconfig sys k p w)) = obs w"
    "(\<And>k v. obs (snd (snd (cond k v))) = obs v) \<Longrightarrow> obs (snd (snd (os_poll sys c i t b cond n w))) = obs w"
  using assms unfolding frame_law_def by (simp_all del: split_paired_All)

lemma frame_law_trunc: "frame_law obs sys \<Longrightarrow> fst (os_open_trunc sys p m w) = Inr f \<Longrightarrow> snd f = p"
  unfolding frame_law_def by (simp del: split_paired_All)

lemma client_frameD [frame]:
  assumes "client_frame obs lib"
  shows "obs (snd (cl_group_resources lib cl w)) = obs w"
    "obs (snd (cl_patch lib cl c res ns name data fm w)) = obs w"
    "obs (snd (cc_list_crds lib cl c w)) = obs w" "obs (snd (cc_tick lib c w)) = obs w"
  using assms unfolding client_frame_def by simp_all

subsection \<open>Ports, logs and processes\<close>

lemma tryAllocate_frame [frame]: "frame_law obs sys \<Longrightarrow> obs (snd (snd (tryAllocate sys r w))) = obs w"
  by (simp add: tryAllocate_def case_prod_beta frame split: sum.splits net_addr.splits option.splits bool.splits)

lemma allocateLoop_frame [frame]: "frame_law obs sys \<Longrightarrow> obs (snd (snd (allocateLoop sys n r w))) = obs w"
  by (induction n arbitrary: r w) (simp_all add: case_prod_beta frame split: sum.splits option.splits)

lemma AllocatePortPair_frame [frame]: "frame_law obs sys \<Longrightarrow> obs (snd (snd (AllocatePortPair sys r w))) = obs w"
  by (simp add: AllocatePortPair_def allocatePort_def case_prod_beta frame split: sum.splits option.splits)

lemma logFiles_Close_frame [frame]: "frame_law obs sys \<Longrightarrow> obs (snd (logFiles_Close sys l w)) = obs w"
  by (simp add: logFiles_Close_def close_opt_def Let_def frame split: option.splits)

lemma stopWithDone_frame [frame]: "frame_law obs sys \<Longrightarrow> obs (snd (stopWithDone sys b pid t w)) = obs w"
  by (simp add: stopWithDone_def drainDone_def Let_def case_prod_beta frame split: option.splits)

lemma bp_Stop_frame [frame]: "frame_law obs sys \<Longrightarrow> obs (snd (snd (bp_Stop sys b t w))) = obs w"
  by (simp add: bp_Stop_def Let_def case_prod_beta frame split: option.splits)

lemma bp_Close_frame [frame]: "frame_law obs sys \<Longrightarrow> obs (snd (bp_Close sys b w)) = obs w"
  by (simp add: bp_Close_def Let_def case_prod_beta frame split: option.splits)

lemma stack_Stop_frame [frame]: "frame_law obs sys \<Longrightarrow> obs (snd (snd (snd (stack_Stop sys s t r w)))) = obs w"
  by (simp add: stack_Stop_def stopProcesses_def StopCloseAndNil_def api_Stop_def api_Close_def kine_Stop_def kine_Close_def
      case_prod_beta frame split: option.splits)

lemma cleanup_frame [frame]: "frame_law obs sys \<Longrightarrow> obs (snd (snd (cleanupAfterStartFailure sys s r w))) = obs w"
  by (simp add: cleanupAfterStartFailure_def stopProcesses_def StopCloseAndNil_def api_Stop_def api_Close_def kine_Stop_def
      kine_Close_def case_prod_beta frame split: option.splits)

lemma WaitReady_frame [frame]:
  assumes "frame_law obs sys" and "\<And>n v. obs (snd (chk n v)) = obs v"
  shows "obs (snd (WaitReady sys c cfg (Some chk) w)) = obs w"
  using assms by (simp add: WaitReady_def wait_condition_def case_prod_beta frame split: option.splits sum.splits)

subsection \<open>Starting\<close>

text \<open>The names of the files are fixed, and none is that of a cache.\<close>

lemma plain_names:
  "plain_elem ''token.csv''" "plain_elem ''sa.key''" "plain_elem ''auth-config.yaml''" "plain_elem ''kubeconfig.yaml''"
  "plain_elem ''kine-stdout.log''" "plain_elem ''kine-stderr.log''" "plain_elem ''kube-apiserver-stdout.log''"
  "plain_elem ''kube-apiserver-stderr.log''"
  by code_simp+

lemma cached_name_Join: "plain_elem e \<Longrightarrow> cached_name (filepath_Join [d, e]) \<longleftrightarrow> prefix ''cached-'' e \<and> suffix ''.db'' e"
  by (simp add: cached_name_def)

lemma fixed_names [simp]:
  "\<not> cached_name (filepath_Join [d, ''token.csv''])" "\<not> cached_name (filepath_Join [d, ''sa.key''])"
  "\<not> cached_name (filepath_Join [d, ''auth-config.yaml''])" "\<not> cached_name (filepath_Join [d, ''kubeconfig.yaml''])"
  "\<not> cached_name (filepath_Join [d, ''kine-stdout.log''])" "\<not> cached_name (filepath_Join [d, ''kine-stderr.log''])"
  "\<not> cached_name (filepath_Join [d, ''kube-apiserver-stdout.log''])"
  "\<not> cached_name (filepath_Join [d, ''kube-apiserver-stderr.log''])"
  "\<not> cached_name (filepath_Join [d, ''db'', ''state.db''])"
  by (simp_all add: cached_name_Join plain_names) (simp add: cached_name_def state_db_last)

lemma SetupAndStart_frame [frame]:
  assumes "frame_law obs sys" and "bp_name b = ''kine'' \<or> bp_name b = ''kube-apiserver''"
  shows "obs (snd (snd (SetupAndStart sys b cp dir w))) = obs w"
  using assms by (auto simp: SetupAndStart_def startCmd_def newLogFiles_def Let_def case_prod_beta frame
      split: option.splits sum.splits)

lemma prepareFiles_frame [frame]: "frame_law obs sys \<Longrightarrow> obs (snd (prepareFiles sys dir w)) = obs w"
  by (simp add: prepareFiles_def writeTokenFile_def setupCertsAndKeys_def writeAuthConfig_def EnsureDir_def Let_def
      case_prod_beta frame split: option.splits sum.splits)

text \<open>A copy that truncates its destination writes nothing else.\<close>

lemma openDstFile_trunc:
  assumes "frame_law obs sys" and "\<not> cached_name dst" and "\<not> cp_Atomic o1"
  shows "obs (snd (openDstFile sys dst o1 w)) = obs w" "fst (openDstFile sys dst o1 w) = Inr f \<Longrightarrow> snd f = dst"
  using assms by (auto simp: openDstFile_def Let_def case_prod_beta frame dest: frame_law_trunc split: option.splits sum.splits)

lemma copy_into_trunc:
  assumes "frame_law obs sys" and "\<not> cached_name (snd f)" and "\<not> cp_Atomic o1"
  shows "obs (snd (copy_into sys sf f dst o1 w)) = obs w"
  using assms by (simp add: copy_into_def finalizeCopy_def case_prod_beta frame split: option.splits)

lemma open_and_copy_trunc:
  assumes "frame_law obs sys" and "\<not> cached_name dst" and "\<not> cp_Atomic o1"
  shows "obs (snd (case openDstFile sys dst o1 w of (Inl e, w1) \<Rightarrow> (E e, w1) | (Inr f, w1) \<Rightarrow> copy_into sys sf f dst o1 w1)) = obs w"
proof (cases "fst (openDstFile sys dst o1 w)")
  case (Inr f)
  with openDstFile_trunc(2) [OF assms Inr] assms(2) have "\<not> cached_name (snd f)" by simp
  from copy_into_trunc [OF assms(1) this assms(3)] Inr openDstFile_trunc(1) [OF assms] show ?thesis
    by (simp add: case_prod_beta)
qed (simp add: case_prod_beta openDstFile_trunc(1) [OF assms])

lemma copy_from_trunc:
  assumes "frame_law obs sys" and "\<not> cached_name dst" and "\<not> cp_Atomic o0"
  shows "obs (snd (copy_from sys sf dst (Some o0) w)) = obs w"
proof -
  let ?o = "if cp_Mode o0 = 0 then o0\<lparr>cp_Mode := defaultFileMode\<rparr> else o0"
  have "\<not> cp_Atomic ?o" using assms(3) by simp
  note step = open_and_copy_trunc [OF assms(1,2) this]
  have dir: "obs (snd (EnsureDirForFile sys dst w)) = obs w"
    using assms(1) by (simp add: EnsureDirForFile_def EnsureDir_def case_prod_beta frame split: option.splits)
  show ?thesis
    using step dir by (auto simp: copy_from_def Let_def split: sum.splits bool.splits prod.splits option.splits)
qed

lemma prepopulateDB_frame [frame]:
  assumes "frame_law obs sys" and "\<not> cached_name dst"
  shows "obs (snd (prepopulateDB sys src dst w)) = obs w"
  using assms copy_from_trunc [OF assms]
  by (simp add: prepopulateDB_def CopyFile_def case_prod_beta frame split: option.splits sum.splits)

text \<open>The processes of a stack whose files are not named like a cache.\<close>

definition kine_apart :: "kine_process \<Rightarrow> bool" where
  "kine_apart p \<longleftrightarrow> bp_name (kine_base p) = ''kine'' \<and> \<not> cached_name (kc_SQLitePath (kine_conf p))"

definition api_apart :: "api_process \<Rightarrow> bool" where
  "api_apart p \<longleftrightarrow> bp_name (api_base p) = ''kube-apiserver''"

definition stack_apart :: "stack_config \<Rightarrow> bool" where
  "stack_apart cfg \<longleftrightarrow> \<not> cached_name (ks_SQLitePath cfg) \<and> \<not> cached_name (ks_KubeconfigPath cfg)"

lemma SetupAndStart_name [simp]: "bp_name (fst (snd (SetupAndStart sys b cp dir w))) = bp_name b"
  by (simp add: SetupAndStart_def case_prod_beta split: option.splits sum.splits)

lemma kine_Start_frame:
  assumes "frame_law obs sys" and "kine_apart p"
  shows "kine_apart (fst (snd (kine_Start sys p c w))) \<and> obs (snd (snd (kine_Start sys p c w))) = obs w"
  using assms by (simp add: kine_Start_def kine_apart_def case_prod_beta frame split: option.splits)

lemma api_Start_frame:
  assumes "frame_law obs sys" and "api_apart p"
  shows "api_apart (fst (snd (api_Start sys p c w))) \<and> obs (snd (snd (api_Start sys p c w))) = obs w"
  using assms by (simp add: api_Start_def api_apart_def Let_def case_prod_beta frame split: option.splits sum.splits)

lemma checks_frame [frame]:
  assumes "frame_law obs sys"
  shows "obs (snd (kine_check sys kc n w)) = obs w" "obs (snd (api_check sys ac n w)) = obs w"
  using assms by (simp_all add: kine_check_def api_check_def case_prod_beta frame split: option.splits sum.splits)

lemma kine_WaitReady_frame [frame]: "frame_law obs sys \<Longrightarrow> obs (snd (kine_WaitReady sys p c t w)) = obs w"
  by (simp add: kine_WaitReady_def case_prod_beta frame split: option.splits)

lemma api_WaitReady_frame [frame]: "frame_law obs sys \<Longrightarrow> obs (snd (api_WaitReady sys p c t w)) = obs w"
  by (simp add: api_WaitReady_def case_prod_beta frame split: option.splits)

lemma startAndWait_frame:
  assumes "\<And>p c w. P p \<Longrightarrow> P (fst (snd (start p c w))) \<and> obs (snd (snd (start p c w))) = obs w"
    and "\<And>p c t w. obs (snd (waitReady p c t w)) = obs w" and "P p"
  shows "P (fst (snd (startAndWait start waitReady pc t name g ph p w))) \<and>
     obs (snd (snd (startAndWait start waitReady pc t name g ph p w))) = obs w"
  using assms by (cases ph) (simp_all add: case_prod_beta split: option.splits)

lemma startAndWaitForReady_frame [frame]:
  assumes "frame_law obs sys" and "group_frame obs grp" and "kine_apart k" and "api_apart a"
  shows "obs (snd (snd (startAndWaitForReady sys grp s pc rc k a w))) = obs w"
proof -
  let ?t1 = "startAndWait (kine_Start sys) (kine_WaitReady sys) pc (ks_KineReadyTimeout (st_config s)) ''kine''"
  let ?t2 = "startAndWait (api_Start sys) (api_WaitReady sys) pc (ks_APIServerReadyTimeout (st_config s)) ''apiserver''"
  have k: "kine_apart (fst (snd (?t1 g ph p w))) \<and> obs (snd (snd (?t1 g ph p w))) = obs w" if "kine_apart p" for g ph p w
    by (rule startAndWait_frame [where P = kine_apart]) (simp_all add: kine_Start_frame [OF assms(1)] frame assms(1) that)
  have a: "api_apart (fst (snd (?t2 g ph p w))) \<and> obs (snd (snd (?t2 g ph p w))) = obs w" if "api_apart p" for g ph p w
    by (rule startAndWait_frame [where P = api_apart]) (simp_all add: api_Start_frame [OF assms(1)] frame assms(1) that)
  have "obs (snd (snd (snd (grp rc ?t1 ?t2 k a w)))) = obs w"
    by (rule group_frameD [where P = kine_apart and Q = api_apart, OF assms(2,3,4) k a])
  then show ?thesis by (simp add: startAndWaitForReady_def case_prod_beta)
qed

lemma WriteKubeconfig_frame [frame]:
  assumes "frame_law obs sys" and "\<not> cached_name (ac_KubeconfigPath (api_conf a))"
  shows "obs (snd (WriteKubeconfig sys a w)) = obs w"
  using assms by (simp add: WriteKubeconfig_def case_prod_beta frame split: option.splits)

lemma new_apart:
  "kine_New kcfg = Inr k \<Longrightarrow> \<not> cached_name (kc_SQLitePath kcfg) \<Longrightarrow> kine_apart k"
  "api_New acfg = Inr a \<Longrightarrow> api_conf a = acfg \<and> api_apart a"
  by (auto simp: kine_New_def api_New_def kine_apart_def api_apart_def base_process_of_def split: option.splits)

lemma createProcesses_frame:
  assumes "frame_law obs sys" and "stack_apart (st_config s)"
  shows "obs (snd (snd (createProcesses sys s w))) = obs w \<and>
    (fst (createProcesses sys s w) = None \<longrightarrow>
      kine_apart (the (st_kine (fst (snd (createProcesses sys s w))))) \<and>
      api_apart (the (st_apiserver (fst (snd (createProcesses sys s w))))))"
  using assms
  by (auto simp: createProcesses_def stack_apart_def Let_def case_prod_beta frame dest!: new_apart
      split: option.splits sum.splits)

lemma startGuarded_frame [frame]:
  assumes "frame_law obs sys" and "group_frame obs grp" and "stack_apart (st_config s)"
  shows "obs (snd (snd (snd (startGuarded sys grp s pc rc r w)))) = obs w"
proof -
  note c = createProcesses_frame [OF assms(1,3), of w]
  note g = startAndWaitForReady_frame [OF assms(1,2)]
  show ?thesis using assms(1) c g by (simp add: startGuarded_def case_prod_beta frame split: option.splits)
qed

lemma stack_Start_frame [frame]:
  assumes "frame_law obs sys" and "group_frame obs grp" and "stack_apart (st_config s)"
  shows "obs (snd (snd (snd (stack_Start sys grp s pc rc r w)))) = obs w"
  using assms by (simp add: stack_Start_def EnsureDirForFile_def EnsureDir_def allocatePorts_def case_prod_beta frame
      split: option.splits sum.splits)

lemma startRetryLoop_frame [frame]:
  assumes "frame_law obs sys" and "group_frame obs grp" and "stack_apart cfg"
  shows "obs (snd (snd (startRetryLoop sys grp pc rc cfg k n lastErr r w))) = obs w"
  using assms
proof (induction n arbitrary: lastErr r w)
  case (Suc n)
  then have "obs (snd (snd (snd (stack_Start sys grp (newStack cfg) pc rc r w)))) = obs w"
    by (simp add: frame newStack_def)
  with Suc show ?case by (simp add: Let_def case_prod_beta split: option.splits)
qed simp

lemma StartWithRetry_frame [frame]:
  assumes "frame_law obs sys" and "group_frame obs grp" and "stack_apart cfg"
  shows "obs (snd (snd (StartWithRetry sys grp pc rc cfg k r w))) = obs w"
  using assms by (simp add: StartWithRetry_def frame split: option.splits)

subsection \<open>Applying the documents and waiting for the CRDs\<close>

lemma refresh_frame [frame]: "client_frame obs lib \<Longrightarrow> obs (snd (snd (refresh lib dm w))) = obs w"
  by (simp add: refresh_def case_prod_beta frame split: sum.splits)

lemma discoveryLoop_frame [frame]:
  "client_frame obs lib \<Longrightarrow> frame_law obs sys \<Longrightarrow> obs (snd (snd (discoveryLoop lib sys c gvk n e dm w))) = obs w"
  by (induction n arbitrary: e dm w) (simp_all add: case_prod_beta frame split: option.splits sum.splits bool.splits)

lemma applyParsedDocument_frame [frame]:
  assumes "client_frame obs lib" and "frame_law obs sys"
  shows "obs (snd (snd (applyParsedDocument lib sys c cl d dm w))) = obs w"
  using assms by (simp add: applyParsedDocument_def discoverRESTMapping_def Let_def case_prod_beta frame
      split: option.splits sum.splits)

lemma applyGroup_frame [frame]:
  "client_frame obs lib \<Longrightarrow> frame_law obs sys \<Longrightarrow> obs (snd (snd (applyGroup lib sys c cl ds err dm w))) = obs w"
  by (induction ds arbitrary: err dm w) (simp_all add: case_prod_beta frame split: option.splits)

lemma applyInOrder_frame [frame]:
  "client_frame obs lib \<Longrightarrow> frame_law obs sys \<Longrightarrow> obs (snd (applyInOrder lib sys c cl ds dm w)) = obs w"
  by (induction ds arbitrary: dm w) (simp_all add: case_prod_beta frame split: option.splits)

lemma applyYAMLFiles_frame [frame]:
  assumes "client_frame obs lib" and "frame_law obs sys"
  shows "obs (snd (applyYAMLFiles lib sys sched c cfg files w)) = obs w"
  using assms by (simp add: applyYAMLFiles_def newDiscoveryMapper_def Let_def case_prod_beta frame
      split: option.splits sum.splits)

lemma establishLoop_frame:
  assumes "establishLoop lib cl c st warned w = Some out"
  shows "client_frame obs lib \<longrightarrow> obs (snd out) = obs w"
proof (rule establishLoop.raw_induct
    [of "\<lambda>lib cl c st warned w out. client_frame obs lib \<longrightarrow> obs (snd out) = obs w", OF _ assms])
  fix loop lib cl c st warned w out
  assume IH: "\<And>lib cl c st warned w out. loop lib cl c st warned w = Some out \<Longrightarrow> client_frame obs lib \<longrightarrow> obs (snd out) = obs w"
    and step: "(case cc_list_crds lib cl c w of
        (Inl e, w1) \<Rightarrow> Some (Some (Wrapf ''list CRDs: %w'' [] e), w1)
      | (Inr items, w1) \<Rightarrow>
          (if findPendingCRDs items = [] then Some (None, w1)
           else (case cc_tick lib c w1 of
                   (ticked, w2) \<Rightarrow>
                     (if \<not> ticked
                      then Some (Some (Wrapf ''crd establishment did not complete after %s: pending CRDs: %v: %w''
                                   [ArgDur (round_ms (cc_now lib w2 - st)), ArgStrs (findPendingCRDs items)]
                                   ErrCRDEstablishTimeout), w2)
                      else loop lib cl c st (logCRDEstablishmentProgress (cc_now lib w1 - st) warned) w2)))) = Some out"
  from step IH show "client_frame obs lib \<longrightarrow> obs (snd out) = obs w"
    by (auto simp: case_prod_beta frame split: sum.splits if_splits)
qed

lemma waitForCRDsEstablished_frame:
  assumes "waitForCRDsEstablished lib sys c cfg w = Some out" and "client_frame obs lib" and "frame_law obs sys"
  shows "obs (snd out) = obs w"
  using assms by (auto simp: waitForCRDsEstablished_def case_prod_beta frame split: sum.splits option.splits if_splits
      dest!: establishLoop_frame)

lemma applyCRDs_frame:
  assumes "applyCRDs lib sys sched c kc files w = Some out" and "client_frame obs lib" and "frame_law obs sys"
  shows "obs (snd out) = obs w"
  using assms by (auto simp: applyCRDs_def case_prod_beta frame split: sum.splits option.splits
      dest!: waitForCRDsEstablished_frame)

lemma stopStack_frame [frame]: "frame_law obs sys \<Longrightarrow> obs (snd (snd (snd (stopStack sys t so r w)))) = obs w"
  by (simp add: stopStack_def Let_def case_prod_beta frame)

subsection \<open>Publishing the database\<close>

text \<open>
  \<^item> \<open>file_frame\<close>: the operations on files do not touch locks.
  \<^item> \<open>temp_names\<close>: \<^verbatim>\<open>os.CreateTemp\<close> replaces the star of its pattern.
  \<^item> \<open>open_law\<close>: only a file that is there can be opened for reading.
  \<^item> \<open>temp_dirs\<close>: a directory made by \<^verbatim>\<open>os.MkdirTemp\<close> is a new one, which can be removed with all below it.
\<close>

definition file_frame :: "('w \<Rightarrow> 'o) \<Rightarrow> 'w os \<Rightarrow> bool" where
  "file_frame obs sys \<longleftrightarrow>
     (\<forall>p m w. obs (snd (os_mkdir_all sys p m w)) = obs w) \<and>
     (\<forall>p w. obs (snd (os_open sys p w)) = obs w) \<and>
     (\<forall>d pat w. obs (snd (os_create_temp sys d pat w)) = obs w) \<and>
     (\<forall>f m w. obs (snd (os_chmod sys f m w)) = obs w) \<and>
     (\<forall>f g w. obs (snd (os_io_copy sys f g w)) = obs w) \<and>
     (\<forall>f w. obs (snd (os_sync sys f w)) = obs w) \<and>
     (\<forall>f w. obs (snd (os_close sys f w)) = obs w) \<and>
     (\<forall>a b w. obs (snd (os_rename sys a b w)) = obs w) \<and>
     (\<forall>p w. obs (snd (os_remove sys p w)) = obs w)"

definition temp_names :: "'w os \<Rightarrow> bool" where
  "temp_names sys \<longleftrightarrow>
     (\<forall>d v f v'. os_create_temp sys d ''.tmp-copy-*'' v = (Inr f, v') \<longrightarrow> prefix ''.tmp-copy-'' (last_elem (snd f)))"

definition open_law :: "('w \<Rightarrow> string \<Rightarrow> string option) \<Rightarrow> 'w os \<Rightarrow> bool" where
  "open_law C sys \<longleftrightarrow> (\<forall>p w f w'. os_open sys p w = (Inr f, w') \<longrightarrow> C w p \<noteq> None)"

definition temp_dirs :: "('w \<Rightarrow> 'o) \<Rightarrow> ('w, 'x) crd_lib_scheme \<Rightarrow> bool" where
  "temp_dirs obs lib \<longleftrightarrow>
     (\<forall>d pat w. obs (snd (cc_mkdir_temp lib d pat w)) = obs w) \<and>
     (\<forall>d pat w t v. fst (cc_mkdir_temp lib d pat w) = Inr t \<longrightarrow> obs (snd (cc_remove_all lib t v)) = obs v)"

lemma file_frameD:
  assumes "file_frame obs sys"
  shows "obs (snd (os_mkdir_all sys p m w)) = obs w" "obs (snd (os_open sys p w)) = obs w"
    "obs (snd (os_create_temp sys d pat w)) = obs w" "obs (snd (os_chmod sys f m w)) = obs w"
    "obs (snd (os_io_copy sys f g w)) = obs w" "obs (snd (os_sync sys f w)) = obs w" "obs (snd (os_close sys f w)) = obs w"
    "obs (snd (os_rename sys a b w)) = obs w" "obs (snd (os_remove sys p w)) = obs w"
  using assms unfolding file_frame_def by (simp_all del: split_paired_All)

text \<open>The atomic copy touches no lock, and no file but its destination.\<close>

lemma openDstFile_file_frame:
  assumes "file_frame obs sys" and "cp_Atomic o1"
  shows "obs (snd (openDstFile sys dst o1 w)) = obs w"
  using assms(2) by (simp add: openDstFile_def Let_def case_prod_beta file_frameD [OF assms(1)] split: option.splits sum.splits)

lemma copy_into_file_frame:
  assumes "file_frame obs sys"
  shows "obs (snd (copy_into sys sf f dst o1 w)) = obs w"
  by (simp add: copy_into_def finalizeCopy_def case_prod_beta file_frameD [OF assms] split: option.splits)

lemma copy_from_file_frame:
  assumes "file_frame obs sys" and "cp_Atomic o0"
  shows "obs (snd (copy_from sys sf dst (Some o0) w)) = obs w"
proof -
  let ?o = "if cp_Mode o0 = 0 then o0\<lparr>cp_Mode := defaultFileMode\<rparr> else o0"
  have "cp_Atomic ?o" using assms(2) by simp
  note open_dst = openDstFile_file_frame [OF assms(1) this]
  have dir: "obs (snd (EnsureDirForFile sys dst w)) = obs w"
    by (simp add: EnsureDirForFile_def EnsureDir_def case_prod_beta file_frameD [OF assms(1)] split: option.splits)
  obtain d w1 where d: "EnsureDirForFile sys dst w = (d, w1)" by fastforce
  obtain f w2 where f: "openDstFile sys dst ?o w1 = (f, w2)" by fastforce
  from d f dir open_dst [of dst w1] copy_into_file_frame [OF assms(1)] show ?thesis
    by (cases d; cases f) (simp_all add: copy_from_def Let_def split: sum.splits bool.splits)
qed

lemma CopyFile_file_frame:
  assumes "file_frame obs sys" and "cp_Atomic o0"
  shows "obs (snd (CopyFile sys src dst (Some o0) w)) = obs w"
  by (simp add: CopyFile_def case_prod_beta file_frameD [OF assms(1)] copy_from_file_frame [OF assms]
      split: option.splits sum.splits)

lemma io_copy_elsewhere:
  assumes "fs_law C sys" and "os_io_copy sys f g w = (c, w1)" and "q \<noteq> snd f"
  shows "C w1 q = C w q"
proof (cases c)
  case None
  from fs_copy [OF assms(1) assms(2) [unfolded None]] assms(3) show ?thesis by simp
next
  case (Some e)
  from fs_copy_error [OF assms(1) assms(2) [unfolded Some]] assms(3) show ?thesis by auto
qed

lemma copy_into_elsewhere:
  assumes law: "fs_law C sys" and at: "cp_Atomic o1" and q: "q \<noteq> dst" "q \<noteq> snd f"
  shows "C (snd (copy_into sys sf f dst o1 w)) q = C w q"
proof -
  obtain c w1 where c: "os_io_copy sys f sf w = (c, w1)" by fastforce
  obtain r2 w2 where f: "finalizeCopy sys f dst o1 w1 = (r2, w2)" by fastforce
  note w1 = io_copy_elsewhere [OF law c q(2)]
  have w2: "C w2 q = C w1 q" using finalizeCopy_atomic [OF law at f] q by (simp split: if_splits)
  show ?thesis
    by (cases c) (simp_all add: copy_into_def c f w1 w2 os_close_snd [OF law] os_remove_snd [OF law q(2)])
qed

lemma copy_from_elsewhere:
  assumes law: "fs_law C sys" and at: "cp_Atomic o0" and q: "q \<noteq> dst" and fresh: "temp_apart sys dst {q}"
  shows "C (snd (copy_from sys sf dst (Some o0) w)) q = C w q"
proof -
  let ?o = "if cp_Mode o0 = 0 then o0\<lparr>cp_Mode := defaultFileMode\<rparr> else o0"
  have at': "cp_Atomic ?o" using at by simp
  obtain d w1 where d: "EnsureDirForFile sys dst w = (d, w1)" by fastforce
  obtain f w2 where f: "openDstFile sys dst ?o w1 = (f, w2)" by fastforce
  have "C w2 q = C w q" "\<And>g. f = Inr g \<Longrightarrow> q \<noteq> snd g"
    using openDstFile_temp [OF law at' fresh f] EnsureDirForFile_content [OF law d] by auto
  with d f copy_into_elsewhere [OF law at' q] EnsureDirForFile_content [OF law d] show ?thesis
    by (cases d; cases f) (simp_all add: copy_from_def Let_def split: sum.splits bool.splits)
qed

lemma CopyFile_elsewhere:
  assumes law: "fs_law C sys" and "cp_Atomic o0" and "q \<noteq> dst" and "temp_apart sys dst {q}"
  shows "C (snd (CopyFile sys src dst (Some o0) w)) q = C w q"
proof -
  have o: "C (snd (os_open sys src w)) = C w" using fs_open [OF law, of src w] by (metis prod.collapse)
  show ?thesis using copy_from_elsewhere [OF assms] o
    by (simp add: CopyFile_def case_prod_beta os_close_snd [OF law] split: sum.splits option.splits)
qed

text \<open>The contents of the cache files and the owners of the locks; everything the build of a cache relies on.\<close>

definition cache_view ::
  "('w \<Rightarrow> string \<Rightarrow> string option) \<Rightarrow> ('w \<Rightarrow> string \<Rightarrow> nat option) \<Rightarrow> 'w \<Rightarrow> (string \<Rightarrow> string option) \<times> (string \<Rightarrow> nat option)" where
  "cache_view C own w = ((\<lambda>q. if cached_name q then C w q else None), own w)"

definition build_law ::
  "('w \<Rightarrow> string \<Rightarrow> string option) \<Rightarrow> ('w \<Rightarrow> string \<Rightarrow> nat option) \<Rightarrow> ('w, 'x) crd_lib_scheme \<Rightarrow> 'w os \<Rightarrow>
   (kine_process, api_process, 'w) errgroup \<Rightarrow> bool" where
  "build_law C own lib sys grp \<longleftrightarrow>
     frame_law (cache_view C own) sys \<and> group_frame (cache_view C own) grp \<and> client_frame (cache_view C own) lib \<and>
     temp_dirs (cache_view C own) lib \<and> file_frame own sys \<and> fs_law C sys \<and> open_law C sys \<and> temp_names sys"

lemma cache_view_eqD:
  assumes "cache_view C own w' = cache_view C own w"
  shows "own w' = own w" "cached_name q \<Longrightarrow> C w' q = C w q"
  using assms unfolding cache_view_def by (simp, metis (mono_tags, lifting) prod.inject)

text \<open>From \<open>w\<close> to \<open>w'\<close> at most the file \<open>path\<close> was published, with the whole content of a database.\<close>

definition published ::
  "('w \<Rightarrow> string \<Rightarrow> string option) \<Rightarrow> ('w \<Rightarrow> string \<Rightarrow> nat option) \<Rightarrow> string \<Rightarrow> 'w \<Rightarrow> 'w \<Rightarrow> bool" where
  "published C own path w w' \<longleftrightarrow>
     own w' = own w \<and> (\<forall>q. cached_name q \<and> q \<noteq> path \<longrightarrow> C w' q = C w q) \<and>
     (C w' path = C w path \<or>
      (\<exists>dir v x. C v (filepath_Join [dir, ''db'', ''state.db'']) = Some x \<and> C w' path = Some x))"

lemma published_frame:
  assumes "published C own path w w'" and "cached_name path"
    and "cache_view C own u = cache_view C own w" and "cache_view C own u' = cache_view C own w'"
  shows "published C own path u u'"
  using assms cache_view_eqD [OF assms(3)] cache_view_eqD [OF assms(4)] unfolding published_def by simp

lemma published_refl: "cached_name path \<Longrightarrow> cache_view C own w' = cache_view C own w \<Longrightarrow> published C own path w w'"
  using cache_view_eqD [of C own w' w] unfolding published_def by simp

lemma temp_apart_names:
  assumes "temp_names sys" and "\<And>q. q \<in> X \<Longrightarrow> \<not> prefix ''.tmp-copy-'' (last_elem q)"
  shows "temp_apart sys dst X"
  using assms unfolding temp_names_def temp_apart_def by blast

lemma cached_not_temp: "cached_name q \<Longrightarrow> \<not> prefix ''.tmp-copy-'' (last_elem q)"
  unfolding cached_name_def by (auto simp: prefix_def)

lemma CopyFile_publishes:
  assumes L: "fs_law C sys" "open_law C sys" "temp_names sys" "file_frame own sys" and "cached_name path"
    and run: "CopyFile sys (filepath_Join [dir, ''db'', ''state.db'']) path
      (Some \<lparr>cp_Mode = 0, cp_Sync = True, cp_Atomic = True\<rparr>) w = (r, w')"
  shows "published C own path w w' \<and> (r = None \<longrightarrow> C w' path \<noteq> None)"
proof -
  let ?db = "filepath_Join [dir, ''db'', ''state.db'']" and ?o = "\<lparr>cp_Mode = 0, cp_Sync = True, cp_Atomic = True\<rparr>"
  have at: "cp_Atomic ?o" by simp
  have apart: "temp_apart sys path {?db, path}" "cached_name q \<Longrightarrow> temp_apart sys path {q}" for q
    using cached_not_temp [OF assms(5)] cached_not_temp [of q] by (auto intro!: temp_apart_names [OF L(3)] simp: state_db_last)
  have else_same: "C w' q = C w q" if "cached_name q" "q \<noteq> path" for q
    using CopyFile_elsewhere [OF L(1) at that(2) apart(2) [OF that(1)]] run by (metis snd_conv)
  have lock: "own w' = own w" using CopyFile_file_frame [OF L(4) at] run by (metis snd_conv)
  note content = CopyFile_content [OF L(1) at apart(1) run]
  have "(\<exists>x. C w ?db = Some x) \<or> r \<noteq> None \<and> C w' path = C w path"
  proof (cases "os_open sys ?db w")
    case (Pair f w1)
    show ?thesis
    proof (cases f)
      case (Inl e)
      with Pair run fs_open [OF L(1) Pair] show ?thesis by (auto simp: CopyFile_def split: if_splits)
    next
      case (Inr g)
      with Pair L(2) show ?thesis unfolding open_law_def by fastforce
    qed
  qed
  with content else_same lock show ?thesis unfolding published_def by (metis option.distinct(1))
qed

lemma fillCache_publishes:
  assumes L: "build_law C own lib sys grp" and p: "cached_name path"
    and run: "fillCache lib sys sched c t (filepath_Join [dir, ''db'', ''state.db'']) kc path files so r w = Some (res, so', r', w')"
  shows "published C own path w w' \<and> (res = None \<longrightarrow> C w' path \<noteq> None)"
proof -
  let ?V = "cache_view C own"
  have F: "frame_law ?V sys" "client_frame ?V lib" using L by (simp_all add: build_law_def)
  obtain e1 w1 where ap: "applyCRDs lib sys sched c kc files w = Some (e1, w1)"
    using run by (auto simp: fillCache_def split: option.splits)
  note v1 = applyCRDs_frame [OF ap F(2,1), simplified]
  obtain e2 so2 r2 w2 where st: "stopStack sys t so r w1 = (e2, so2, r2, w2)" by (metis prod_cases4)
  have v2: "?V w2 = ?V w" using stopStack_frame [OF F(1), of t so r w1] st v1 by simp
  show ?thesis
  proof (cases "e1 = None \<and> e2 = None")
    case False
    with run ap st have "res \<noteq> None \<and> (w' = w1 \<or> w' = w2)" by (auto simp: fillCache_def split: option.splits)
    with v1 v2 published_refl [OF p] show ?thesis by metis
  next
    case True
    obtain r3 w3 where cp: "CopyFile sys (filepath_Join [dir, ''db'', ''state.db'']) path
      (Some \<lparr>cp_Mode = 0, cp_Sync = True, cp_Atomic = True\<rparr>) w2 = (r3, w3)" by fastforce
    with run ap st True have "w' = w3" "res = None \<longrightarrow> r3 = None" by (auto simp: fillCache_def split: option.splits)
    with CopyFile_publishes [OF _ _ _ _ p cp, of C own] L published_frame [OF _ p v2 [symmetric] refl]
    show ?thesis by (auto simp: build_law_def)
  qed
qed

lemma populateCache_publishes:
  assumes L: "build_law C own lib sys grp" and p: "cached_name path"
    and run: "populateCache lib sys grp sched c cfg dir path files r w = Some (res, r', w')"
  shows "published C own path w w' \<and> (res = None \<longrightarrow> C w' path \<noteq> None)"
proof -
  let ?V = "cache_view C own" and ?db = "filepath_Join [dir, ''db'', ''state.db'']" and ?kc = "filepath_Join [dir, ''kubeconfig.yaml'']"
  have F: "frame_law ?V sys" "group_frame ?V grp" using L by (simp_all add: build_law_def)
  have apart: "stack_apart (cache_stack_config cfg dir ?db ?kc)" by (simp add: stack_apart_def cache_stack_config_def)
  obtain tc w1 where t: "os_ctx_with_timeout sys c (ch_Timeout cfg) w = (tc, w1)" by fastforce
  obtain pc w2 where k: "os_ctx_with_cancel sys tc w1 = (pc, w2)" by fastforce
  obtain st r1 w3 where s: "StartWithRetry sys grp (Some pc) (Some tc) (cache_stack_config cfg dir ?db ?kc)
      maxKubestackStartRetries r w2 = (st, r1, w3)" by (metis prod_cases3)
  have v: "?V w3 = ?V w"
    using StartWithRetry_frame [OF F apart, of "Some pc" "Some tc" maxKubestackStartRetries r w2] s t k
      frame_lawD(1) [OF F(1), of tc w1] frame_lawD(2) [OF F(1), of c "ch_Timeout cfg" w] by simp
  show ?thesis
  proof (cases st)
    case (Inl e)
    with run t k s have "res \<noteq> None" "w' = os_ctx_cancel sys tc (os_ctx_cancel sys pc w3)"
      by (auto simp: populateCache_def Let_def)
    then show ?thesis using v frame_lawD(3) [OF F(1)] published_refl [OF p, of C own w' w] by auto
  next
    case (Inr stack)
    with run t k s obtain so r2 w4 where
      f: "fillCache lib sys sched tc (ch_stopTimeout cfg) ?db ?kc path files
        \<lparr>so_stack = stack, so_done = False, so_err = None\<rparr> r1 w3 = Some (res, so, r2, w4)"
      and w': "w' = os_ctx_cancel sys tc (os_ctx_cancel sys pc (snd (snd (snd (stopStack sys (ch_stopTimeout cfg) so r2 w4)))))"
      by (auto simp: populateCache_def Let_def case_prod_beta split: option.splits prod.splits)
    have v': "?V w' = ?V w4" unfolding w' by (simp add: frame F(1))
    from fillCache_publishes [OF L p f] published_frame [OF _ p v [symmetric] v'] cache_view_eqD(2) [OF v' p]
    show ?thesis by simp
  qed
qed

lemma createCache_published:
  assumes "build_law C own lib sys grp" and "cached_name path"
    and "createCache lib sys grp sched c cfg path files r w = Some (res, r', w')"
  shows "published C own path w w' \<and> (res = None \<longrightarrow> C w' path \<noteq> None)"
proof -
  let ?V = "cache_view C own"
  have T: "temp_dirs ?V lib" using assms(1) by (simp add: build_law_def)
  obtain d w1 where d: "cc_mkdir_temp lib (ch_CacheDir cfg) ''crd-cache-build-'' w = (d, w1)" by fastforce
  have v: "?V w1 = ?V w" using T d unfolding temp_dirs_def by (metis snd_conv)
  show ?thesis
  proof (cases d)
    case (Inl e)
    with assms(3) d have "res \<noteq> None" "w' = w1" by (auto simp: createCache_def)
    with v published_refl [OF assms(2)] show ?thesis by metis
  next
    case (Inr dir)
    with assms(3) d obtain w2 where
      f: "populateCache lib sys grp sched c cfg dir path files r w1 = Some (res, r', w2)" and w': "w' = snd (cc_remove_all lib dir w2)"
      by (auto simp: createCache_def split: option.splits)
    have v': "?V w' = ?V w2" using T d Inr unfolding temp_dirs_def w' by (metis fst_conv)
    from populateCache_publishes [OF assms(1,2) f] published_frame [OF _ assms(2) v [symmetric] v']
      cache_view_eqD(2) [OF v' assms(2)] show ?thesis by simp
  qed
qed

end
