(* ===== verification/Cacheshare.thy ===== *)
theory Cacheshare
  imports Frame
begin

text \<open>
  \<^verbatim>\<open>EnsureCache\<close> of \<^verbatim>\<open>internal/crdcache/cache.go\<close> run by several processes that share the cache directory. A call
  is cut where another process can be seen or can see it: the first look at the cache, the wait for the
  file lock, the second look, the build, and the release. The sections of all processes interleave
  freely, with whatever else happens on the host, and a process may be killed between any two of them.
\<close>

subsection \<open>The sections of a call\<close>

record 'w cache_env =
  ce_lib :: "'w crd_lib"
  ce_sys :: "'w os"
  ce_grp :: "(kine_process, api_process, 'w) errgroup"
  ce_sched :: "parsedDoc list \<Rightarrow> parsedDoc list"
  ce_ctx :: ctx
  ce_cfg :: cache_config

datatype ec_pc =
    EStart
  | EWait string string "hashed_file list"
  | ELocked string string string "hashed_file list"
  | EBuild string string string "hashed_file list"
  | EUnlock string "go_error + cache_result"
  | EReturn "go_error + cache_result"
  | EKilled

text \<open>\<open>EnsureCache\<close> up to the lock, the second look under the lock, and the build.\<close>

definition ec_look :: "'w cache_env \<Rightarrow> 'w \<Rightarrow> ec_pc" where
  "ec_look e w =
     (case ch_validate (ce_cfg e) of
        Some err \<Rightarrow> EReturn (Inl (Wrapf ''invalid config: %w'' [] err))
      | None \<Rightarrow>
          (case computeDirHash (ce_lib e) (ch_CRDDir (ce_cfg e)) w of
             Inl err \<Rightarrow> EReturn (Inl (Wrapf ''compute dir hash: %w'' [] err))
           | Inr (hash, files) \<Rightarrow>
               (let cachePath = cache_path (ce_cfg e) hash
                in case os_stat (ce_sys e) cachePath w of
                     Inr _ \<Rightarrow> EReturn (Inr \<lparr>re_CachePath = cachePath, re_Hash = hash, re_Created = False\<rparr>)
                   | Inl err \<Rightarrow>
                       (if \<not> errors_Is err (Std OsErrNotExist)
                        then EReturn (Inl (Wrapf ''stat cache file %s: %w'' [ArgStr cachePath] err))
                        else EWait hash cachePath files))))"

definition ec_look_again :: "'w cache_env \<Rightarrow> string \<Rightarrow> string \<Rightarrow> string \<Rightarrow> hashed_file list \<Rightarrow> 'w \<Rightarrow> ec_pc" where
  "ec_look_again e lock hash cachePath files w =
     (case os_stat (ce_sys e) cachePath w of
        Inr _ \<Rightarrow> EUnlock lock (Inr \<lparr>re_CachePath = cachePath, re_Hash = hash, re_Created = False\<rparr>)
      | Inl err \<Rightarrow>
          (if \<not> errors_Is err (Std OsErrNotExist)
           then EUnlock lock (Inl (Wrapf ''stat cache file %s after lock acquisition: %w'' [ArgStr cachePath] err))
           else EBuild lock hash cachePath files))"

fun ec_sect :: "'w cache_env \<Rightarrow> ec_pc \<Rightarrow> port_registry \<Rightarrow> 'w \<Rightarrow> (ec_pc \<times> port_registry \<times> 'w) option" where
  "ec_sect e EStart r w = Some (ec_look e w, r, w)"
| "ec_sect e (EWait hash cachePath files) r w =
     (case acquireFileLock (ce_lib e) (ce_sys e) (ce_ctx e) (cachePath @ ''.lock'') w of
        (Inl err, w1) \<Rightarrow> Some (EReturn (Inl (Wrapf ''acquire lock: %w'' [] err)), r, w1)
      | (Inr lock, w1) \<Rightarrow> Some (ELocked lock hash cachePath files, r, w1))"
| "ec_sect e (ELocked lock hash cachePath files) r w = Some (ec_look_again e lock hash cachePath files w, r, w)"
| "ec_sect e (EBuild lock hash cachePath files) r w =
     (case createCache (ce_lib e) (ce_sys e) (ce_grp e) (ce_sched e) (ce_ctx e) (ce_cfg e) cachePath files r w of
        None \<Rightarrow> None
      | Some (Some err, r1, w1) \<Rightarrow> Some (EUnlock lock (Inl (Wrapf ''create cache: %w'' [] err)), r1, w1)
      | Some (None, r1, w1) \<Rightarrow>
          Some (EUnlock lock (Inr \<lparr>re_CachePath = cachePath, re_Hash = hash, re_Created = True\<rparr>), r1, w1))"
| "ec_sect e (EUnlock lock res) r w = Some (EReturn res, r, releaseFileLock (ce_lib e) lock w)"
| "ec_sect e (EReturn res) r w = None"
| "ec_sect e EKilled r w = None"

text \<open>The sections one after the other, at most \<open>n\<close> of them.\<close>

fun ec_run ::
  "nat \<Rightarrow> 'w cache_env \<Rightarrow> ec_pc \<Rightarrow> port_registry \<Rightarrow> 'w \<Rightarrow> ((go_error + cache_result) \<times> port_registry \<times> 'w) option" where
  "ec_run n e (EReturn res) r w = Some (res, r, w)"
| "ec_run 0 e pc r w = None"
| "ec_run (Suc n) e pc r w =
     (case ec_sect e pc r w of None \<Rightarrow> None | Some (pc1, r1, w1) \<Rightarrow> ec_run n e pc1 r1 w1)"

lemma ec_run_Suc:
  "(\<And>res. pc \<noteq> EReturn res) \<Longrightarrow> ec_run (Suc n) e pc r w =
     (case ec_sect e pc r w of None \<Rightarrow> None | Some (pc1, r1, w1) \<Rightarrow> ec_run n e pc1 r1 w1)"
  by (cases pc) auto

subsection \<open>Several processes\<close>

text \<open>
  The state: where each process is, its port registry, and the world they share. \<open>other w w'\<close> says what
  else may happen on the host, \<open>kill p w w'\<close> what the host does when process \<open>p\<close> dies.
\<close>

type_synonym 'w share_state = "(nat \<Rightarrow> ec_pc) \<times> (nat \<Rightarrow> port_registry) \<times> 'w"

inductive ec_step ::
  "(nat \<Rightarrow> ec_pc \<Rightarrow> port_registry \<Rightarrow> 'w \<Rightarrow> (ec_pc \<times> port_registry \<times> 'w) option) \<Rightarrow> ('w \<Rightarrow> 'w \<Rightarrow> bool) \<Rightarrow>
   (nat \<Rightarrow> 'w \<Rightarrow> 'w \<Rightarrow> bool) \<Rightarrow> 'w share_state \<Rightarrow> 'w share_state \<Rightarrow> bool"
  for sect other kill where
  ec_section: "sect p (pcs p) (regs p) w = Some (pc', r', w') \<Longrightarrow>
    ec_step sect other kill (pcs, regs, w) (pcs(p := pc'), regs(p := r'), w')"
| ec_kill: "kill p w w' \<Longrightarrow> ec_step sect other kill (pcs, regs, w) (pcs(p := EKilled), regs, w')"
| ec_other: "other w w' \<Longrightarrow> ec_step sect other kill (pcs, regs, w) (pcs, regs, w')"

inductive_cases ec_stepE: "ec_step sect other kill (pcs, regs, w) s'"

lemma ec_step_cases [consumes 1, case_names runs killed other]:
  assumes "ec_step sect other kill (pcs, regs, w) s'"
  obtains p pc' r' w' where "s' = (pcs(p := pc'), regs(p := r'), w')" and "sect p (pcs p) (regs p) w = Some (pc', r', w')"
  | p w' where "s' = (pcs(p := EKilled), regs, w')" and "kill p w w'"
  | w' where "s' = (pcs, regs, w')" and "other w w'"
  using assms by (rule ec_stepE)

text \<open>The lock a process holds, the result it has, and what it knows of the cache files.\<close>

fun held :: "ec_pc \<Rightarrow> string option" where
  "held (ELocked lock hash path files) = Some lock"
| "held (EBuild lock hash path files) = Some lock"
| "held (EUnlock lock res) = Some lock"
| "held pc = None"

fun result_of :: "ec_pc \<Rightarrow> cache_result option" where
  "result_of (EUnlock lock (Inr res)) = Some res"
| "result_of (EReturn (Inr res)) = Some res"
| "result_of pc = None"

fun knows :: "(string \<Rightarrow> string option) \<Rightarrow> ec_pc \<Rightarrow> bool" where
  "knows D (EWait hash path files) \<longleftrightarrow> cached_name path"
| "knows D (ELocked lock hash path files) \<longleftrightarrow> cached_name path \<and> lock = path @ ''.lock''"
| "knows D (EBuild lock hash path files) \<longleftrightarrow> cached_name path \<and> lock = path @ ''.lock'' \<and> D path = None"
| "knows D pc \<longleftrightarrow> (\<forall>res. result_of pc = Some res \<longrightarrow> cached_name (re_CachePath res) \<and> D (re_CachePath res) \<noteq> None)"

text \<open>What else happens on the host touches neither cache files nor locks; the host releases the locks of a
  process that dies, as \<^verbatim>\<open>flock(2)\<close> does, and leaves the files.\<close>

definition host_law ::
  "('w \<Rightarrow> string \<Rightarrow> string option) \<Rightarrow> ('w \<Rightarrow> string \<Rightarrow> nat option) \<Rightarrow> ('w \<Rightarrow> 'w \<Rightarrow> bool) \<Rightarrow> (nat \<Rightarrow> 'w \<Rightarrow> 'w \<Rightarrow> bool) \<Rightarrow> bool" where
  "host_law C own other kill \<longleftrightarrow>
     (\<forall>w w'. other w w' \<longrightarrow> cache_view C own w' = cache_view C own w) \<and>
     (\<forall>p w w'. kill p w w' \<longrightarrow>
        (\<forall>q. cached_name q \<longrightarrow> C w' q = C w q) \<and> own w' = (\<lambda>l. if own w l = Some p then None else own w l))"

text \<open>The invariant: a process in a section under a lock owns it, what a process knows is so, and no two
  processes report the creation of the same file.\<close>

definition share_inv ::
  "('w \<Rightarrow> string \<Rightarrow> string option) \<Rightarrow> ('w \<Rightarrow> string \<Rightarrow> nat option) \<Rightarrow> 'w share_state \<Rightarrow> bool" where
  "share_inv C own s \<longleftrightarrow> (case s of (pcs, regs, w) \<Rightarrow>
     (\<forall>p l. held (pcs p) = Some l \<longrightarrow> own w l = Some p) \<and>
     (\<forall>p. knows (C w) (pcs p)) \<and>
     (\<forall>p q a b. result_of (pcs p) = Some a \<and> result_of (pcs q) = Some b \<and> re_Created a \<and> re_Created b \<and>
        re_CachePath a = re_CachePath b \<longrightarrow> p = q))"

lemma share_invD:
  assumes "share_inv C own (pcs, regs, w)"
  shows "held (pcs p) = Some l \<Longrightarrow> own w l = Some p" and "knows (C w) (pcs p)"
    and "result_of (pcs p) = Some a \<Longrightarrow> result_of (pcs q) = Some b \<Longrightarrow> re_Created a \<Longrightarrow> re_Created b \<Longrightarrow>
      re_CachePath a = re_CachePath b \<Longrightarrow> p = q"
  using assms unfolding share_inv_def prod.case by blast+

lemma share_invI:
  assumes "\<And>p l. held (pcs p) = Some l \<Longrightarrow> own w l = Some p" and "\<And>p. knows (C w) (pcs p)"
    and "\<And>p q a b. result_of (pcs p) = Some a \<Longrightarrow> result_of (pcs q) = Some b \<Longrightarrow> re_Created a \<Longrightarrow> re_Created b \<Longrightarrow>
      re_CachePath a = re_CachePath b \<Longrightarrow> p = q"
  shows "share_inv C own (pcs, regs, w)"
  unfolding share_inv_def prod.case using assms by blast

text \<open>The cache files only grow: one that is there keeps its content.\<close>

definition grows :: "('w \<Rightarrow> string \<Rightarrow> string option) \<Rightarrow> 'w \<Rightarrow> 'w \<Rightarrow> bool" where
  "grows C w w' \<longleftrightarrow> (\<forall>q x. cached_name q \<and> C w q = Some x \<longrightarrow> C w' q = Some x)"

lemma grows_refl [simp, intro]: "grows C w w"
  by (simp add: grows_def)

lemma grows_trans: "grows C u v \<Longrightarrow> grows C v w \<Longrightarrow> grows C u w"
  by (simp add: grows_def)

lemma knows_grows:
  assumes "knows (C w) pc" and "grows C w w'"
    and "\<And>l h path fs. pc = EBuild l h path fs \<Longrightarrow> C w' path = None"
  shows "knows (C w') pc"
  using assms unfolding grows_def by (cases pc) auto

lemma knows_result: "knows D pc \<Longrightarrow> result_of pc = Some res \<Longrightarrow> cached_name (re_CachePath res) \<and> D (re_CachePath res) \<noteq> None"
  by (cases pc) auto

subsection \<open>The contract of a section\<close>

text \<open>
  What the interleaving needs of the sections of process \<open>p\<close> with environment \<open>e\<close>: the looks change
  nothing and report what they saw; the wait ends with a lock that was free, or with an error; the
  build publishes at most its own file; the last section may give up the lock, and no other does.
\<close>

locale cache_sections =
  fixes C :: "'w \<Rightarrow> string \<Rightarrow> string option"
    and own :: "'w \<Rightarrow> string \<Rightarrow> nat option"
    and law :: "nat \<Rightarrow> 'e \<Rightarrow> bool"
    and closes :: "'e \<Rightarrow> bool"
    and sect :: "'e \<Rightarrow> ec_pc \<Rightarrow> port_registry \<Rightarrow> 'w \<Rightarrow> (ec_pc \<times> port_registry \<times> 'w) option"
  assumes look: "law p e \<Longrightarrow> sect e EStart r w = Some (pc', r', w') \<Longrightarrow>
      w' = w \<and> held pc' = None \<and> knows (C w) pc' \<and> (\<forall>res. result_of pc' = Some res \<longrightarrow> \<not> re_Created res)"
    and wait: "law p e \<Longrightarrow> cached_name path \<Longrightarrow> sect e (EWait h path fs) r w = Some (pc', r', w') \<Longrightarrow>
      (\<forall>q. cached_name q \<longrightarrow> C w' q = C w q) \<and> result_of pc' = None \<and>
      (held pc' = None \<and> knows (C w') pc' \<and> own w' = own w \<or>
       (\<exists>l. pc' = ELocked (path @ ''.lock'') h path fs \<and> l = path @ ''.lock'' \<and> own w l = None \<and> own w' = (own w)(l \<mapsto> p)))"
    and look_again: "law p e \<Longrightarrow> cached_name path \<Longrightarrow> sect e (ELocked l h path fs) r w = Some (pc', r', w') \<Longrightarrow>
      w' = w \<and> held pc' = Some l \<and> (\<forall>res. result_of pc' = Some res \<longrightarrow> \<not> re_Created res) \<and>
      (l = path @ ''.lock'' \<longrightarrow> knows (C w) pc')"
    and build: "law p e \<Longrightarrow> cached_name path \<Longrightarrow> sect e (EBuild l h path fs) r w = Some (pc', r', w') \<Longrightarrow>
      published C own path w w' \<and> held pc' = Some l \<and> (\<forall>l h p fs. pc' \<noteq> EBuild l h p fs) \<and> knows (C w') pc' \<and>
      (\<forall>res. result_of pc' = Some res \<longrightarrow> re_CachePath res = path)"
    and unlock: "law p e \<Longrightarrow> own w l = Some p \<Longrightarrow> sect e (EUnlock l res) r w = Some (pc', r', w') \<Longrightarrow>
      (\<forall>q. cached_name q \<longrightarrow> C w' q = C w q) \<and> pc' = EReturn res \<and> (own w' = (own w)(l := None) \<or> own w' = own w)"
    and closed: "law p e \<Longrightarrow> closes e \<Longrightarrow> own w l = Some p \<Longrightarrow> sect e (EUnlock l res) r w = Some (pc', r', w') \<Longrightarrow>
      own w' = (own w)(l := None)"
    and ended: "sect e (EReturn res) r w = None" "sect e EKilled r w = None"
begin

text \<open>The effect of a section of process \<open>p\<close>, in a state where the invariant holds.\<close>

lemma sect_effect:
  assumes I: "share_inv C own (pcs, regs, w)" and L: "law p e" and S: "sect e (pcs p) r w = Some (pc', r', w')"
  shows "(\<forall>q. cached_name q \<and> (\<forall>l h fs. pcs p \<noteq> EBuild l h q fs) \<longrightarrow> C w' q = C w q)" (is ?files)
    and "knows (C w') pc'" (is ?knows)
    and "(\<forall>l. held pc' = Some l \<longrightarrow> own w' l = Some p) \<and> (\<forall>q l. q \<noteq> p \<and> own w l = Some q \<longrightarrow> own w' l = Some q)" (is ?locks)
    and "\<forall>res. result_of pc' = Some res \<and> re_Created res \<longrightarrow> result_of (pcs p) = Some res \<or> C w (re_CachePath res) = None" (is ?new)
proof -
  note h = share_invD(1) [OF I, of p] and k = share_invD(2) [OF I, of p]
  have "?files \<and> ?knows \<and> ?locks \<and> ?new"
  proof (cases "pcs p")
    case EStart
    with look [OF L S [unfolded EStart]] show ?thesis by auto
  next
    case (EWait hash path fs)
    with k have "cached_name path" by simp
    with wait [OF L this S [unfolded EWait]] EWait show ?thesis by auto
  next
    case (ELocked l hash path fs)
    with k h have "cached_name path" "l = path @ ''.lock''" "own w l = Some p" by auto
    with look_again [OF L this(1) S [unfolded ELocked]] ELocked show ?thesis by auto
  next
    case (EBuild l hash path fs)
    with k h have b: "cached_name path" "C w path = None" "own w l = Some p" by auto
    note c = build [OF L b(1) S [unfolded EBuild]]
    then have o: "own w' = own w" and f: "\<And>q. cached_name q \<Longrightarrow> q \<noteq> path \<Longrightarrow> C w' q = C w q" by (simp_all add: published_def)
    have ?files using f by (auto simp: EBuild)
    moreover have ?locks using c o b(3) by simp
    moreover have ?new using c b(2) by simp
    ultimately show ?thesis using c by simp
  next
    case (EUnlock l res)
    with h have "own w l = Some p" by simp
    with unlock [OF L this S [unfolded EUnlock]] EUnlock k show ?thesis by (cases res) auto
  qed (use S ended in simp_all)
  then show ?files ?knows ?locks ?new
    by (rule conjunct1, rule conjunct2 [THEN conjunct1], rule conjunct2 [THEN conjunct2, THEN conjunct1],
        rule conjunct2 [THEN conjunct2, THEN conjunct2])
qed

lemma sect_grows:
  assumes I: "share_inv C own (pcs, regs, w)" and L: "law p e" and S: "sect e (pcs p) r w = Some (pc', r', w')"
  shows "grows C w w'"
  unfolding grows_def
proof (intro allI impI, elim conjE)
  fix q x assume q: "cached_name q" "C w q = Some x"
  have "pcs p \<noteq> EBuild l h q fs" for l h fs using share_invD(2) [OF I, of p] q(2) by auto
  with sect_effect(1) [OF I L S] q show "C w' q = Some x" by simp
qed

lemma sect_keeps:
  assumes I: "share_inv C own (pcs, regs, w)" and L: "law p e" and S: "sect e (pcs p) r w = Some (pc', r', w')"
  shows "share_inv C own (pcs(p := pc'), regs(p := r'), w')"
proof -
  note eff = sect_effect [OF I L S] and gr = sect_grows [OF I L S]
  note h = share_invD(1) [OF I] and k = share_invD(2) [OF I] and old = share_invD(3) [OF I]
  have others: "knows (C w') (pcs q)" if "q \<noteq> p" for q
  proof (rule knows_grows [where C = C, OF k gr])
    fix l hash path fs assume b: "pcs q = EBuild l hash path fs"
    with k [of q] h [of q l] have path: "cached_name path" "l = path @ ''.lock''" "C w path = None" "own w l = Some q" by auto
    have "pcs p \<noteq> EBuild l' h' path fs'" for l' h' fs'
      using k [of p] h [of p l'] path that by auto
    with eff(1) path show "C w' path = None" by simp
  qed
  have new: "C w (re_CachePath a) = None \<Longrightarrow> result_of (pcs q) = Some b \<Longrightarrow> re_CachePath a = re_CachePath b \<Longrightarrow> False" for q a b
    using knows_result [OF k] by metis
  have created: "result_of (pcs p) = Some a \<or> C w (re_CachePath a) = None" if "result_of pc' = Some a" "re_Created a" for a
    by (rule eff(4) [THEN spec, THEN mp, OF conjI, OF that])
  have one: "q = p" if "result_of pc' = Some a" "result_of (pcs q) = Some b" "re_Created a" "re_Created b"
      "re_CachePath a = re_CachePath b" for q a b
    using created [OF that(1,3)] old [OF _ that(2-5), of p] new [OF _ that(2,5)] by blast
  show ?thesis
  proof (rule share_invI)
    fix q q' a b
    assume "result_of ((pcs(p := pc')) q) = Some a" "result_of ((pcs(p := pc')) q') = Some b" "re_Created a" "re_Created b"
      "re_CachePath a = re_CachePath b"
    note r = this
    consider "q = q'" | "q = p" "q' \<noteq> p" | "q \<noteq> p" "q' = p" | "q \<noteq> p" "q' \<noteq> p" by metis
    then show "q = q'"
    proof cases
      case 2
      with r(1,2) have "q' = p" by (intro one [OF _ _ r(3-5)]) simp_all
      with 2 show ?thesis by simp
    next
      case 3
      with r(1,2) have "q = p" by (intro one [OF _ _ r(4,3) r(5) [symmetric]]) simp_all
      with 3 show ?thesis by simp
    next
      case 4
      with r(1,2) show ?thesis by (intro old [OF _ _ r(3-5)]) simp_all
    qed simp
  qed (use eff(2,3) h others in \<open>auto split: if_splits\<close>)
qed

text \<open>Where no release fails, every lock that is taken is held by a process in a section under it.\<close>

lemma sect_owners:
  assumes I: "share_inv C own (pcs, regs, w)" and L: "law p e" "closes e" and S: "sect e (pcs p) r w = Some (pc', r', w')"
    and O: "\<And>l q. own w l = Some q \<Longrightarrow> held (pcs q) = Some l"
  shows "own w' l = Some q \<Longrightarrow> held ((pcs(p := pc')) q) = Some l"
proof -
  assume l: "own w' l = Some q"
  note h = share_invD(1) [OF I, of p] and k = share_invD(2) [OF I, of p]
  have "own w l = Some q \<and> (q = p \<longrightarrow> held pc' = held (pcs p)) \<or> q = p \<and> held pc' = Some l"
  proof (cases "pcs p")
    case EStart
    with look [OF L(1) S [unfolded EStart]] l O [of l q] show ?thesis by auto
  next
    case (EWait hash path fs)
    with k have "cached_name path" by simp
    with wait [OF L(1) this S [unfolded EWait]] EWait l O [of l q] show ?thesis by (auto split: if_splits)
  next
    case (ELocked m hash path fs)
    with k have "cached_name path" by simp
    with look_again [OF L(1) this S [unfolded ELocked]] ELocked l show ?thesis by auto
  next
    case (EBuild m hash path fs)
    with k have "cached_name path" by simp
    with build [OF L(1) this S [unfolded EBuild]] EBuild l show ?thesis by (simp add: published_def)
  next
    case (EUnlock m res)
    with h have "own w m = Some p" by simp
    with closed [OF L this S [unfolded EUnlock]] EUnlock l O [of l q] show ?thesis by (auto split: if_splits)
  qed (use S ended in simp_all)
  with O [of l q] show ?thesis by auto
qed

lemma step_inv:
  assumes L: "\<And>p. law p (E p)" and H: "host_law C own other kill"
    and I: "share_inv C own (pcs, regs, w)" and S: "ec_step (\<lambda>p. sect (E p)) other kill (pcs, regs, w) s'"
  shows "share_inv C own s' \<and> grows C w (snd (snd s'))"
  using S
proof (cases rule: ec_step_cases)
  case (runs p pc' r' w')
  with sect_keeps [OF I L runs(2)] sect_grows [OF I L runs(2)] show ?thesis by simp
next
  case (killed p w')
  with H have f: "\<And>q. cached_name q \<Longrightarrow> C w' q = C w q" and o: "own w' = (\<lambda>l. if own w l = Some p then None else own w l)"
    unfolding host_law_def by blast+
  have g: "grows C w w'" using f by (simp add: grows_def)
  have "share_inv C own (pcs(p := EKilled), regs, w')"
  proof (rule share_invI)
    show "held ((pcs(p := EKilled)) q) = Some l \<Longrightarrow> own w' l = Some q" for q l
      using share_invD(1) [OF I, of q l] by (simp add: o split: if_splits)
    show "knows (C w') ((pcs(p := EKilled)) q)" for q
    proof (cases "q = p")
      case False
      have "knows (C w') (pcs q)" using share_invD(2) [OF I, of q] f by (intro knows_grows [OF _ g]) auto
      with False show ?thesis by simp
    qed simp
    show "q = q'" if "result_of ((pcs(p := EKilled)) q) = Some a" "result_of ((pcs(p := EKilled)) q') = Some b" "re_Created a"
        "re_Created b" "re_CachePath a = re_CachePath b" for q q' a b
      using that(1,2) by (intro share_invD(3) [OF I _ _ that(3-5)]) (simp_all split: if_splits)
  qed
  with killed g show ?thesis by simp
next
  case (other w')
  with H have v: "cache_view C own w' = cache_view C own w" unfolding host_law_def by blast
  have g: "grows C w w'" using cache_view_eqD(2) [OF v] by (simp add: grows_def)
  have "share_inv C own (pcs, regs, w')"
  proof (rule share_invI)
    show "knows (C w') (pcs q)" for q
      using share_invD(2) [OF I, of q] cache_view_eqD(2) [OF v] by (intro knows_grows [OF _ g]) auto
  qed (use share_invD(1) [OF I] cache_view_eqD(1) [OF v] in simp, rule share_invD(3) [OF I])
  with other g show ?thesis by simp
qed

lemma reach_inv:
  assumes "(ec_step (\<lambda>p. sect (E p)) other kill)\<^sup>*\<^sup>* s s'" and "\<And>p. law p (E p)" and "host_law C own other kill"
    and "share_inv C own s"
  shows "share_inv C own s' \<and> grows C (snd (snd s)) (snd (snd s'))"
  using assms
proof (induction rule: rtranclp_induct)
  case (step y z)
  then have I: "share_inv C own y" and g: "grows C (snd (snd s)) (snd (snd y))" by simp_all
  obtain pcs regs w where y: "y = (pcs, regs, w)" by (metis prod_cases3)
  from step_inv [OF step.prems(1,2) I [unfolded y] step.hyps(2) [unfolded y]] g show ?case
    unfolding y by (auto intro: grows_trans)
qed simp

lemma step_owners:
  assumes L: "\<And>p. law p (E p)" "\<And>p. closes (E p)" and H: "host_law C own other kill"
    and I: "share_inv C own (pcs, regs, w)" and O: "\<And>l q. own w l = Some q \<Longrightarrow> held (pcs q) = Some l"
    and S: "ec_step (\<lambda>p. sect (E p)) other kill (pcs, regs, w) (pcs', regs', w')" and l: "own w' l = Some q"
  shows "held (pcs' q) = Some l"
  using S
proof (cases rule: ec_step_cases)
  case (runs p pc' r' w1)
  with sect_owners [OF I L _ O, of p "regs p" pc' r' w' l q] l show ?thesis by simp
next
  case (killed p w1)
  with H have "own w' = (\<lambda>l. if own w l = Some p then None else own w l)" unfolding host_law_def by blast
  with killed l O [of l q] show ?thesis by (auto split: if_splits)
next
  case (other w1)
  with H have "own w' = own w" using cache_view_eqD(1) [of C own w' w] unfolding host_law_def by blast
  with other l O show ?thesis by simp
qed

lemma reach_owners:
  assumes "(ec_step (\<lambda>p. sect (E p)) other kill)\<^sup>*\<^sup>* s s'" and L: "\<And>p. law p (E p)" "\<And>p. closes (E p)"
    and H: "host_law C own other kill" and I: "share_inv C own s"
    and O: "\<And>l q. own (snd (snd s)) l = Some q \<Longrightarrow> held (fst s q) = Some l"
  shows "own (snd (snd s')) l = Some q \<Longrightarrow> held (fst s' q) = Some l"
  using assms(1)
proof (induction arbitrary: l q rule: rtranclp_induct)
  case (step y z)
  obtain pcs regs w where y: "y = (pcs, regs, w)" by (metis prod_cases3)
  obtain pcs' regs' w' where z: "z = (pcs', regs', w')" by (metis prod_cases3)
  have "share_inv C own (pcs, regs, w)" using reach_inv [OF step.hyps(1) L(1) H I] y by simp
  from step_owners [OF L H this _ step.hyps(2) [unfolded y z]] step.IH step.prems show ?case unfolding y z by simp
qed (rule O)

end

subsection \<open>The sections keep the contract\<close>

text \<open>
  \<^item> \<open>lock_law\<close>: \<^verbatim>\<open>flock\<close> is exclusive. A lock that is granted was free and is then owned by the process; an
    attempt without success changes no owner; \<^verbatim>\<open>Close\<close> releases it, and where it fails the lock may stay.
  \<^item> \<open>stat_law\<close>: \<^verbatim>\<open>os.Stat\<close> finds a cache file that is there; "does not exist" means that it is not.
  \<^item> \<open>hex_law\<close>: the digest is printed in hexadecimal digits.
\<close>

definition lock_law ::
  "('w \<Rightarrow> string \<Rightarrow> string option) \<Rightarrow> ('w \<Rightarrow> string \<Rightarrow> nat option) \<Rightarrow> nat \<Rightarrow> ('w, 'x) crd_lib_scheme \<Rightarrow> bool" where
  "lock_law C own p lib \<longleftrightarrow>
     (\<forall>l c d w w'. cc_try_lock lib l c d w = ((None, True), w') \<longrightarrow> own w l = None \<and> own w' = (own w)(l \<mapsto> p)) \<and>
     (\<forall>l c d w e b w'. cc_try_lock lib l c d w = ((e, b), w') \<and> (e \<noteq> None \<or> \<not> b) \<longrightarrow> own w' = own w) \<and>
     (\<forall>l c d w q. cached_name q \<longrightarrow> C (snd (cc_try_lock lib l c d w)) q = C w q) \<and>
     (\<forall>l w e w'. cc_lock_close lib l w = (e, w') \<and> own w l = Some p \<longrightarrow>
        own w' = (own w)(l := None) \<or> e \<noteq> None \<and> own w' = own w) \<and>
     (\<forall>l w q. cached_name q \<longrightarrow> C (snd (cc_lock_close lib l w)) q = C w q)"

definition stat_law :: "('w \<Rightarrow> string \<Rightarrow> string option) \<Rightarrow> 'w os \<Rightarrow> bool" where
  "stat_law C sys \<longleftrightarrow>
     (\<forall>q w n. cached_name q \<and> os_stat sys q w = Inr n \<longrightarrow> C w q \<noteq> None) \<and>
     (\<forall>q w e. cached_name q \<and> os_stat sys q w = Inl e \<and> errors_Is e (Std OsErrNotExist) \<longrightarrow> C w q = None)"

definition hex_law :: "('w, 'x) crd_files_scheme \<Rightarrow> bool" where
  "hex_law lib \<longleftrightarrow> (\<forall>s. set (cf_sha256_hex lib s) \<subseteq> set ''0123456789abcdef'')"

definition share_law ::
  "('w \<Rightarrow> string \<Rightarrow> string option) \<Rightarrow> ('w \<Rightarrow> string \<Rightarrow> nat option) \<Rightarrow> nat \<Rightarrow> 'w cache_env \<Rightarrow> bool" where
  "share_law C own p e \<longleftrightarrow>
     build_law C own (ce_lib e) (ce_sys e) (ce_grp e) \<and> lock_law C own p (ce_lib e) \<and> stat_law C (ce_sys e) \<and> hex_law (ce_lib e)"

definition close_law :: "'w cache_env \<Rightarrow> bool" where
  "close_law e \<longleftrightarrow> (\<forall>l w. fst (cc_lock_close (ce_lib e) l w) = None)"

text \<open>The name of a cache file is one.\<close>

lemma cache_path_name:
  assumes "hex_law lib" and "computeDirHash lib dir w = Inr (hash, files)"
  shows "cached_name (cache_path cfg hash)"
proof -
  from assms(2) obtain s where "hash = take 16 (cf_sha256_hex lib s)"
    by (auto simp: computeDirHash_def split: sum.splits if_splits)
  then have "set hash \<subseteq> set (cf_sha256_hex lib s)" by (simp add: set_take_subset)
  also have "\<dots> \<subseteq> set ''0123456789abcdef''" using assms(1) by (simp only: hex_law_def)
  finally have "CHR ''/'' \<notin> set hash" by auto
  then have e: "plain_elem (''cached-'' @ hash @ ''.db'')" by (auto simp: plain_elem_def)
  have "prefix ''cached-'' (''cached-'' @ hash @ ''.db'')" "suffix ''.db'' ((''cached-'' @ hash) @ ''.db'')"
    by (rule prefixI, rule refl, rule suffixI, rule refl)
  then show ?thesis unfolding cache_path_def cached_name_Join [OF e] by (simp only: append_assoc simp_thms)
qed

lemma ec_look_spec:
  assumes "share_law C own p e"
  shows "held (ec_look e w) = None" "knows (C w) (ec_look e w)"
    "\<forall>res. result_of (ec_look e w) = Some res \<longrightarrow> \<not> re_Created res"
proof -
  have hx: "hex_law (ce_lib e)" and st: "stat_law C (ce_sys e)" using assms by (simp_all add: share_law_def)
  show "held (ec_look e w) = None" "\<forall>res. result_of (ec_look e w) = Some res \<longrightarrow> \<not> re_Created res"
    by (auto simp: ec_look_def Let_def split: option.splits sum.splits)
  show "knows (C w) (ec_look e w)"
    using cache_path_name [OF hx] st
    by (auto simp: ec_look_def Let_def stat_law_def split: option.splits sum.splits)
qed

lemma ec_look_again_spec:
  assumes "share_law C own p e" and "cached_name path"
  shows "held (ec_look_again e l h path fs w) = Some l"
    "\<forall>res. result_of (ec_look_again e l h path fs w) = Some res \<longrightarrow> \<not> re_Created res"
    "l = path @ ''.lock'' \<Longrightarrow> knows (C w) (ec_look_again e l h path fs w)"
  using assms by (auto simp: ec_look_again_def share_law_def stat_law_def split: sum.splits)

lemma acquireFileLock_spec:
  assumes "lock_law C own p lib" and "acquireFileLock lib sys c l w = (res, w')"
  shows "(\<forall>q. cached_name q \<longrightarrow> C w' q = C w q) \<and>
    (case res of Inl _ \<Rightarrow> own w' = own w | Inr lock \<Rightarrow> lock = l \<and> own w l = None \<and> own w' = (own w)(l \<mapsto> p))"
proof -
  obtain e b v where t: "cc_try_lock lib l c fileLockRetryInterval w = ((e, b), v)" by (metis prod.collapse)
  with assms(2) have v: "w' = v" by (auto simp: acquireFileLock_def split: option.splits if_splits)
  have files: "cached_name q \<Longrightarrow> C v q = C w q" for q
    using assms(1) t unfolding lock_law_def by (metis snd_conv)
  show ?thesis
  proof (cases "e = None \<and> b")
    case True
    with t have "cc_try_lock lib l c fileLockRetryInterval w = ((None, True), v)" by simp
    with assms(1) [unfolded lock_law_def, THEN conjunct1, rule_format] have "own w l = None \<and> own v = (own w)(l \<mapsto> p)" .
    with True files v t assms(2) show ?thesis by (auto simp: acquireFileLock_def)
  next
    case False
    with t assms(1) have "own v = own w" unfolding lock_law_def by blast
    with False files v t assms(2) show ?thesis by (auto simp: acquireFileLock_def split: option.splits if_splits)
  qed
qed

lemma releaseFileLock_spec:
  assumes "lock_law C own p lib" and "own w l = Some p"
  shows "\<forall>q. cached_name q \<longrightarrow> C (releaseFileLock lib l w) q = C w q"
    "own (releaseFileLock lib l w) = (own w)(l := None) \<or>
     fst (cc_lock_close lib l w) \<noteq> None \<and> own (releaseFileLock lib l w) = own w"
  using assms unfolding lock_law_def releaseFileLock_def by (blast, metis prod.collapse)

interpretation ec: cache_sections C own "share_law C own" close_law ec_sect for C own
proof
  show "w' = w \<and> held pc' = None \<and> knows (C w) pc' \<and> (\<forall>res. result_of pc' = Some res \<longrightarrow> \<not> re_Created res)"
    if "share_law C own p e" "ec_sect e EStart r w = Some (pc', r', w')" for p e r w pc' r' w'
    using that ec_look_spec [OF that(1), of w] by auto
  show "w' = w \<and> held pc' = Some l \<and> (\<forall>res. result_of pc' = Some res \<longrightarrow> \<not> re_Created res) \<and>
      (l = path @ ''.lock'' \<longrightarrow> knows (C w) pc')"
    if "share_law C own p e" "cached_name path" "ec_sect e (ELocked l h path fs) r w = Some (pc', r', w')" for p e path l h fs r w pc' r' w'
    using that(3) ec_look_again_spec [OF that(1,2)] by auto
  show "(\<forall>q. cached_name q \<longrightarrow> C w' q = C w q) \<and> result_of pc' = None \<and>
      (held pc' = None \<and> knows (C w') pc' \<and> own w' = own w \<or>
       (\<exists>l. pc' = ELocked (path @ ''.lock'') h path fs \<and> l = path @ ''.lock'' \<and> own w l = None \<and> own w' = (own w)(l \<mapsto> p)))"
    if "share_law C own p e" "cached_name path" "ec_sect e (EWait h path fs) r w = Some (pc', r', w')" for p e path h fs r w pc' r' w'
  proof -
    obtain res v where a: "acquireFileLock (ce_lib e) (ce_sys e) (ce_ctx e) (path @ ''.lock'') w = (res, v)" by fastforce
    from that(1) have "lock_law C own p (ce_lib e)" by (simp add: share_law_def)
    from acquireFileLock_spec [OF this a] a that(3) show ?thesis by (auto split: sum.splits)
  qed
  show "published C own path w w' \<and> held pc' = Some l \<and> (\<forall>l h p fs. pc' \<noteq> EBuild l h p fs) \<and> knows (C w') pc' \<and>
      (\<forall>res. result_of pc' = Some res \<longrightarrow> re_CachePath res = path)"
    if "share_law C own p e" "cached_name path" "ec_sect e (EBuild l h path fs) r w = Some (pc', r', w')" for p e path l h fs r w pc' r' w'
    using that by (auto simp: share_law_def split: option.splits prod.splits dest!: createCache_published)
  show "(\<forall>q. cached_name q \<longrightarrow> C w' q = C w q) \<and> pc' = EReturn res \<and> (own w' = (own w)(l := None) \<or> own w' = own w)"
    if "share_law C own p e" "own w l = Some p" "ec_sect e (EUnlock l res) r w = Some (pc', r', w')" for p e w l res r pc' r' w'
    using that releaseFileLock_spec [of C own p "ce_lib e" w l] by (auto simp: share_law_def)
  show "own w' = (own w)(l := None)"
    if "share_law C own p e" "close_law e" "own w l = Some p" "ec_sect e (EUnlock l res) r w = Some (pc', r', w')" for p e w l res r pc' r' w'
    using that releaseFileLock_spec(2) [of C own p "ce_lib e" w l] by (auto simp: share_law_def close_law_def)
qed simp_all

subsection \<open>Properties\<close>


text \<open>C14. The build of a cache shows nothing of its work but the finished file: no lock changes hands, no other cache
  file changes, and the file of the cache is either what it was or the whole content of a database
  (also when an error is returned, as after a failed close of the source). Without an error the file
  is there.\<close>

theorem createCache_publishes:
  assumes "build_law C own lib sys grp" and "cached_name path"
    and "createCache lib sys grp sched c cfg path files r w = Some (res, r', w')"
  shows "published C own path w w' \<and> (res = None \<longrightarrow> C w' path \<noteq> None)"
  using assms by (rule createCache_published)

text \<open>The processes start; what the interleavings reach.\<close>

definition share_start :: "'w \<Rightarrow> 'w share_state" where
  "share_start w = ((\<lambda>_. EStart), (\<lambda>_. NewPortRegistry), w)"

abbreviation shares ::
  "(nat \<Rightarrow> 'w cache_env) \<Rightarrow> ('w \<Rightarrow> 'w \<Rightarrow> bool) \<Rightarrow> (nat \<Rightarrow> 'w \<Rightarrow> 'w \<Rightarrow> bool) \<Rightarrow> 'w share_state \<Rightarrow> 'w share_state \<Rightarrow> bool" where
  "shares E other kill \<equiv> (ec_step (\<lambda>p. ec_sect (E p)) other kill)\<^sup>*\<^sup>*"

lemma share_start_inv: "share_inv C own (share_start w)"
  unfolding share_start_def by (rule share_invI) simp_all

text \<open>C4. Any number of processes, killed at any time, may ask for caches in one directory at once: no two are under
  the same lock, whoever returns a cache returns a file that is there, and at most one of them
  reports to have created it.\<close>

theorem cache_built_once:
  assumes "\<And>p. share_law C own p (E p)" and "host_law C own other kill"
    and "shares E other kill (share_start w0) (pcs, regs, w)"
  shows "(held (pcs p) = Some l \<longrightarrow> held (pcs q) = Some l \<longrightarrow> p = q) \<and>
    (pcs p = EReturn (Inr a) \<longrightarrow> cached_name (re_CachePath a) \<and> C w (re_CachePath a) \<noteq> None) \<and>
    (pcs p = EReturn (Inr a) \<longrightarrow> pcs q = EReturn (Inr b) \<longrightarrow> re_CachePath a = re_CachePath b \<longrightarrow>
       re_Created a \<longrightarrow> re_Created b \<longrightarrow> p = q)"
proof -
  have I: "share_inv C own (pcs, regs, w)"
    using ec.reach_inv [OF assms(3,1,2) share_start_inv] by simp
  have "p = q" if "held (pcs p) = Some l" "held (pcs q) = Some l"
    using share_invD(1) [OF I that(1)] share_invD(1) [OF I that(2)] by simp
  moreover have "cached_name (re_CachePath a) \<and> C w (re_CachePath a) \<noteq> None" if "pcs p = EReturn (Inr a)"
    using knows_result [OF share_invD(2) [OF I, of p], of a] that by simp
  moreover have "p = q" if "pcs p = EReturn (Inr a)" "pcs q = EReturn (Inr b)" "re_CachePath a = re_CachePath b"
      "re_Created a" "re_Created b"
    using that(1,2) by (intro share_invD(3) [OF I _ _ that(4,5,3)]) simp_all
  ultimately show ?thesis by blast
qed

text \<open>C9. A cache that was published is never changed again: whatever the processes do from there on, crashes
  included, the file keeps its content.\<close>

theorem cache_immutable:
  assumes "\<And>p. share_law C own p (E p)" and "host_law C own other kill"
    and "shares E other kill (share_start w0) (pcs, regs, w)" and "shares E other kill (pcs, regs, w) (pcs', regs', w')"
    and "cached_name q" and "C w q = Some x"
  shows "C w' q = Some x"
proof -
  have "share_inv C own (pcs, regs, w)" using ec.reach_inv [OF assms(3,1,2) share_start_inv] by simp
  from ec.reach_inv [OF assms(4,1,2) this] assms(5,6) show ?thesis by (simp add: grows_def)
qed

lemma createCache_total:
  assumes "deadline_law clk D lib sys"
  shows "\<exists>out. createCache lib sys grp sched c cfg path files r w = Some out"
proof -
  have "\<not> wait_stuck lib sys"
    using waitForCRDsEstablished_total [OF assms] by (metis wait_stuck_def option.distinct(1))
  then have "populateCache lib sys grp sched c cfg dir path files r v \<noteq> None" for dir v
    using populateCache_None [of lib sys grp sched c cfg dir path files r v] by blast
  then show ?thesis
    by (auto simp: createCache_def split: prod.splits sum.splits option.splits) (metis option.distinct(1))
qed

lemma locked_sect_returns:
  assumes "deadline_law clk D (ce_lib e) (ce_sys e)" and "held pc \<noteq> None"
  shows "\<exists>out. ec_sect e pc r w = Some out"
proof (cases pc)
  case (EBuild l h path fs)
  obtain out where "createCache (ce_lib e) (ce_sys e) (ce_grp e) (ce_sched e) (ce_ctx e) (ce_cfg e) path fs r w = Some out"
    using createCache_total [OF assms(1)] by blast
  with EBuild show ?thesis by (auto split: prod.splits option.splits)
qed (use assms(2) in simp_all)


subsection \<open>Two processes and a kill\<close>

text \<open>The world of the sample build, whose third component maps a lock to its owner. Nothing else happens on the
  host; a process that dies loses its locks.\<close>

type_synonym share_world = "nat \<times> (string \<rightharpoonup> string) \<times> (string \<rightharpoonup> nat)"

definition flock :: "nat \<Rightarrow> string \<Rightarrow> ctx \<Rightarrow> duration \<Rightarrow> share_world \<Rightarrow> (go_error option \<times> bool) \<times> share_world" where
  "flock p l c d w = (case w of (n, f, k) \<Rightarrow>
     if k l = None then ((None, True), (n, f, k(l \<mapsto> p))) else ((Some (Std CtxDeadlineExceeded), False), w))"

definition funlock :: "string \<Rightarrow> share_world \<Rightarrow> go_error option \<times> share_world" where
  "funlock l w = (case w of (n, f, k) \<Rightarrow> (None, (n, f, k(l := None))))"

definition share_env :: "nat \<Rightarrow> share_world cache_env" where
  "share_env p = \<lparr>ce_lib = lock_lib (flock p) funlock, ce_sys = disk_net, ce_grp = seq_group, ce_sched = id, ce_ctx = 0,
     ce_cfg = disk_cfg\<rparr>"

definition share_kill :: "nat \<Rightarrow> share_world \<Rightarrow> share_world \<Rightarrow> bool" where
  "share_kill p w w' \<longleftrightarrow> (case w of (n, f, k) \<Rightarrow> w' = (n, f, \<lambda>l. if k l = Some p then None else k l))"

abbreviation files_of_world :: "share_world \<Rightarrow> string \<Rightarrow> string option" where "files_of_world w \<equiv> fst (snd w)"
abbreviation locks_of_world :: "share_world \<Rightarrow> string \<Rightarrow> nat option" where "locks_of_world w \<equiv> snd (snd w)"

lemma run_task_frame:
  assumes "P p" and "\<And>ph p w. P p \<Longrightarrow> P (fst (snd (t ph p w))) \<and> obs (snd (snd (t ph p w))) = obs w"
  shows "obs (snd (snd (run_task t p w))) = obs w"
  using assms(2) [of p GStart w] assms(2) [of "fst (snd (t GStart p w))" _ "snd (snd (t GStart p w))"] assms(1)
  by (simp add: run_task_def case_prod_beta split: phase.splits)

lemma seq_group_frame: "group_frame (obs :: 'w \<Rightarrow> 'o) (seq_group :: ('p, 'q, 'w) errgroup)"
proof -
  show ?thesis unfolding group_frame_def
  proof (intro allI impI, elim conjE)
    fix P Q c p q w and t1 :: "ctx \<Rightarrow> ('p, 'w) task" and t2 :: "ctx \<Rightarrow> ('q, 'w) task"
    assume *: "P p" "Q q" "\<forall>g ph p w. P p \<longrightarrow> P (fst (snd (t1 g ph p w))) \<and> obs (snd (snd (t1 g ph p w))) = obs w"
      "\<forall>g ph q w. Q q \<longrightarrow> Q (fst (snd (t2 g ph q w))) \<and> obs (snd (snd (t2 g ph q w))) = obs w"
    from run_task_frame [of P p "t1 c" obs w] run_task_frame [of Q q "t2 c" obs "snd (snd (run_task (t1 c) p w))"] *
    show "obs (snd (snd (snd (seq_group c t1 t2 p q w)))) = obs w"
      by (simp add: seq_group_def case_prod_beta split: option.splits)
  qed
qed

lemma disk_frame: "frame_law (cache_view files_of_world locks_of_world) disk_net"
proof -
  have n: "\<not> cached_name ''/c/build-1/db/state.db''" by code_simp
  show ?thesis
    unfolding frame_law_def disk_net_def quiet_os_def
    by (simp add: cache_view_def case_prod_beta n fun_eq_iff split: option.splits sum.splits bool.splits)
qed

lemma disk_build_law: "build_law files_of_world locks_of_world (lock_lib t c) disk_net seq_group"
  unfolding build_law_def
proof (intro conjI disk_frame seq_group_frame disk_laws(3))
  show "client_frame (cache_view files_of_world locks_of_world) (lock_lib t c)"
    "temp_dirs (cache_view files_of_world locks_of_world) (lock_lib t c)"
    by (auto simp: client_frame_def temp_dirs_def lock_lib_def cache_view_def)
  show "file_frame locks_of_world disk_net" "open_law files_of_world disk_net"
    by (auto simp: file_frame_def open_law_def disk_net_def quiet_os_def case_prod_beta Let_def split: option.splits)
  have "last_elem (d @ ''/.tmp-copy-1'') = ''.tmp-copy-1''" for d
    using last_elem_sep [of "''.tmp-copy-1''" d] by simp
  then show "temp_names disk_net" by (auto simp: temp_names_def disk_net_def Let_def split: if_splits)
qed

lemma share_env_law: "share_law files_of_world locks_of_world p (share_env p)" "close_law (share_env p)"
    "host_law files_of_world locks_of_world (\<lambda>_ _. False) share_kill"
proof -
  have "lock_law files_of_world locks_of_world p (lock_lib (flock p) funlock)"
    by (auto simp: lock_law_def lock_lib_def flock_def funlock_def split: if_splits)
  moreover have "stat_law files_of_world disk_net" by (auto simp: stat_law_def disk_net_def split: option.splits)
  moreover have "hex_law (lock_lib (flock p) funlock)" by (simp add: hex_law_def lock_lib_def)
  ultimately show "share_law files_of_world locks_of_world p (share_env p)"
    by (simp add: share_law_def share_env_def disk_build_law)
  show "close_law (share_env p)" by (simp add: close_law_def share_env_def lock_lib_def funlock_def case_prod_beta)
  show "host_law files_of_world locks_of_world (\<lambda>_ _. False) share_kill" by (auto simp: host_law_def share_kill_def)
qed

text \<open>Process 0 builds the cache; process 1, which waited for the lock meanwhile, then finds it.\<close>

definition disk_path :: string where "disk_path = ''/c/cached-0000000000000000.db''"

definition share_result :: "bool \<Rightarrow> cache_result" where
  "share_result created = \<lparr>re_CachePath = disk_path, re_Hash = disk_hash, re_Created = created\<rparr>"

definition share_lock :: string where "share_lock = disk_path @ ''.lock''"

lemma share_prims:
  "cc_try_lock (lock_lib t c) = t" "cc_lock_close (lock_lib t c) = c"
  "os_stat disk_net q (n, f, k) = (case f q of None \<Rightarrow> Inl (Std OsErrNotExist) | Some x \<Rightarrow> Inr 1)"
  by (simp_all add: lock_lib_def disk_net_def)

lemma share_sects:
  "ec_sect (share_env p) EStart r (n, f, k) =
     Some (if f disk_path = None then EWait disk_hash disk_path disk_files else EReturn (Inr (share_result False)), r, (n, f, k))"
  "k share_lock = None \<Longrightarrow> ec_sect (share_env p) (EWait disk_hash disk_path disk_files) r (n, f, k) =
     Some (ELocked share_lock disk_hash disk_path disk_files, r, (n, f, k(share_lock \<mapsto> p)))"
  "ec_sect (share_env p) (ELocked share_lock disk_hash disk_path disk_files) r (n, f, k) =
     Some (if f disk_path = None then EBuild share_lock disk_hash disk_path disk_files
           else EUnlock share_lock (Inr (share_result False)), r, (n, f, k))"
  "ec_sect (share_env p) (EUnlock share_lock res) r (n, f, k) = Some (EReturn res, r, (n, f, k(share_lock := None)))"
  by (simp_all add: disk_dir [folded disk_path_def] share_env_def ec_look_def ec_look_again_def share_result_def acquireFileLock_def releaseFileLock_def
      share_lock_def share_prims Let_def flock_def funlock_def split: option.splits)

lemma share_build:
  "\<exists>f. ec_sect (share_env p) (EBuild share_lock disk_hash disk_path disk_files) NewPortRegistry (0, Map.empty, k) =
     Some (EUnlock share_lock (Inr (share_result True)), NewPortRegistry, (5, f, k)) \<and> f disk_path = Some ''db''"
  using disk_createCache [of "flock p" funlock k, folded disk_path_def]
  by (auto simp: share_env_def share_result_def)

definition share_reached :: "(nat \<Rightarrow> ec_pc) \<Rightarrow> share_world \<Rightarrow> bool" where
  "share_reached pcs w \<longleftrightarrow>
     shares share_env (\<lambda>_ _. False) share_kill (share_start (0, Map.empty, Map.empty)) (pcs, \<lambda>_. NewPortRegistry, w)"

lemma share_reached_sect:
  assumes "share_reached pcs w" and "pcs p = pc" and "ec_sect (share_env p) pc NewPortRegistry w = Some (pc', NewPortRegistry, w')"
    and "pcs' = pcs(p := pc')"
  shows "share_reached pcs' w'"
  using assms(1) ec_section [of "\<lambda>p. ec_sect (share_env p)" p pcs "\<lambda>_. NewPortRegistry" w pc' NewPortRegistry w'] assms(2-4)
  unfolding share_reached_def by (simp add: fun_upd_idem rtranclp.rtrancl_into_rtrancl)

lemma share_reached_kill:
  "share_reached pcs (n, f, k) \<Longrightarrow> k' = (\<lambda>l. if k l = Some p then None else k l) \<Longrightarrow> share_reached (pcs(p := EKilled)) (n, f, k')"
  unfolding share_reached_def
  by (erule rtranclp.rtrancl_into_rtrancl) (rule ec_kill, simp add: share_kill_def)

lemma share_run:
  "\<exists>pcs n f k. share_reached pcs (n, f, k) \<and> f disk_path = Some ''db'' \<and> pcs 0 = EReturn (Inr (share_result True)) \<and>
     pcs 1 = EReturn (Inr (share_result False)) \<and> pcs 2 = EKilled"
proof -
  let ?W = "EWait disk_hash disk_path disk_files" and ?L = "ELocked share_lock disk_hash disk_path disk_files"
    and ?B = "EBuild share_lock disk_hash disk_path disk_files" and ?P = "\<lambda>_. EStart" and ?e = "(0, Map.empty, Map.empty)"
    and ?U = "EUnlock share_lock (Inr (share_result True))" and ?V = "EUnlock share_lock (Inr (share_result False))"
  obtain f where f: "ec_sect (share_env 0) ?B NewPortRegistry (0, Map.empty, [share_lock \<mapsto> 0]) =
     Some (?U, NewPortRegistry, (5, f, [share_lock \<mapsto> 0]))" "f disk_path = Some ''db''" using share_build by blast
  note go = share_reached_sect [where p = 0] share_reached_sect [where p = 1] share_reached_sect [where p = 2]
  have look: "ec_sect (share_env p) EStart NewPortRegistry ?e = Some (?W, NewPortRegistry, ?e)" for p
    by (simp add: share_sects(1) del: ec_sect.simps)
  have lock: "ec_sect (share_env p) ?W NewPortRegistry (n, g, Map.empty) = Some (?L, NewPortRegistry, (n, g, [share_lock \<mapsto> p]))" for p n g
    by (simp add: share_sects(2) del: ec_sect.simps)
  have again: "ec_sect (share_env p) ?L NewPortRegistry (n, Map.empty, k) = Some (?B, NewPortRegistry, (n, Map.empty, k))" for p n k
    by (simp add: share_sects(3) del: ec_sect.simps)
  have found: "ec_sect (share_env p) ?L NewPortRegistry (n, f, k) = Some (?V, NewPortRegistry, (n, f, k))" for p n k
    by (simp add: share_sects(3) f(2) del: ec_sect.simps)
  have leave: "ec_sect (share_env p) (EUnlock share_lock res) NewPortRegistry (n, g, [share_lock \<mapsto> p]) =
      Some (EReturn res, NewPortRegistry, (n, g, Map.empty))" for p res n g
    by (simp add: share_sects(4) del: ec_sect.simps)
  have "share_reached ?P ?e" by (simp add: share_reached_def share_start_def)
  then have "share_reached (?P(2 := ?W)) ?e" by (rule go(3) [OF _ _ look]) simp_all
  then have "share_reached (?P(2 := ?L)) (0, Map.empty, [share_lock \<mapsto> 2])" by (rule go(3) [OF _ _ lock]) simp_all
  then have "share_reached ((?P(2 := ?L))(2 := EKilled)) ?e" by (rule share_reached_kill) auto
  then have "share_reached (?P(2 := EKilled, 0 := ?W)) ?e" by (rule go(1) [OF _ _ look]) simp_all
  then have "share_reached (?P(2 := EKilled, 0 := ?W, 1 := ?W)) ?e" by (rule go(2) [OF _ _ look]) simp_all
  then have "share_reached (?P(2 := EKilled, 1 := ?W, 0 := ?L)) (0, Map.empty, [share_lock \<mapsto> 0])"
    by (rule go(1) [OF _ _ lock]) (simp_all add: fun_eq_iff)
  then have "share_reached (?P(2 := EKilled, 1 := ?W, 0 := ?B)) (0, Map.empty, [share_lock \<mapsto> 0])"
    by (rule go(1) [OF _ _ again]) simp_all
  then have "share_reached (?P(2 := EKilled, 1 := ?W, 0 := ?U)) (5, f, [share_lock \<mapsto> 0])" by (rule go(1) [OF _ _ f(1)]) simp_all
  then have "share_reached (?P(2 := EKilled, 1 := ?W, 0 := EReturn (Inr (share_result True)))) (5, f, Map.empty)"
    by (rule go(1) [OF _ _ leave]) simp_all
  then have "share_reached (?P(2 := EKilled, 0 := EReturn (Inr (share_result True)), 1 := ?L)) (5, f, [share_lock \<mapsto> 1])"
    by (rule go(2) [OF _ _ lock]) (simp_all add: fun_eq_iff)
  then have "share_reached (?P(2 := EKilled, 0 := EReturn (Inr (share_result True)), 1 := ?V)) (5, f, [share_lock \<mapsto> 1])"
    by (rule go(2) [OF _ _ found]) simp_all
  then have "share_reached (?P(2 := EKilled, 0 := EReturn (Inr (share_result True)), 1 := EReturn (Inr (share_result False)))) (5, f, Map.empty)"
    by (rule go(2) [OF _ _ leave]) simp_all
  with f(2) show ?thesis
    by (intro exI conjI) (assumption, assumption, simp_all)
qed

subsection \<open>Witnesses\<close>

theorem createCache_publishes_witness:
  "\<exists>f. createCache (lock_lib (flock 0) funlock) disk_net seq_group id 0 disk_cfg disk_path disk_files NewPortRegistry
       (0, Map.empty, Map.empty) = Some (None, NewPortRegistry, (5, f, Map.empty)) \<and>
     published files_of_world locks_of_world disk_path (0, Map.empty, Map.empty) (5, f, Map.empty) \<and> f disk_path \<noteq> None"
proof -
  have n: "cached_name disk_path" by code_simp
  obtain f where f: "createCache (lock_lib (flock 0) funlock) disk_net seq_group id 0 disk_cfg disk_path disk_files NewPortRegistry
       (0, Map.empty, Map.empty) = Some (None, NewPortRegistry, (5, f, Map.empty))"
    using disk_createCache [of "flock 0" funlock Map.empty, folded disk_path_def] by (elim exE conjE)
  from createCache_publishes [OF disk_build_law n f] f show ?thesis by auto
qed

theorem cache_built_once_witness:
  "\<exists>pcs regs w. shares share_env (\<lambda>_ _. False) share_kill (share_start (0, Map.empty, Map.empty)) (pcs, regs, w) \<and>
     pcs 0 = EReturn (Inr (share_result True)) \<and> pcs 1 = EReturn (Inr (share_result False)) \<and> pcs 2 = EKilled \<and>
     files_of_world w disk_path \<noteq> None"
proof -
  obtain pcs n f k where r: "share_reached pcs (n, f, k)" "pcs 0 = EReturn (Inr (share_result True))"
    "pcs 1 = EReturn (Inr (share_result False))" "pcs 2 = EKilled" using share_run by blast
  note run = r(1) [unfolded share_reached_def]
  from cache_built_once [OF share_env_law(1,3) run, of 0 _ 1 "share_result True"] r(2)
  have "f disk_path \<noteq> None" by (simp add: share_result_def)
  with run r(2-4) show ?thesis by (intro exI [of _ pcs] exI [of _ "\<lambda>_. NewPortRegistry"] exI [of _ "(n, f, k)"]) simp
qed

theorem cache_immutable_witness:
  "\<exists>pcs regs w. shares share_env (\<lambda>_ _. False) share_kill (share_start (0, Map.empty, Map.empty)) (pcs, regs, w) \<and>
     files_of_world w disk_path = Some ''db''"
proof -
  obtain pcs n f k where r: "share_reached pcs (n, f, k)" "f disk_path = Some ''db''" using share_run by blast
  note run = r(1) [unfolded share_reached_def]
  have n: "cached_name disk_path" by code_simp
  have "shares share_env (\<lambda>_ _. False) share_kill (pcs, \<lambda>_. NewPortRegistry, (n, f, k)) (pcs, \<lambda>_. NewPortRegistry, (n, f, k))" by simp
  from cache_immutable [OF share_env_law(1,3) run this n] r(2) have "files_of_world (n, f, k) disk_path = Some ''db''" by simp
  with run show ?thesis by blast
qed

lemma share_deadline: "deadline_law (\<lambda>w. int (fst w)) (\<lambda>w c. Some 100) (ce_lib (share_env p)) (ce_sys (share_env p))"
  by (auto simp: share_env_def deadline_law_def disk_net_def lock_lib_def quiet_os_def)


end
