(* ===== verification/Spec2Isabelle.thy ===== *)
theory Spec2Isabelle
  imports Races Tenure Logger Api Cacheshare
begin

text \<open>
  \<^bold>\<open>A verification of k8senv\<close>

  k8senv is a Go library that gives tests short-lived Kubernetes API servers: pairs of a
  \<^verbatim>\<open>kube-apiserver\<close> process and a \<^verbatim>\<open>kine\<close> process (an etcd over SQLite), kept in a pool and
  cleaned between two users. This development models the library bottom up and proves what
  each layer promises to the next.

  \<^bold>\<open>The program and its parts.\<close>
  A test obtains the process-wide manager from the public package, initializes it, and acquires and
  releases instances through handles.
  \<^item> The handles and the singleton (\<^verbatim>\<open>k8senv.go\<close>) call the manager (\<^verbatim>\<open>core/manager.go\<close>).
  \<^item> The manager owns a pool (\<^verbatim>\<open>core/pool.go\<close>), creates instances for it on demand, and starts an
    acquired instance. Instances call back into the manager when a holder releases them.
  \<^item> An instance (\<^verbatim>\<open>core/instance.go\<close>) starts a stack, waits for the system namespaces, and purges
    the database between two holders (\<^verbatim>\<open>core/purge.go\<close>). A 64-bit generation counter tells a current
    holder from a former one.
  \<^item> A stack (\<^verbatim>\<open>kubestack/stack.go\<close>) reserves two ports (\<^verbatim>\<open>netutil/port.go\<close>), starts the two processes
    concurrently (\<^verbatim>\<open>kine/process.go\<close>, \<^verbatim>\<open>apiserver/process.go\<close>), and retries.
  \<^item> Both processes rest on the process life cycle (\<^verbatim>\<open>process/*.go\<close>) and the file copy
    (\<^verbatim>\<open>fileutil/*.go\<close>).
  \<^item> With a CRD directory, the initialization first builds or finds a cached database
    (\<^verbatim>\<open>crdcache/*.go\<close>): a temporary stack into which the documents of the directory are applied, named
    after a hash of that directory.

  \<^bold>\<open>Theories and sources\<close> (below \<^verbatim>\<open>src/\<close> and \<^verbatim>\<open>src/internal/\<close>):
  \<^item> \<open>Prelude\<close>: error values with the chain semantics of \<^verbatim>\<open>errors.Is\<close> and \<^verbatim>\<open>errors.Join\<close>, the outcome
    \<open>Ret\<close>/\<open>Panic\<close> of functions that may panic, contexts, and the lemmas and collections all share.
  \<^item> \<open>World\<close>: the record \<open>os\<close> of what the program calls outside its sources (sockets, files,
    processes, clock, Kubernetes and SQLite clients), each field a function of a world state.
  \<^item> \<open>Paths\<close>: \<^verbatim>\<open>filepath.Clean\<close>, \<^verbatim>\<open>Join\<close>, \<^verbatim>\<open>Rel\<close>, \<^verbatim>\<open>Dir\<close> and \<^verbatim>\<open>Ext\<close> of the standard library, as far as used.
  \<^item> \<open>Netutil\<close> (\<^verbatim>\<open>netutil/port.go\<close>): the registry as a record with the set of reserved ports.
  \<^item> \<open>Process\<close> (\<^verbatim>\<open>process/\<close>), \<open>Fileutil\<close> (\<^verbatim>\<open>fileutil/\<close>), \<open>Kine\<close> (\<^verbatim>\<open>kine/process.go\<close>), \<open>Apiserver\<close>
    (\<^verbatim>\<open>apiserver/process.go\<close>): one record per struct, one definition per method.
  \<^item> \<open>Kubestack\<close> (\<^verbatim>\<open>kubestack/stack.go\<close>): the stack; the two start tasks are phase machines that the
    argument \<open>errgroup\<close> interleaves.
  \<^item> \<open>Config\<close> (\<^verbatim>\<open>core/config.go\<close>), \<open>Purge\<close> (\<^verbatim>\<open>core/purge.go\<close>, part of \<^verbatim>\<open>namespace.go\<close>), \<open>Instance\<close>
    (\<^verbatim>\<open>core/instance.go\<close>, rest of \<^verbatim>\<open>namespace.go\<close>), \<open>Pool\<close> (\<^verbatim>\<open>core/pool.go\<close>), \<open>Manager\<close> (\<^verbatim>\<open>core/manager.go\<close>).
    Instances are shared by reference, so pool and manager work on a heap of them (record \<open>core\<close>).
  \<^item> \<open>Leases\<close>: the abstract specification of the core package, a table of leases, and the refinement.
  \<^item> \<open>Protocol\<close>: the pool's sections as an inductive step relation of any number of goroutines.
    \<open>Races\<close>: three interleavings of \<^verbatim>\<open>Shutdown\<close> with other handlers.
  \<^item> \<open>Handlers\<close> (\<^verbatim>\<open>core/manager.go\<close> and \<^verbatim>\<open>Release\<close> of \<^verbatim>\<open>core/instance.go\<close>): the sections of \<^verbatim>\<open>Initialize\<close>, \<^verbatim>\<open>Acquire\<close>,
    \<^verbatim>\<open>Release\<close> and \<^verbatim>\<open>Shutdown\<close> as step relations, one program counter for each goroutine, over the pool's sections.
    \<open>Sequential\<close> shows that they compose to the definitions of \<open>Manager\<close>; \<open>Interleave\<close> has the
    invariant of all interleavings, \<open>Progress\<close> progress and termination, \<open>Quiet\<close> what a shutdown leaves
    behind, \<open>Tenure\<close> what a client has of its lease.
  \<^item> \<open>Logger\<close> (\<^verbatim>\<open>log.go\<close>, \<^verbatim>\<open>core/log.go\<close>): the package logger, with the interleavings of its atomic operations.
  \<^item> \<open>Crdwalk\<close> (\<^verbatim>\<open>crdcache/walk.go\<close>, \<^verbatim>\<open>hash.go\<close>), \<open>Crdapply\<close> (\<^verbatim>\<open>crdcache/apply.go\<close>), \<open>Crdcache\<close>
    (\<^verbatim>\<open>crdcache/cache.go\<close>, \<^verbatim>\<open>lock.go\<close>), \<open>Wiring\<close> (the call of \<^verbatim>\<open>EnsureCache\<close> from \<^verbatim>\<open>manager.go\<close>).
  \<^item> \<open>Frame\<close>: which parts of the world each operation of a stack and of the cache leaves alone. \<open>Cacheshare\<close>
    (\<^verbatim>\<open>crdcache/cache.go\<close>): \<^verbatim>\<open>EnsureCache\<close> cut into sections, run by any number of processes that share a directory.
  \<^item> \<open>Api\<close> (\<^verbatim>\<open>k8senv.go\<close>, \<^verbatim>\<open>options.go\<close>, \<^verbatim>\<open>defaults.go\<close>): the public package.

  \<^bold>\<open>Interfaces.\<close> Where a component relies on another, the contract is a locale that is interpreted on
  the model of the provider.
  \<^item> \<open>port_reservation\<close> (\<open>preg\<close>): a reservation gives two fresh distinct ports and releases undo it.
  \<^item> \<open>stoppable\<close> (\<open>base_stop\<close>, \<open>kine_stop\<close>, \<open>api_stop\<close>) and \<open>startable\<close> (\<open>kine_start\<close>, \<open>api_start\<close>): what
    the stack needs of a process, so that its lemmas serve kine and kube-apiserver alike.
  \<^item> \<open>instance_releaser\<close> (\<open>mr\<close>): what an instance needs of the manager it calls back.
  \<^item> \<open>instance_factory\<close> (\<open>mf\<close>): what the pool needs of the manager that creates its instances.
  \<^item> \<open>crd_cache\<close> (\<open>crdc\<close>): what the manager needs of the CRD cache.
  \<^item> \<open>cache_sections\<close> (\<open>ec\<close>): what the processes that share a cache directory need of each other's sections.
  \<^item> \<open>host_invariant\<close> and, from new managers on, \<open>host_invariant_new\<close> (\<open>hi\<close>, \<open>lv\<close>, \<open>ok\<close>, \<open>te\<close>, \<open>sw\<close>, \<open>cl\<close>): a
    predicate that every section of the handlers keeps, so it holds along runs and in reachable states.

  \<^bold>\<open>What is shown.\<close>
  \<^item> Resources. A reserved port is returned on every path: a failed attempt, a failed start, a stop
    with errors, the building of a cache, a shutdown. The ports in the registry of a manager belong to
    exactly one started instance each. Database connections are closed on every error.
  \<^item> Exclusive use. An instance has at most one holder, the pool size bounds the instances in use,
    and no slot is lost, for runs of calls (\<open>Leases\<close>), for all interleavings of the pool's
    sections (\<open>Protocol\<close>) and of the manager's handlers (\<open>Interleave\<close>). A released token is rejected until
    the 64-bit counter has gone around; through the public handles the panic for stale tokens is unreachable.
  \<^item> Concurrency of the manager. In every interleaving nobody panics, the counter of releases in flight
    is exact and every port has one owner; nobody deadlocks, and every call comes back to its caller;
    while the pool is open the instance of a lease runs; and a shutdown that begins when no goroutine is
    about to start an instance leaves nothing running, for ever. Calls one at a time are among the interleavings.
  \<^item> Readiness. What \<^verbatim>\<open>Acquire\<close> returns is started: both processes passed their readiness check on
    their ports, with their files on disk and the system namespaces listed.
  \<^item> Cleaning. A purge brings the database back to its state at opening, up to rows of system
    namespaces, which it keeps.
  \<^item> The CRD cache. The walk equals a reference definition, the cache key is the hash of relative
    names and contents, which the hash input determines where no NUL byte occurs, every document is applied once and CRDs come
    first, and a created cache holds the database of a stopped stack with every CRD established.
  \<^item> Processes that share a cache directory. Whatever the order of their sections, with kills in between, no two
    are under one lock, at most one creates a file, a file that is returned is there, and a published
    file is never changed: the build shows nothing of its work before the rename that publishes it.
    No lock is lost. Run by one process, the sections are \<^verbatim>\<open>EnsureCache\<close>.
  \<^item> Life cycle and errors. \<^verbatim>\<open>Initialize\<close> is all or nothing, \<^verbatim>\<open>Shutdown\<close> stops every instance and
    makes later calls fail, and the panics of each operation are characterised.
  \<^item> Divergences. Lemmas named after them show where the code differs from its comments, among them
    the three runs of \<open>Races\<close>: an \<^verbatim>\<open>Acquire\<close> that outlives \<^verbatim>\<open>Shutdown\<close>, an \<^verbatim>\<open>Initialize\<close> that undoes it,
    and a drain that ends early; and the run at the end of \<open>Tenure\<close>, a \<^verbatim>\<open>Release\<close> that meets a shutdown and
    reports a programming error.

  \<^bold>\<open>Bounds and loops.\<close>
  The bounded loops recurse on the source's own bounds, so no fuel is added: 20 port attempts,
  the configured number of start attempts, 3 attempts at the namespaces, 3 baseline queries, 5
  discovery attempts. The compare-and-swap loop of the client cache has the source's bound of
  100 rounds. The wait for established CRDs has no bound in the code; it is a partial function with option values,
  \<open>None\<close> when it does not return, and it is proved to return when the deadline of its
  context passes. Polls of the client libraries are fields of \<open>os\<close>. Generations are 64-bit words;
  durations are unbounded integers of nanoseconds.

  \<^bold>\<open>Hypotheses on code outside the sources\<close>, each a named predicate next to its first use, with a
  concrete instance in a witness:
  \<open>group_law\<close> (errgroup runs tasks to their end), \<open>net_law\<close> (the kernel gives valid ports), \<open>ctx_law\<close> and
  \<open>unhurried\<close> (contexts), \<open>blocking_law\<close> and \<open>poll_law\<close> (timers and polls), \<open>fs_law\<close> and \<open>write_law\<close> (files),
  \<open>sql_law\<close>, \<open>settled\<close> and \<open>conn_law\<close> (SQLite), \<open>names_law\<close> and \<open>poll_cancel_law\<close> (the Kubernetes
  client), \<open>rounds_law\<close>, \<open>visible_from\<close> and \<open>patch_law\<close> (discovery and server-side apply), \<open>deadline_law\<close> (the wait
  of the CRD cache), \<open>lock_law\<close>, \<open>close_law\<close>, \<open>stat_law\<close>, \<open>hex_law\<close> and \<open>host_law\<close> (file locks, \<^verbatim>\<open>os.Stat\<close>, digests and the rest of
  the host, for processes that share a directory), and the frame conditions \<open>frame_law\<close>, \<open>group_frame\<close>, \<open>client_frame\<close>,
  \<open>file_frame\<close>, \<open>temp_names\<close>, \<open>temp_dirs\<close> and \<open>open_law\<close>, gathered in \<open>build_law\<close> (an operation on other files leaves cache
  files and locks alone). \<open>cache_law\<close> is asked of an argument of the manager and discharged in \<open>Wiring\<close>.

  \<^bold>\<open>Not modelled.\<close>
  \<^item> Log records, except the warning of a second \<^verbatim>\<open>NewManager\<close>.
  \<^item> Goroutines below the granularity of the sections named above: a start or a stop of an instance is one
    section, because its mutex is held throughout, and so is the body of \<^verbatim>\<open>Initialize\<close>; the stops of a rollback follow
    an arbitrary order, and the concurrent application of documents is a schedule of whole documents.
  \<^item> A kill inside the build of a cache: the build is one section of \<open>Cacheshare\<close>, because of its effects only the
    publication concerns cache files and locks, which is proved. The goroutines of one process that meet in
    \<^verbatim>\<open>singleflight\<close> are not interleaved.
  \<^item> \<^verbatim>\<open>process/base_other.go\<close> (an empty function of other systems), \<^verbatim>\<open>doc.go\<close> (comments), tests and scripts.
  \<^item> YAML decoding, SHA-256, certificates and the Kubernetes clients: arguments of the definitions
    that call them.

  \<^bold>\<open>Order of work.\<close> The layers from ports to manager came first, then the lease specification, the
  pool's interleavings, the CRD cache, the public package, and the manager's handlers as step relations
  with their safety, progress and termination, and last the processes that share a cache directory. What is left needs
  more than the sources give: the order in which waiting goroutines are served is the Go runtime's, and the
  steps inside \<^verbatim>\<open>singleflight\<close> and the clients are those of other packages.
\<close>

end
